(* ===== verification/Prelude.thy ===== *)
theory Prelude
  imports Complex_Main "HOL-Library.AList" "HOL-Library.List_Lexorder" "HOL-Library.Char_ord"
    "HOL-Library.Multiset" "HOL-Library.Sublist"
begin

text \<open>
  Shared vocabulary of the development.

  \<^item> \<open>'v gomap\<close> is a Go \<^verbatim>\<open>map[string]T\<close>: an association list with one entry per key
    (\<open>wf_map\<close>), read by \<open>map_of\<close>, written by \<open>put\<close> and \<open>del\<close>.
  \<^item> Go leaves two orders open: the order in which \<^verbatim>\<open>range\<close> visits a map and the order
    in which \<^verbatim>\<open>sort.Slice\<close> leaves equal elements. Both are choices of the run-time, so an
    operation that depends on them takes an \<open>order\<close> argument; \<open>shuffle\<close> applies it and
    \<open>shuffle_complete\<close> shows that every order can be chosen.
  \<^item> \<open>wrap64\<close> is the wrap-around of Go's 64-bit integers.
\<close>

section \<open>Collections of rewrite rules\<close>

named_theorems gomap_simps \<open>reading Go maps after an update\<close>
named_theorems model_defs \<open>definitions that witnesses unfold to evaluate the model\<close>

section \<open>Go maps\<close>

type_synonym 'v gomap = "(string \<times> 'v) list"

definition put :: "string \<Rightarrow> 'v \<Rightarrow> 'v gomap \<Rightarrow> 'v gomap" where
  "put k v m = AList.update k v m"

definition del :: "string \<Rightarrow> 'v gomap \<Rightarrow> 'v gomap" where
  "del k m = AList.delete k m"

definition wf_map :: "'v gomap \<Rightarrow> bool" where
  "wf_map m \<longleftrightarrow> distinct (map fst m)"

lemma map_of_put [simp, gomap_simps]: "map_of (put k v m) k' = (if k' = k then Some v else map_of m k')"
  by (simp add: put_def update_conv')

lemma map_of_del [simp, gomap_simps]: "map_of (del k m) k' = (if k' = k then None else map_of m k')"
  by (simp add: del_def delete_conv')

lemma wf_map_Nil [simp]: "wf_map []"
  by (simp add: wf_map_def)

lemma wf_map_put [simp]: "wf_map m \<Longrightarrow> wf_map (put k v m)"
  by (simp add: wf_map_def put_def distinct_update)

lemma wf_map_del [simp]: "wf_map m \<Longrightarrow> wf_map (del k m)"
  by (simp add: wf_map_def del_def distinct_delete)

lemma keys_put [simp]: "fst ` set (put k v m) = insert k (fst ` set m)"
  by (simp add: put_def dom_update)

lemma wf_map_mem: "wf_map m \<Longrightarrow> (k, v) \<in> set m \<longleftrightarrow> map_of m k = Some v"
  by (simp add: wf_map_def)

lemma put_Nil [model_defs]: "put k v [] = [(k, v)]"
  by (simp add: put_def)

lemma put_Cons [model_defs]: "put k v (p # m) = (if fst p = k then (k, v) # m else p # put k v m)"
  by (simp add: put_def)

text \<open>Every value of an updated map is the new one or an old one, and old ones stay elsewhere.\<close>

lemma put_values: "wf_map m \<Longrightarrow> (k', v') \<in> set (put k v m) \<Longrightarrow> v' = v \<or> (k', v') \<in> set m"
  by (auto simp: wf_map_mem split: if_splits)

lemma find_SomeD: "find P xs = Some x \<Longrightarrow> x \<in> set xs \<and> P x"
  by (auto simp: find_Some_iff)

section \<open>Orders the run-time chooses\<close>

lemma distinct_map_mset: "mset xs = mset ys \<Longrightarrow> distinct (map f xs) \<longleftrightarrow> distinct (map f ys)"
  by (metis mset_eq_imp_distinct_iff mset_map)


type_synonym order = "nat \<Rightarrow> nat list"
type_synonym orders = "nat \<Rightarrow> order"

definition shuffle :: "order \<Rightarrow> 'a list \<Rightarrow> 'a list" where
  "shuffle p xs = (let is = p (length xs) in
     if sort is = [0..<length xs] then map (nth xs) is else xs)"

definition id_order :: order where
  "id_order n = [0..<n]"

lemma mset_shuffle [simp]: "mset (shuffle p xs) = mset xs"
proof (cases "sort (p (length xs)) = [0..<length xs]")
  case True
  then have "mset (p (length xs)) = mset [0..<length xs]" by (metis mset_sort)
  then have "mset (map (nth xs) (p (length xs))) = mset (map (nth xs) [0..<length xs])"
    by (metis mset_map)
  with True show ?thesis by (simp add: shuffle_def map_nth)
next
  case False
  then show ?thesis by (simp add: shuffle_def Let_def)
qed

lemma set_shuffle [simp]: "set (shuffle p xs) = set xs"
  by (metis mset_shuffle set_mset_mset)

lemma length_shuffle [simp]: "length (shuffle p xs) = length xs"
  by (metis mset_shuffle size_mset)

lemma shuffle_id [simp]: "shuffle id_order xs = xs"
  by (simp add: shuffle_def id_order_def map_nth)

lemma distinct_map_shuffle [simp]: "distinct (map f (shuffle p xs)) = distinct (map f xs)"
  by (metis mset_eq_imp_distinct_iff mset_map mset_shuffle)

lemma distinct_shuffle [simp]: "distinct (shuffle p xs) = distinct xs"
  using distinct_map_shuffle [of id p xs] by simp

lemma mset_map_preimage:
  "image_mset f M = mset ys \<Longrightarrow> \<exists>is. mset is = M \<and> map f is = ys"
proof (induction ys arbitrary: M)
  case Nil
  then show ?case by (intro exI [of _ "[]"]) simp
next
  case (Cons y ys)
  then have "image_mset f M = add_mset y (mset ys)" by simp
  from msed_map_invR [OF this] obtain N a where
    M: "M = add_mset a N" and a: "f a = y" and N: "image_mset f N = mset ys" by blast
  from Cons.IH [OF N] obtain js where "mset js = N" and "map f js = ys" by blast
  with M a show ?case by (intro exI [of _ "a # js"]) simp
qed

text \<open>Every order of the elements is one the run-time may choose.\<close>

lemma shuffle_complete: "mset ys = mset xs \<Longrightarrow> \<exists>p. shuffle p xs = ys"
proof -
  assume eq: "mset ys = mset xs"
  have "image_mset (nth xs) (mset [0..<length xs]) = mset ys"
    using eq by (metis map_nth mset_map)
  from mset_map_preimage [OF this] obtain js where
    js: "mset js = mset [0..<length xs]" "map (nth xs) js = ys" by blast
  then have "sort js = [0..<length xs]"
    by (metis mset_sort properties_for_sort sorted_upt)
  with js have "shuffle (\<lambda>_. js) xs = ys" by (simp add: shuffle_def)
  then show ?thesis by blast
qed

section \<open>sort.Slice\<close>

definition sort_slice :: "order \<Rightarrow> ('a \<Rightarrow> 'k::linorder) \<Rightarrow> 'a list \<Rightarrow> 'a list" where
  "sort_slice p key xs = sort_key key (shuffle p xs)"

lemma mset_sort_slice [simp]: "mset (sort_slice p key xs) = mset xs"
  by (simp add: sort_slice_def)

lemma set_sort_slice [simp]: "set (sort_slice p key xs) = set xs"
  by (metis mset_sort_slice set_mset_mset)

lemma length_sort_slice [simp]: "length (sort_slice p key xs) = length xs"
  by (simp add: sort_slice_def)

lemma sort_slice_Nil_iff [simp]: "sort_slice p key xs = [] \<longleftrightarrow> xs = []"
  by (metis length_0_conv length_sort_slice)

lemma sorted_sort_slice [simp]: "sorted (map key (sort_slice p key xs))"
  by (simp add: sort_slice_def)

lemma distinct_sort_slice [simp]: "distinct (map f (sort_slice p key xs)) = distinct (map f xs)"
  by (metis mset_eq_imp_distinct_iff mset_map mset_sort_slice)

lemma sorted_distinct_key_unique:
  assumes "mset xs = mset ys" and "sorted (map f xs)" and "sorted (map f ys)" and "distinct (map f xs)"
  shows "xs = ys"
proof -
  have "inj_on f (set xs)" using assms(4) by (simp add: distinct_map)
  moreover have "set ys = set xs" using assms(1) by (metis set_mset_mset)
  moreover have "map f xs = map f ys"
    using assms by (metis mset_map properties_for_sort sort_key_id_if_sorted)
  ultimately show ?thesis by (metis inj_on_map_eq_map map_eq_imp_length_eq Un_absorb)
qed

text \<open>With distinct keys the outcome does not depend on the order chosen.\<close>

lemma sort_slice_distinct:
  assumes "distinct (map key xs)"
  shows "sort_slice p key xs = sort_key key xs"
proof (rule sorted_distinct_key_unique [where f = key])
  show "distinct (map key (sort_slice p key xs))" using assms by simp
qed simp_all

lemma sort_slice_mset_cong:
  assumes "mset xs = mset ys" and "distinct (map key xs)"
  shows "sort_slice p key xs = sort_slice q key ys"
proof (rule sorted_distinct_key_unique [where f = key])
  show "distinct (map key (sort_slice p key xs))" using assms(2) by simp
qed (use assms(1) in simp_all)

section \<open>64-bit integers\<close>

definition wrap64 :: "int \<Rightarrow> int" where
  "wrap64 x = (x + 2 ^ 63) mod 2 ^ 64 - 2 ^ 63"

abbreviation MaxInt64 :: int where "MaxInt64 \<equiv> 2 ^ 63 - 1"
abbreviation MinInt64 :: int where "MinInt64 \<equiv> - (2 ^ 63)"

lemma wrap64_id [simp]: "MinInt64 \<le> x \<Longrightarrow> x \<le> MaxInt64 \<Longrightarrow> wrap64 x = x"
  by (simp add: wrap64_def)

lemma wrap64_range: "MinInt64 \<le> wrap64 x \<and> wrap64 x \<le> MaxInt64"
proof -
  have "0 \<le> (x + 2 ^ 63) mod (2 ^ 64::int)" and "(x + 2 ^ 63) mod (2 ^ 64::int) < 2 ^ 64" by simp_all
  then show ?thesis unfolding wrap64_def by simp
qed

lemma wrap64_overflow: "wrap64 (MaxInt64 + 1) = MinInt64"
  by (simp add: wrap64_def)

section \<open>Lists and optional values\<close>

lemma length_filter_update:
  "i < length xs \<Longrightarrow> \<not> P (xs ! i) \<Longrightarrow> P y \<Longrightarrow>
   length (filter P (xs[i := y])) = Suc (length (filter P xs))"
proof (induction xs arbitrary: i)
  case (Cons x xs)
  then show ?case by (cases i) auto
qed simp

lemma ball_update: "(\<And>x. x \<in> set xs \<Longrightarrow> P x) \<Longrightarrow> P y \<Longrightarrow> x \<in> set (xs[i := y]) \<Longrightarrow> P x"
  using set_update_subset_insert [of xs i y] by auto

text \<open>A triple is made of its parts.\<close>

lemma split3: "p = (fst p, fst (snd p), snd (snd p))"
  by simp

end
