(* ===== verification/GoLib.thy ===== *)
theory GoLib
  imports Prelude
begin

text \<open>
  What the program uses of Go and its standard library.

  \<^item> A Go string is a byte sequence, so it is a \<open>string\<close> (a list of 8-bit characters) with
    the bytewise lexicographic order of \<^verbatim>\<open>List_Lexorder\<close>. \<open>TrimSpace\<close>, \<open>Contains\<close>,
    \<open>Join\<close>, \<open>Itoa\<close>, \<open>Atoi\<close> and \<open>hex\<close> are written out.
  \<^item> The dynamic values of \<^verbatim>\<open>any\<close> are the datatype \<open>val\<close>; \<open>Sprint\<close> is
    \<^verbatim>\<open>fmt.Sprint\<close> of one operand.
  \<^item> A \<^verbatim>\<open>float64\<close> is a NaN, an infinity, a negative zero or a rational; rounding to
    53 (or 24) bits is \<open>round_f64\<close> (\<open>round_f32\<close>).
  \<^item> A \<^verbatim>\<open>time.Time\<close> is the number of nanoseconds since the zero time; \<open>Sub\<close>
    saturates as \<^verbatim>\<open>Time.Sub\<close> does.
  \<^item> \<open>world\<close> holds the readings of the clock and the identifiers drawn from the random
    source; each call of \<^verbatim>\<open>now()\<close> or \<^verbatim>\<open>ids()\<close> takes the next one.
  \<^item> \<open>golib\<close> collects the library functions that are tables, hashes, the regular-expression
    engine or decimal float conversion: they are parameters of the model.
\<close>

section \<open>Errors\<close>

datatype error =
    \<comment> \<open>contract/domain\<close>
    ErrSchemaKind | ErrNoFields | ErrFieldNameType | ErrDuplicateField string
  | ErrContractRequired | ErrCompatibility string | ErrIfMatchRequired | ErrETagMismatch
  | ErrOnlyDraft | ErrVersionNotFound
    \<comment> \<open>contract/application and platform/store\<close>
  | ErrNoVersions | ErrContractExists | ErrContractNotFound
    \<comment> \<open>quality/domain\<close>
  | ErrRuleIDField | ErrRuleOperator | ErrInvalidRegex string
  | ErrRuleSetContract | ErrRuleSetVersion | ErrDuplicateRule string
  | ErrRuleSetNotGreater | ErrRuleSetExists | ErrRuleSetNotFound | ErrNoActiveRuleSet
    \<comment> \<open>ingestion/application\<close>
  | ErrIdempotencyKey | ErrQuota | ErrEventLineage | ErrLineage | ErrEventNotFound
  | ErrLetterNotFound | ErrLetterReplay | ErrLetterIDRequired | ErrStatus string
    \<comment> \<open>platform/config\<close>
  | ErrMaxBodyBytes | ErrWorkerCount | ErrDefaultQuota
    \<comment> \<open>platform/httpapi\<close>
  | ErrTenantRequired | ErrTenantTooLong | ErrDecode string | ErrOneDocument
    \<comment> \<open>a run-time panic\<close>
  | Panic string

type_synonym 'a result = "error + 'a"

definition is_panic :: "'a result \<Rightarrow> bool" where
  "is_panic r = (case r of Inl (Panic _) \<Rightarrow> True | _ \<Rightarrow> False)"

section \<open>Strings\<close>

definition space_encodings :: "string list" where
  "space_encodings =
     [[CHR 0x09], [CHR 0x0A], [CHR 0x0B], [CHR 0x0C], [CHR 0x0D], [CHR 0x20],
      [CHR 0xC2, CHR 0x85], [CHR 0xC2, CHR 0xA0], [CHR 0xE1, CHR 0x9A, CHR 0x80]] @
     map (\<lambda>b. [CHR 0xE2, CHR 0x80, b])
       [CHR 0x80, CHR 0x81, CHR 0x82, CHR 0x83, CHR 0x84, CHR 0x85, CHR 0x86, CHR 0x87,
        CHR 0x88, CHR 0x89, CHR 0x8A, CHR 0xA8, CHR 0xA9, CHR 0xAF] @
     [[CHR 0xE2, CHR 0x81, CHR 0x9F], [CHR 0xE3, CHR 0x80, CHR 0x80]]"

function strip :: "string list \<Rightarrow> string \<Rightarrow> string" where
  "strip ws s =
     (case find (\<lambda>w. w \<noteq> [] \<and> prefix w s) ws of
        None \<Rightarrow> s
      | Some w \<Rightarrow> strip ws (drop (length w) s))"
  by pat_completeness auto
termination
proof (relation "measure (\<lambda>(ws, s). length s)", goal_cases)
  case (2 ws s w)
  then have "w \<noteq> []" and "prefix w s" by (auto simp: find_Some_iff)
  then show ?case by (cases w; cases s) auto
qed simp

declare strip.simps [simp del]

definition TrimSpace :: "string \<Rightarrow> string" where
  "TrimSpace s = rev (strip (map rev space_encodings) (rev (strip space_encodings s)))"

definition is_ascii :: "string \<Rightarrow> bool" where
  "is_ascii s = list_all (\<lambda>c. of_char c < (128 :: nat)) s"

definition ascii_lower :: "char \<Rightarrow> char" where
  "ascii_lower c = (if 65 \<le> (of_char c :: nat) \<and> of_char c \<le> (90 :: nat)
     then char_of (of_char c + 32 :: nat) else c)"

definition Contains :: "string \<Rightarrow> string \<Rightarrow> bool" where
  "Contains s sub = list_ex (prefix sub) (suffixes s)"

fun Join :: "string list \<Rightarrow> string \<Rightarrow> string" where
  "Join [] sep = []"
| "Join [s] sep = s"
| "Join (s # t # ss) sep = s @ sep @ Join (t # ss) sep"

definition digit :: "nat \<Rightarrow> char" where
  "digit d = char_of (48 + d)"

fun nat_str :: "nat \<Rightarrow> string" where
  "nat_str n = (if n < 10 then [digit n] else nat_str (n div 10) @ [digit (n mod 10)])"

declare nat_str.simps [simp del]

definition Itoa :: "int \<Rightarrow> string" where
  "Itoa i = (if i < 0 then CHR ''-'' # nat_str (nat (- i)) else nat_str (nat i))"

fun digits_val :: "string \<Rightarrow> nat \<Rightarrow> nat option" where
  "digits_val [] acc = Some acc"
| "digits_val (c # cs) acc =
     (if 48 \<le> (of_char c :: nat) \<and> of_char c \<le> (57 :: nat)
      then digits_val cs (acc * 10 + (of_char c - 48)) else None)"

definition unsigned_val :: "string \<Rightarrow> nat option" where
  "unsigned_val s = (if s = [] then None else digits_val s 0)"

definition in_int64 :: "int \<Rightarrow> int option" where
  "in_int64 i = (if MinInt64 \<le> i \<and> i \<le> MaxInt64 then Some i else None)"

definition Atoi :: "string \<Rightarrow> int option" where
  "Atoi s = (case s of
       [] \<Rightarrow> None
     | c # cs \<Rightarrow>
         if c = CHR ''-'' then Option.bind (unsigned_val cs) (\<lambda>n. in_int64 (- int n))
         else if c = CHR ''+'' then Option.bind (unsigned_val cs) (\<lambda>n. in_int64 (int n))
         else Option.bind (unsigned_val s) (\<lambda>n. in_int64 (int n)))"

definition hex_digit :: "nat \<Rightarrow> char" where
  "hex_digit d = (if d < 10 then char_of (48 + d) else char_of (87 + d))"

definition hex :: "string \<Rightarrow> string" where
  "hex bs = concat (map (\<lambda>b. [hex_digit (of_char b div 16), hex_digit (of_char b mod 16)]) bs)"

definition bool_str :: "bool \<Rightarrow> string" where
  "bool_str b = (if b then ''true'' else ''false'')"

section \<open>Floating point\<close>

datatype f64 = NaN | PInf | NInf | NZero | Fin rat

definition pow2 :: "int \<Rightarrow> rat" where
  "pow2 e = (if 0 \<le> e then 2 ^ nat e else 1 / 2 ^ nat (- e))"

fun bit_len :: "nat \<Rightarrow> nat" where
  "bit_len n = (if n = 0 then 0 else Suc (bit_len (n div 2)))"

declare bit_len.simps [simp del]

definition ilog2 :: "rat \<Rightarrow> int" where
  "ilog2 x = (let (a, b) = quotient_of x;
                  k = int (bit_len (nat a)) - int (bit_len (nat b))
              in if pow2 k \<le> x then k else k - 1)"

definition half_even :: "rat \<Rightarrow> int" where
  "half_even x = (let f = \<lfloor>x\<rfloor>; d = x - of_int f in
     if d < 1 / 2 then f else if 1 / 2 < d then f + 1 else if even f then f else f + 1)"

definition round_fp :: "int \<Rightarrow> int \<Rightarrow> int \<Rightarrow> rat \<Rightarrow> f64" where
  "round_fp p emin emax x =
     (if x = 0 then Fin 0
      else let e = max (ilog2 \<bar>x\<bar> - (p - 1)) emin;
               r = of_int (half_even (x / pow2 e)) * pow2 e
           in if pow2 emax \<le> r then PInf
              else if r \<le> - pow2 emax then NInf
              else if r = 0 then (if x < 0 then NZero else Fin 0)
              else Fin r)"

definition round_f64 :: "rat \<Rightarrow> f64" where
  "round_f64 = round_fp 53 (- 1074) 1024"

definition round_f32 :: "rat \<Rightarrow> f64" where
  "round_f32 = round_fp 24 (- 149) 128"

fun IsNaN :: "f64 \<Rightarrow> bool" where
  "IsNaN NaN = True"
| "IsNaN _ = False"

fun f64_le :: "f64 \<Rightarrow> f64 \<Rightarrow> bool" where
  "f64_le NaN _ = False"
| "f64_le _ NaN = False"
| "f64_le NInf _ = True"
| "f64_le _ PInf = True"
| "f64_le PInf _ = False"
| "f64_le _ NInf = False"
| "f64_le NZero NZero = True"
| "f64_le NZero (Fin y) = (0 \<le> y)"
| "f64_le (Fin x) NZero = (x \<le> 0)"
| "f64_le (Fin x) (Fin y) = (x \<le> y)"

definition f64_eq :: "f64 \<Rightarrow> f64 \<Rightarrow> bool" where
  "f64_eq x y = (f64_le x y \<and> f64_le y x)"

definition trunc_rat :: "rat \<Rightarrow> int" where
  "trunc_rat x = (if 0 \<le> x then \<lfloor>x\<rfloor> else - \<lfloor>- x\<rfloor>)"

section \<open>Library functions that are parameters\<close>

record golib =
  unicode_lower :: "string \<Rightarrow> string"           \<comment> \<open>strings.ToLower of a string with a non-ASCII byte\<close>
  sha256 :: "string \<Rightarrow> string"                  \<comment> \<open>sha256.Sum256\<close>
  hmac_sha256 :: "string \<Rightarrow> string \<Rightarrow> string"   \<comment> \<open>HMAC with SHA-256: key, message\<close>
  regexp_ok :: "string \<Rightarrow> bool"                 \<comment> \<open>regexp.Compile succeeds\<close>
  regexp_match :: "string \<Rightarrow> string \<Rightarrow> bool"    \<comment> \<open>MatchString: pattern, text\<close>
  fmt_float64 :: "f64 \<Rightarrow> string"                \<comment> \<open>the %v verb on a float64\<close>
  fmt_float32 :: "f64 \<Rightarrow> string"                \<comment> \<open>the %v verb on a float32\<close>
  ParseFloat :: "string \<Rightarrow> f64 \<times> bool"          \<comment> \<open>strconv.ParseFloat(s, 64): the value, and no error\<close>
  Sscan_float :: "string \<Rightarrow> f64 option"         \<comment> \<open>fmt.Sscan into a float64\<close>
  int64_out_of_range :: "f64 \<Rightarrow> int"           \<comment> \<open>int64(f) where Go leaves it to the implementation\<close>

definition ToLower :: "golib \<Rightarrow> string \<Rightarrow> string" where
  "ToLower L s = (if is_ascii s then map ascii_lower s else unicode_lower L s)"

definition int64_of :: "golib \<Rightarrow> f64 \<Rightarrow> int" where
  "int64_of L f = (case f of
       Fin x \<Rightarrow> if MinInt64 \<le> trunc_rat x \<and> trunc_rat x \<le> MaxInt64 then trunc_rat x
                else wrap64 (int64_out_of_range L f)
     | NZero \<Rightarrow> 0
     | _ \<Rightarrow> wrap64 (int64_out_of_range L f))"

section \<open>Dynamic values\<close>

datatype int_kind = KInt | KInt8 | KInt16 | KInt32 | KInt64
  | KUint | KUint8 | KUint16 | KUint32 | KUint64

datatype kind = KBool | KString | KNumeric | KMap | KStruct | KArray | KSlice | KOther

datatype val =
    VNil
  | VBool bool
  | VString string
  | VNumber string                  \<comment> \<open>json.Number\<close>
  | VInt int_kind int
  | VFloat32 f64
  | VFloat64 f64
  | VBytes string                   \<comment> \<open>[]byte\<close>
  | VSlice "val list"               \<comment> \<open>[]any\<close>
  | VMap "(string \<times> val) list"     \<comment> \<open>map[string]any\<close>
  | VOther kind string string       \<comment> \<open>any other dynamic type: its kind, type name and text\<close>

type_synonym fields = "val gomap"

fun Sprint :: "golib \<Rightarrow> val \<Rightarrow> string" where
  "Sprint L VNil = ''<nil>''"
| "Sprint L (VBool b) = bool_str b"
| "Sprint L (VString s) = s"
| "Sprint L (VNumber s) = s"
| "Sprint L (VInt k i) = Itoa i"
| "Sprint L (VFloat32 f) = fmt_float32 L f"
| "Sprint L (VFloat64 f) = fmt_float64 L f"
| "Sprint L (VBytes bs) = ''['' @ Join (map (\<lambda>b. nat_str (of_char b)) bs) '' '' @ '']''"
| "Sprint L (VSlice vs) = ''['' @ Join (map (Sprint L) vs) '' '' @ '']''"
| "Sprint L (VMap kvs) = ''map['' @ Join (map (\<lambda>(k, t). k @ '':'' @ t)
     (sort_key fst (map (\<lambda>(k, v). (k, Sprint L v)) kvs))) '' '' @ '']''"
| "Sprint L (VOther k n t) = t"

section \<open>Time\<close>

type_synonym time = int
type_synonym duration = int

definition IsZero :: "time \<Rightarrow> bool" where
  "IsZero t = (t = 0)"

definition Sub :: "time \<Rightarrow> time \<Rightarrow> duration" where
  "Sub t u = max MinInt64 (min MaxInt64 (t - u))"

abbreviation Microsecond :: duration where "Microsecond \<equiv> 1000"
abbreviation Second :: duration where "Second \<equiv> 1000000000"
abbreviation Minute :: duration where "Minute \<equiv> 60 * Second"
abbreviation Hour :: duration where "Hour \<equiv> 60 * Minute"

section \<open>The clock and the identifier source\<close>

record world =
  clock :: "nat \<Rightarrow> time"
  ticks :: nat
  id_source :: "nat \<Rightarrow> string"
  drawn :: nat

definition now :: "world \<Rightarrow> time \<times> world" where
  "now w = (clock w (ticks w), w\<lparr>ticks := Suc (ticks w)\<rparr>)"

definition new_id :: "world \<Rightarrow> string \<times> world" where
  "new_id w = (id_source w (drawn w), w\<lparr>drawn := Suc (drawn w)\<rparr>)"

lemma is_panic_simps [simp]: "\<not> is_panic (Inr x)" "is_panic (Inl (Panic m))"
  by (simp_all add: is_panic_def)

lemma is_panic_Inl: "is_panic (Inl e) \<longleftrightarrow> (\<exists>m. e = Panic m)"
  by (simp add: is_panic_def split: error.splits)

section \<open>Facts about strings\<close>

lemma strip_id: "(\<And>w. w \<in> set ws \<Longrightarrow> w \<noteq> [] \<Longrightarrow> \<not> prefix w s) \<Longrightarrow> strip ws s = s"
proof -
  assume none: "\<And>w. w \<in> set ws \<Longrightarrow> w \<noteq> [] \<Longrightarrow> \<not> prefix w s"
  then have "find (\<lambda>w. w \<noteq> [] \<and> prefix w s) ws = None" by (auto simp: find_None_iff)
  then show ?thesis by (subst strip.simps) simp
qed

lemma strip_step:
  "find (\<lambda>w. w \<noteq> [] \<and> prefix w s) ws = Some w \<Longrightarrow> strip ws s = strip ws (drop (length w) s)"
  by (subst strip.simps) simp

lemma strip_suffix: "suffix (strip ws s) s"
proof (induction ws s rule: strip.induct)
  case (1 ws s)
  show ?case
  proof (cases "find (\<lambda>w. w \<noteq> [] \<and> prefix w s) ws")
    case None
    then show ?thesis by (subst strip.simps) simp
  next
    case (Some w)
    have "suffix (strip ws (drop (length w) s)) (drop (length w) s)" by (rule 1 [OF Some])
    then show ?thesis using strip_step [OF Some] suffix_drop suffix_order.trans by metis
  qed
qed

lemma strip_clean: "w \<in> set ws \<Longrightarrow> w \<noteq> [] \<Longrightarrow> \<not> prefix w (strip ws s)"
proof (induction ws s rule: strip.induct)
  case (1 ws s)
  show ?case
  proof (cases "find (\<lambda>w. w \<noteq> [] \<and> prefix w s) ws")
    case None
    with 1(2,3) have "\<not> prefix w s" by (auto simp: find_None_iff)
    with None show ?thesis by (subst strip.simps) simp
  next
    case (Some v)
    with 1(1) [OF Some 1(2,3)] show ?thesis by (simp add: strip_step [OF Some])
  qed
qed

text \<open>Trimming twice is trimming once: the second pass finds no white space at either end.\<close>

lemma TrimSpace_idem [simp]: "TrimSpace (TrimSpace s) = TrimSpace s"
proof -
  define t where "t = strip space_encodings s"
  define u where "u = strip (map rev space_encodings) (rev t)"
  have "suffix u (rev t)" by (simp add: u_def strip_suffix)
  then have pre: "prefix (rev u) t" by (metis rev_rev_ident suffix_to_prefix)
  have "strip space_encodings (rev u) = rev u"
  proof (rule strip_id)
    fix w assume "w \<in> set space_encodings" and "w \<noteq> []"
    then have "\<not> prefix w t" by (simp add: t_def strip_clean)
    with pre show "\<not> prefix w (rev u)" using prefix_order.trans by blast
  qed
  moreover have "strip (map rev space_encodings) u = u"
    by (rule strip_id) (simp add: u_def strip_clean)
  ultimately show ?thesis by (simp add: TrimSpace_def t_def [symmetric] u_def [symmetric])
qed

lemma TrimSpace_Nil [simp]: "TrimSpace [] = []"
  by (simp add: TrimSpace_def strip_id)

lemma TrimSpace_nonempty: "TrimSpace s \<noteq> [] \<Longrightarrow> s \<noteq> []"
  by auto

lemma ascii_lower_idem [simp]: "ascii_lower (ascii_lower c) = ascii_lower c"
  by (simp add: ascii_lower_def)

lemma ascii_lower_ascii: "of_char c < (128 :: nat) \<Longrightarrow> of_char (ascii_lower c) < (128 :: nat)"
  by (simp add: ascii_lower_def)

lemma ToLower_ascii_idem [simp]: "is_ascii s \<Longrightarrow> ToLower L (ToLower L s) = ToLower L s"
  by (simp add: ToLower_def is_ascii_def list.pred_map list.pred_mono_strong ascii_lower_ascii comp_def)

lemma Contains_iff: "Contains s sub \<longleftrightarrow> sublist sub s"
  by (simp add: Contains_def list_ex_iff sublist_altdef' Bex_def conj_commute)

subsection \<open>Decimal numbers\<close>

lemma of_char_digit: "d < 10 \<Longrightarrow> of_char (digit d) = 48 + d"
  by (simp add: digit_def)

lemma digits_val_append:
  "digits_val (xs @ ys) acc = Option.bind (digits_val xs acc) (digits_val ys)"
  by (induction xs arbitrary: acc) auto

lemma digits_val_nat_str: "digits_val (nat_str n) 0 = Some n"
proof (induction n rule: nat_str.induct)
  case (1 n)
  show ?case
  proof (cases "n < 10")
    case True
    then show ?thesis by (simp add: nat_str.simps [of n] of_char_digit)
  next
    case False
    with 1 show ?thesis
      by (simp add: nat_str.simps [of n] digits_val_append of_char_digit)
  qed
qed

lemma nat_str_digits: "c \<in> set (nat_str n) \<Longrightarrow> 48 \<le> (of_char c :: nat) \<and> of_char c \<le> (57 :: nat)"
proof (induction n rule: nat_str.induct)
  case (1 n)
  have last: "48 \<le> (of_char (digit (n mod 10)) :: nat) \<and> of_char (digit (n mod 10)) \<le> (57 :: nat)"
    using of_char_digit [of "n mod 10"] by simp
  show ?case
  proof (cases "n < 10")
    case True
    with 1(2) last show ?thesis by (simp add: nat_str.simps [of n])
  next
    case False
    with 1(2) have "c \<in> set (nat_str (n div 10)) \<or> c = digit (n mod 10)"
      by (auto simp: nat_str.simps [of n])
    with 1(1) [OF False] last show ?thesis by blast
  qed
qed

lemma nat_str_nonempty [simp]: "nat_str n \<noteq> []"
  by (subst nat_str.simps) simp

lemma unsigned_val_nat_str [simp]: "unsigned_val (nat_str n) = Some n"
  by (simp add: unsigned_val_def digits_val_nat_str)

lemma nat_str_inject [simp]: "nat_str m = nat_str n \<longleftrightarrow> m = n"
  by (metis option.inject unsigned_val_nat_str)

lemma nat_str_no_sign: "CHR ''-'' \<notin> set (nat_str n)" "CHR ''+'' \<notin> set (nat_str n)"
  using nat_str_digits [of "CHR ''-''" n] nat_str_digits [of "CHR ''+''" n] by auto

text \<open>Printing an integer loses nothing: \<open>Atoi\<close> reads every 64-bit integer back.\<close>

lemma Atoi_Itoa: "MinInt64 \<le> i \<Longrightarrow> i \<le> MaxInt64 \<Longrightarrow> Atoi (Itoa i) = Some i"
proof (cases "i < 0")
  case True
  assume "MinInt64 \<le> i" and "i \<le> MaxInt64"
  with True show ?thesis by (simp add: Atoi_def Itoa_def in_int64_def)
next
  case False
  assume "MinInt64 \<le> i" and "i \<le> MaxInt64"
  obtain c cs where cs: "nat_str (nat i) = c # cs" by (meson nat_str_nonempty neq_Nil_conv)
  with nat_str_no_sign [of "nat i"] have "c \<noteq> CHR ''-''" "c \<noteq> CHR ''+''" by auto
  moreover have "unsigned_val (c # cs) = Some (nat i)" using cs by (metis unsigned_val_nat_str)
  ultimately show ?thesis using False \<open>MinInt64 \<le> i\<close> \<open>i \<le> MaxInt64\<close>
    by (simp add: Atoi_def Itoa_def cs in_int64_def)
qed

lemma Itoa_inject [simp]: "Itoa i = Itoa j \<longleftrightarrow> i = j"
proof
  assume eq: "Itoa i = Itoa j"
  have sign: "CHR ''-'' \<in> set (Itoa k) \<longleftrightarrow> k < 0" for k
    using nat_str_no_sign by (simp add: Itoa_def)
  from eq have "(i < 0) = (j < 0)" by (metis sign)
  with eq show "i = j" by (auto simp: Itoa_def split: if_splits)
qed simp

section \<open>Facts about time and floating point\<close>

lemma Sub_self [simp]: "Sub t t = 0"
  by (simp add: Sub_def)

lemma Sub_gt: "0 \<le> d \<Longrightarrow> d < MaxInt64 \<Longrightarrow> d < Sub t u \<longleftrightarrow> d < t - u"
  by (auto simp: Sub_def)

lemma Sub_ge: "0 \<le> d \<Longrightarrow> d \<le> MaxInt64 \<Longrightarrow> d \<le> Sub t u \<longleftrightarrow> d \<le> t - u"
  by (auto simp: Sub_def)

lemma f64_le_refl: "\<not> IsNaN x \<Longrightarrow> f64_le x x"
  by (cases x) auto

lemma f64_le_trans: "f64_le x y \<Longrightarrow> f64_le y z \<Longrightarrow> f64_le x z"
  by (cases x; cases y; cases z) auto

lemma f64_eq_Fin [simp]: "f64_eq (Fin x) (Fin y) \<longleftrightarrow> x = y"
  by (auto simp: f64_eq_def)

lemma half_even_of_int [simp]: "half_even (of_int i) = i"
  by (simp add: half_even_def)

lemma pow2_pos [simp]: "0 < pow2 e"
  by (simp add: pow2_def)

section \<open>Facts about the clock and the identifier source\<close>

lemma now_simps [simp]:
  "fst (now w) = clock w (ticks w)"
  "snd (now w) = w\<lparr>ticks := Suc (ticks w)\<rparr>"
  by (simp_all add: now_def)

lemma new_id_simps [simp]:
  "fst (new_id w) = id_source w (drawn w)"
  "snd (new_id w) = w\<lparr>drawn := Suc (drawn w)\<rparr>"
  by (simp_all add: new_id_def)

lemma hex_digit_code: "d < 16 \<Longrightarrow> of_char (hex_digit d) = (if d < 10 then 48 + d else 87 + (d :: nat))"
  by (simp add: hex_digit_def)

lemma hex_digit_inject:
  assumes "a < 16" and "b < 16" and "hex_digit a = hex_digit b"
  shows "a = b"
proof -
  have "(if a < 10 then 48 + a else 87 + a) = (if b < 10 then 48 + b else 87 + b)"
    using hex_digit_code [OF assms(1)] hex_digit_code [OF assms(2)] assms(3) by (simp only:)
  then show ?thesis using assms(1,2) by (simp split: if_splits)
qed

lemma hex_inject: "hex xs = hex ys \<Longrightarrow> xs = ys"
proof (induction xs arbitrary: ys)
  case Nil
  then show ?case by (cases ys) (simp_all add: hex_def)
next
  case (Cons x xs)
  then obtain y ys' where ys: "ys = y # ys'" by (cases ys) (simp_all add: hex_def)
  have nib: "of_char c div 16 < (16::nat)" "of_char c mod 16 < (16::nat)" for c :: char
    using nat_of_char_less_256 [of c] less_mult_imp_div_less [of "of_char c" 16 16] by simp_all
  from Cons.prems ys have h: "hex_digit (of_char x div 16) = hex_digit (of_char y div 16)"
    "hex_digit (of_char x mod 16) = hex_digit (of_char y mod 16)" "hex xs = hex ys'"
    by (simp_all add: hex_def)
  then have "of_char x div 16 = (of_char y div 16 :: nat)" "of_char x mod 16 = (of_char y mod 16 :: nat)"
    using hex_digit_inject nib by blast+
  then have "of_char x = (of_char y :: nat)" by (metis div_mult_mod_eq)
  then show ?case using Cons.IH [OF h(3)] ys by simp
qed

section \<open>An instance of the library parameters\<close>

text \<open>
  A concrete \<open>golib\<close>, clock and identifier source for the witnesses: hashing is the identity,
  every pattern compiles and matches only itself, floats print as the integer part.
\<close>

definition demo_lib :: golib where
  "demo_lib = \<lparr>unicode_lower = (\<lambda>s. s), sha256 = (\<lambda>s. s), hmac_sha256 = (\<lambda>k m. k @ m),
     regexp_ok = (\<lambda>_. True), regexp_match = (\<lambda>p s. p = s),
     fmt_float64 = (\<lambda>f. case f of Fin x \<Rightarrow> Itoa (trunc_rat x) | _ \<Rightarrow> ''NaN''),
     fmt_float32 = (\<lambda>f. ''f''), ParseFloat = (\<lambda>s. case Atoi s of None \<Rightarrow> (Fin 0, False) | Some i \<Rightarrow> (Fin (of_int i), True)),
     Sscan_float = (\<lambda>s. map_option (\<lambda>i. Fin (of_int i)) (Atoi s)), int64_out_of_range = (\<lambda>_. MinInt64)\<rparr>"

definition demo_world :: world where
  "demo_world = \<lparr>clock = (\<lambda>n. 1000000000000 + int n), ticks = 0,
     id_source = (\<lambda>n. ''id'' @ nat_str n), drawn = 0\<rparr>"

abbreviation demo_orders :: orders where "demo_orders \<equiv> (\<lambda>_. id_order)"

end
