(* ===== verification/ContractModel.thy ===== *)
theory ContractModel
  imports GoLib
begin

text \<open>
  The contract domain, \<^verbatim>\<open>internal/contract/domain/model.go\<close>: schemas and their canonical
  form, the compatibility check, and the contract aggregate with \<^verbatim>\<open>AddVersion\<close> and
  \<^verbatim>\<open>Publish\<close>. String-valued types whose value a client chooses (\<^verbatim>\<open>SchemaKind\<close>,
  \<^verbatim>\<open>Compatibility\<close>) stay strings; \<open>Lifecycle\<close>, which only the code assigns, is a
  datatype ordered by the life of a version. A \<^verbatim>\<open>Default\<close> of \<^verbatim>\<open>nil\<close> is \<open>VNil\<close>.
\<close>

section \<open>Data\<close>

abbreviation JSONSchema :: string where "JSONSchema \<equiv> ''json-schema''"
abbreviation Protobuf :: string where "Protobuf \<equiv> ''protobuf''"

datatype Lifecycle = Draft | Published | Deprecated | Retired

abbreviation Backward :: string where "Backward \<equiv> ''backward''"
abbreviation Forward :: string where "Forward \<equiv> ''forward''"
abbreviation Full :: string where "Full \<equiv> ''full''"
abbreviation CompatNone :: string where "CompatNone \<equiv> ''none''"

record Field =
  f_Name :: string
  f_Type :: string
  f_Required :: bool
  f_Default :: val
  f_Enum :: "string list"
  f_Annotation :: string

record Schema =
  s_Kind :: string
  s_Fields :: "Field list"
  s_Raw :: string

record Version =
  v_Number :: int
  v_Schema :: Schema
  v_Fingerprint :: string
  v_Lifecycle :: Lifecycle
  v_CreatedAt :: time
  v_PublishedAt :: "time option"
  v_DeprecatesAt :: "time option"
  v_ETag :: string

record Contract =
  c_ID :: string
  c_OrganizationID :: string
  c_Name :: string
  c_Description :: string
  c_Compatibility :: string
  c_Versions :: "Version list"
  c_CreatedAt :: time
  c_UpdatedAt :: time
  c_Revision :: int

record Change =
  ch_Path :: string
  ch_Kind :: string
  ch_Severity :: string
  ch_Explanation :: string

record Report =
  r_Compatible :: bool
  r_Mode :: string
  r_Changes :: "Change list"
  r_Summary :: string

text \<open>The order of the life of a version.\<close>

fun lifecycle_rank :: "Lifecycle \<Rightarrow> nat" where
  "lifecycle_rank Draft = 0"
| "lifecycle_rank Published = 1"
| "lifecycle_rank Deprecated = 2"
| "lifecycle_rank Retired = 3"

instantiation Lifecycle :: linorder
begin

definition less_eq_Lifecycle :: "Lifecycle \<Rightarrow> Lifecycle \<Rightarrow> bool" where
  "less_eq_Lifecycle a b \<longleftrightarrow> lifecycle_rank a \<le> lifecycle_rank b"

definition less_Lifecycle :: "Lifecycle \<Rightarrow> Lifecycle \<Rightarrow> bool" where
  "less_Lifecycle a b \<longleftrightarrow> lifecycle_rank a < lifecycle_rank b"

instance
proof
  fix a b :: Lifecycle
  show "a \<le> b \<Longrightarrow> b \<le> a \<Longrightarrow> a = b"
    by (cases a; cases b) (simp_all add: less_eq_Lifecycle_def)
qed (auto simp: less_eq_Lifecycle_def less_Lifecycle_def)

end

section \<open>Schemas\<close>

definition canonical_field :: "golib \<Rightarrow> Field \<Rightarrow> Field" where
  "canonical_field L f = f\<lparr>f_Name := TrimSpace (f_Name f),
     f_Type := ToLower L (TrimSpace (f_Type f)), f_Enum := sort (f_Enum f)\<rparr>"

definition Schema_Canonical :: "golib \<Rightarrow> order \<Rightarrow> Schema \<Rightarrow> Schema" where
  "Schema_Canonical L p s = s\<lparr>s_Raw := TrimSpace (s_Raw s),
     s_Fields := map (canonical_field L) (sort_slice p f_Name (s_Fields s))\<rparr>"

fun validate_fields :: "Field list \<Rightarrow> string list \<Rightarrow> unit result" where
  "validate_fields [] seen = Inr ()"
| "validate_fields (f # fs) seen =
     (if f_Name f = '''' \<or> f_Type f = '''' then Inl ErrFieldNameType
      else if f_Name f \<in> set seen then Inl (ErrDuplicateField (f_Name f))
      else validate_fields fs (f_Name f # seen))"

definition Schema_Validate :: "Schema \<Rightarrow> unit result" where
  "Schema_Validate s =
     (if s_Kind s \<noteq> JSONSchema \<and> s_Kind s \<noteq> Protobuf then Inl ErrSchemaKind
      else if length (s_Fields s) = 0 then Inl ErrNoFields
      else validate_fields (s_Fields s) [])"

definition field_bytes :: "Field \<Rightarrow> string" where
  "field_bytes f = ''|'' @ f_Name f @ '':'' @ f_Type f @ '':'' @ bool_str (f_Required f) @ '':''
     @ Join (f_Enum f) '','' @ '':'' @ f_Annotation f"

definition Schema_Fingerprint :: "golib \<Rightarrow> order \<Rightarrow> Schema \<Rightarrow> string" where
  "Schema_Fingerprint L p s =
     (let c = Schema_Canonical L p s
      in hex (sha256 L (s_Kind c @ concat (map field_bytes (s_Fields c)))))"

section \<open>Compatibility\<close>

definition containsAll :: "string list \<Rightarrow> string list \<Rightarrow> bool" where
  "containsAll have want = list_all (\<lambda>v. v \<in> set have) want"

definition index_fields :: "Field list \<Rightarrow> Field gomap" where
  "index_fields fs = foldl (\<lambda>m f. put (f_Name f) f m) [] fs"

definition mk_change :: "string \<Rightarrow> string \<Rightarrow> string \<Rightarrow> string \<Rightarrow> Change" where
  "mk_change path kind severity explanation = \<lparr>ch_Path = path, ch_Kind = kind,
     ch_Severity = severity, ch_Explanation = explanation\<rparr>"

definition old_field_changes :: "string \<Rightarrow> string \<Rightarrow> Field \<Rightarrow> Field option \<Rightarrow> Change list" where
  "old_field_changes mode n f nf_opt = (case nf_opt of
       None \<Rightarrow>
         (if mode = Forward
          then [mk_change (''fields.'' @ n) ''field-added-to-old-payload'' ''warning''
                  ''consumer forward compatibility allows removed known field'']
          else [mk_change (''fields.'' @ n) ''field-removed'' ''breaking''
                  ''existing producer payloads may lose field''])
     | Some nf \<Rightarrow>
         (if f_Type f \<noteq> f_Type nf
          then [mk_change (''fields.'' @ n @ ''.type'') ''type-changed'' ''breaking''
                  (''field type changed from '' @ f_Type f @ '' to '' @ f_Type nf)] else []) @
         (if \<not> f_Required f \<and> f_Required nf \<and> f_Default nf = VNil
          then [mk_change (''fields.'' @ n) ''required-strengthened'' ''breaking''
                  ''optional field became required without default''] else []) @
         (if length (f_Enum f) > 0 \<and> \<not> containsAll (f_Enum nf) (f_Enum f)
          then [mk_change (''fields.'' @ n @ ''.enum'') ''enum-narrowed'' ''breaking''
                  ''new enum no longer accepts prior values''] else []) @
         (if f_Annotation f \<noteq> f_Annotation nf
          then [mk_change (''fields.'' @ n @ ''.annotation'') ''semantic-annotation-changed''
                  ''warning'' ''semantic annotation changed''] else []))"

definition new_field_changes :: "string \<Rightarrow> string \<Rightarrow> Field \<Rightarrow> Field option \<Rightarrow> Change list" where
  "new_field_changes mode n f of_opt = (case of_opt of
       Some _ \<Rightarrow> []
     | None \<Rightarrow>
         [mk_change (''fields.'' @ n) ''field-added''
            (if f_Required f \<and> f_Default f = VNil \<and> mode \<noteq> Forward then ''breaking'' else ''safe'')
            ''new field was introduced''])"

definition compare_schemas :: "orders \<Rightarrow> Schema \<Rightarrow> Schema \<Rightarrow> string \<Rightarrow> Change list" where
  "compare_schemas \<pi> old neu mode =
     (let oldBy = index_fields (s_Fields old);
          newBy = index_fields (s_Fields neu);
          out = concat (map (\<lambda>(n, f). old_field_changes mode n f (map_of newBy n)) (shuffle (\<pi> 0) oldBy))
              @ concat (map (\<lambda>(n, f). new_field_changes mode n f (map_of oldBy n)) (shuffle (\<pi> 1) newBy))
      in sort_slice (\<pi> 2) ch_Path out)"

definition Compare :: "golib \<Rightarrow> orders \<Rightarrow> Schema \<Rightarrow> Schema \<Rightarrow> string \<Rightarrow> Report" where
  "Compare L \<pi> previous next mode =
     (let changes = compare_schemas \<pi> (Schema_Canonical L (\<pi> 3) previous)
                      (Schema_Canonical L (\<pi> 4) next) mode;
          bad = list_ex (\<lambda>c. ch_Severity c = ''breaking'') changes
      in \<lparr>r_Compatible = (\<not> bad), r_Mode = mode, r_Changes = changes,
          r_Summary = (if bad then ''incompatible'' else ''compatible'')\<rparr>)"

section \<open>Contracts\<close>

definition NewContract ::
  "string \<Rightarrow> string \<Rightarrow> string \<Rightarrow> string \<Rightarrow> string \<Rightarrow> time \<Rightarrow> Contract result" where
  "NewContract cid org name description mode t =
     (if cid = '''' \<or> org = '''' \<or> TrimSpace name = '''' then Inl ErrContractRequired
      else Inr \<lparr>c_ID = cid, c_OrganizationID = org, c_Name = name, c_Description = description,
        c_Compatibility = (if mode = '''' then Backward else mode), c_Versions = [],
        c_CreatedAt = t, c_UpdatedAt = t, c_Revision = 1\<rparr>)"

definition etag :: "string \<Rightarrow> int \<Rightarrow> string" where
  "etag cid r = cid @ ''-'' @ Itoa r"

definition Contract_AddVersion ::
  "golib \<Rightarrow> orders \<Rightarrow> Contract \<Rightarrow> Schema \<Rightarrow> time \<Rightarrow> (Version \<times> Contract) result" where
  "Contract_AddVersion L \<pi> c schema t =
     (case Schema_Validate schema of
        Inl e \<Rightarrow> Inl e
      | Inr _ \<Rightarrow>
          let report = Compare L \<pi> (v_Schema (last (c_Versions c))) schema (c_Compatibility c)
          in if c_Versions c \<noteq> [] \<and> \<not> r_Compatible report
             then Inl (ErrCompatibility (r_Summary report))
             else let v = \<lparr>v_Number = int (length (c_Versions c)) + 1,
                           v_Schema = Schema_Canonical L (\<pi> 5) schema,
                           v_Fingerprint = Schema_Fingerprint L (\<pi> 6) schema,
                           v_Lifecycle = Draft, v_CreatedAt = t, v_PublishedAt = None,
                           v_DeprecatesAt = None, v_ETag = etag (c_ID c) (wrap64 (c_Revision c + 1))\<rparr>
                  in Inr (v, c\<lparr>c_Versions := c_Versions c @ [v],
                               c_Revision := wrap64 (c_Revision c + 1), c_UpdatedAt := t\<rparr>))"

fun version_index :: "int \<Rightarrow> Version list \<Rightarrow> nat option" where
  "version_index number [] = None"
| "version_index number (v # vs) =
     (if v_Number v = number then Some 0 else map_option Suc (version_index number vs))"

definition Contract_Publish ::
  "Contract \<Rightarrow> int \<Rightarrow> string \<Rightarrow> time \<Rightarrow> (Version \<times> Contract) result" where
  "Contract_Publish c number ifmatch t =
     (if ifmatch = '''' then Inl ErrIfMatchRequired
      else case version_index number (c_Versions c) of
        None \<Rightarrow> Inl ErrVersionNotFound
      | Some i \<Rightarrow>
          let v = c_Versions c ! i in
          if v_ETag v \<noteq> ifmatch then Inl ErrETagMismatch
          else if v_Lifecycle v \<noteq> Draft then Inl ErrOnlyDraft
          else let r = wrap64 (c_Revision c + 1);
                   v' = v\<lparr>v_Lifecycle := Published, v_PublishedAt := Some t,
                          v_ETag := etag (c_ID c) r\<rparr>
               in Inr (v', c\<lparr>c_Versions := (c_Versions c)[i := v'],
                             c_Revision := r, c_UpdatedAt := t\<rparr>))"

section \<open>Validation\<close>

lemma validate_fields_iff:
  "validate_fields fs seen = Inr () \<longleftrightarrow>
     (\<forall>f\<in>set fs. f_Name f \<noteq> '''' \<and> f_Type f \<noteq> '''' \<and> f_Name f \<notin> set seen) \<and> distinct (map f_Name fs)"
  by (induction fs arbitrary: seen) (auto simp: image_iff split: if_splits)

definition valid_schema :: "Schema \<Rightarrow> bool" where
  "valid_schema s \<longleftrightarrow> s_Kind s \<in> {JSONSchema, Protobuf} \<and> s_Fields s \<noteq> [] \<and>
     (\<forall>f\<in>set (s_Fields s). f_Name f \<noteq> '''' \<and> f_Type f \<noteq> '''') \<and> distinct (map f_Name (s_Fields s))"

lemma Schema_Validate_iff: "Schema_Validate s = Inr () \<longleftrightarrow> valid_schema s"
  by (auto simp: Schema_Validate_def valid_schema_def validate_fields_iff)

lemma Schema_Validate_cases: "(\<exists>e. Schema_Validate s = Inl e) \<or> Schema_Validate s = Inr ()"
  by (cases "Schema_Validate s") auto

lemma valid_schema_distinct: "valid_schema s \<Longrightarrow> distinct (map f_Name (s_Fields s))"
  by (simp add: valid_schema_def)

section \<open>Canonical form\<close>

lemma Schema_Canonical_simps [simp]:
  "s_Kind (Schema_Canonical L p s) = s_Kind s"
  "s_Fields (Schema_Canonical L p s) = map (canonical_field L) (sort_slice p f_Name (s_Fields s))"
  by (simp_all add: Schema_Canonical_def)

text \<open>For distinct raw names the canonical form does not depend on how ties are ordered.\<close>

lemma Schema_Canonical_order:
  "distinct (map f_Name (s_Fields s)) \<Longrightarrow> Schema_Canonical L p s = Schema_Canonical L q s"
  by (simp add: Schema_Canonical_def sort_slice_distinct)

lemma Schema_Canonical_perm:
  assumes "s_Kind s = s_Kind t" and "mset (s_Fields s) = mset (s_Fields t)"
    and "distinct (map f_Name (s_Fields s))"
  shows "s_Kind (Schema_Canonical L p s) = s_Kind (Schema_Canonical L q t)"
    and "s_Fields (Schema_Canonical L p s) = s_Fields (Schema_Canonical L q t)"
  using assms sort_slice_mset_cong [OF assms(2,3), of p q] by simp_all

section \<open>The compatibility check\<close>

lemma map_of_foldl_put:
  "map_of (foldl (\<lambda>m f. put (key f) f m) m fs) = map_of (rev (map (\<lambda>f. (key f, f)) fs) @ m)"
proof (induction fs arbitrary: m)
  case (Cons f fs)
  then show ?case by (auto simp: map_add_def fun_eq_iff split: option.splits)
qed simp

lemma wf_map_foldl_put: "wf_map m \<Longrightarrow> wf_map (foldl (\<lambda>m f. put (key f) f m) m fs)"
  by (induction fs arbitrary: m) simp_all

lemma wf_map_index [simp]: "wf_map (index_fields fs)"
  by (simp add: index_fields_def wf_map_foldl_put)

lemma map_of_index: "map_of (index_fields fs) = map_of (rev (map (\<lambda>f. (f_Name f, f)) fs))"
  by (simp add: index_fields_def map_of_foldl_put)

lemma index_Some: "map_of (index_fields fs) n = Some f \<Longrightarrow> f \<in> set fs \<and> f_Name f = n"
  by (auto simp: map_of_index dest!: map_of_SomeD)

lemma index_None: "map_of (index_fields fs) n = None \<longleftrightarrow> n \<notin> f_Name ` set fs"
  by (force simp: map_of_index map_of_eq_None_iff)

lemma index_distinct:
  assumes "distinct (map f_Name fs)"
  shows "map_of (index_fields fs) n = Some f \<longleftrightarrow> f \<in> set fs \<and> f_Name f = n"
proof
  assume "f \<in> set fs \<and> f_Name f = n"
  moreover obtain g where "map_of (index_fields fs) (f_Name f) = Some g"
    using calculation index_None [of fs "f_Name f"] by fastforce
  moreover have "g = f"
    using index_Some [OF calculation(2)] assms calculation(1) by (auto simp: distinct_map inj_on_def)
  ultimately show "map_of (index_fields fs) n = Some f" by simp
qed (rule index_Some)

text \<open>
  What \<^verbatim>\<open>Compare\<close> promises: no field removed (unless forward), no type changed, no field
  newly required without a default, no enumeration value withdrawn.
\<close>

definition field_compatible :: "Field \<Rightarrow> Field \<Rightarrow> bool" where
  "field_compatible f nf \<longleftrightarrow> f_Type f = f_Type nf \<and>
     (f_Required nf \<longrightarrow> f_Required f \<or> f_Default nf \<noteq> VNil) \<and>
     (f_Enum f = [] \<or> set (f_Enum f) \<subseteq> set (f_Enum nf))"

definition schema_compatible :: "string \<Rightarrow> Field list \<Rightarrow> Field list \<Rightarrow> bool" where
  "schema_compatible mode old neu \<longleftrightarrow>
     (\<forall>(n, f)\<in>set (index_fields old).
        case map_of (index_fields neu) n of None \<Rightarrow> mode = Forward | Some nf \<Rightarrow> field_compatible f nf) \<and>
     (\<forall>(n, nf)\<in>set (index_fields neu).
        map_of (index_fields old) n = None \<longrightarrow> f_Required nf \<longrightarrow> f_Default nf \<noteq> VNil \<or> mode = Forward)"

definition breaking :: "Change list \<Rightarrow> bool" where
  "breaking cs = list_ex (\<lambda>c. ch_Severity c = ''breaking'') cs"

lemma breaking_append [simp]: "breaking (xs @ ys) \<longleftrightarrow> breaking xs \<or> breaking ys"
  by (simp add: breaking_def)

lemma breaking_Nil [simp]: "\<not> breaking []"
  by (simp add: breaking_def)

lemma breaking_single [simp]: "breaking [mk_change p k sv e] \<longleftrightarrow> sv = ''breaking''"
  by (simp add: breaking_def mk_change_def)

lemma breaking_concat: "breaking (concat (map g xs)) \<longleftrightarrow> (\<exists>x\<in>set xs. breaking (g x))"
  by (induction xs) auto

lemma breaking_sort_slice [simp]: "breaking (sort_slice p k xs) = breaking xs"
  by (simp add: breaking_def list_ex_iff)

lemma containsAll_iff: "containsAll have want \<longleftrightarrow> set want \<subseteq> set have"
  by (auto simp: containsAll_def list_all_iff)

lemma breaking_old:
  "breaking (old_field_changes mode n f o') \<longleftrightarrow>
     \<not> (case o' of None \<Rightarrow> mode = Forward | Some nf \<Rightarrow> field_compatible f nf)"
  by (cases o') (auto simp: old_field_changes_def field_compatible_def containsAll_iff)

lemma breaking_new:
  "breaking (new_field_changes mode n f o') \<longleftrightarrow>
     o' = None \<and> f_Required f \<and> f_Default f = VNil \<and> mode \<noteq> Forward"
  by (cases o') (auto simp: new_field_changes_def)

lemma breaking_compare:
  "breaking (compare_schemas \<pi> old neu mode) \<longleftrightarrow> \<not> schema_compatible mode (s_Fields old) (s_Fields neu)"
  by (auto simp: compare_schemas_def Let_def breaking_concat breaking_old breaking_new
      schema_compatible_def split_beta)

lemma Compare_compatible:
  "r_Compatible (Compare L \<pi> previous neu mode) \<longleftrightarrow>
     schema_compatible mode (s_Fields (Schema_Canonical L (\<pi> 3) previous))
       (s_Fields (Schema_Canonical L (\<pi> 4) neu))"
  using breaking_compare [of \<pi> "Schema_Canonical L (\<pi> 3) previous" "Schema_Canonical L (\<pi> 4) neu" mode]
  by (simp add: Compare_def Let_def breaking_def)

lemma mset_concat_shuffle: "mset (concat (map g (shuffle p xs))) = mset (concat (map g xs))"
proof -
  have "mset (concat (map g ys)) = sum_mset (image_mset (mset \<circ> g) (mset ys))" for ys
    by (simp add: mset_concat flip: sum_mset_sum_list)
  then show ?thesis by simp
qed

lemma mset_compare_schemas:
  "mset (compare_schemas \<pi> old neu mode) = mset (compare_schemas \<rho> old neu mode)"
  by (simp add: compare_schemas_def Let_def mset_concat_shuffle)

lemma old_field_changes_mode:
  "mode \<noteq> Forward \<Longrightarrow> mode' \<noteq> Forward \<Longrightarrow> old_field_changes mode = old_field_changes mode'"
  by (simp add: old_field_changes_def fun_eq_iff)

lemma new_field_changes_mode:
  "mode \<noteq> Forward \<Longrightarrow> mode' \<noteq> Forward \<Longrightarrow> new_field_changes mode = new_field_changes mode'"
  by (auto simp: new_field_changes_def fun_eq_iff split: option.splits)

lemma compare_schemas_mode:
  "mode \<noteq> Forward \<Longrightarrow> mode' \<noteq> Forward \<Longrightarrow>
   compare_schemas \<pi> old neu mode = compare_schemas \<pi> old neu mode'"
  using old_field_changes_mode [of mode mode'] new_field_changes_mode [of mode mode']
  by (simp add: compare_schemas_def)

section \<open>The contract aggregate\<close>

lemma etag_inject [simp]: "etag cid r = etag cid r' \<longleftrightarrow> r = r'"
  by (simp add: etag_def)

lemma etag_nonempty [simp]: "etag cid r \<noteq> []"
  by (simp add: etag_def)

lemma version_index_Some:
  "version_index n vs = Some i \<longleftrightarrow>
     i < length vs \<and> v_Number (vs ! i) = n \<and> (\<forall>j<i. v_Number (vs ! j) \<noteq> n)"
proof (induction vs arbitrary: i)
  case (Cons v vs)
  then show ?case by (cases i) (auto simp: less_Suc_eq_0_disj)
qed simp

lemma version_index_None: "version_index n vs = None \<longleftrightarrow> n \<notin> v_Number ` set vs"
  by (induction vs) auto

definition published_count :: "Version list \<Rightarrow> int" where
  "published_count vs = int (length (filter (\<lambda>v. v_Lifecycle v \<noteq> Draft) vs))"

text \<open>
  The invariant of a contract: versions are numbered from 1 in order, the revision counts the
  changes, every entity tag names a revision reached so far, no two versions share one, and a
  version is a draft or published.
\<close>

definition wf_contract :: "Contract \<Rightarrow> bool" where
  "wf_contract c \<longleftrightarrow>
     (\<forall>i<length (c_Versions c). v_Number (c_Versions c ! i) = int i + 1) \<and>
     c_Revision c = 1 + int (length (c_Versions c)) + published_count (c_Versions c) \<and>
     (\<forall>v\<in>set (c_Versions c). v_ETag v \<in> etag (c_ID c) ` {2..c_Revision c}) \<and>
     distinct (map v_ETag (c_Versions c)) \<and>
     (\<forall>v\<in>set (c_Versions c). s_Fields (v_Schema v) \<noteq> [] \<and>
        (v_Lifecycle v = Draft \<and> v_PublishedAt v = None \<or>
         v_Lifecycle v = Published \<and> v_PublishedAt v \<noteq> None))"

text \<open>Room for further versions before the 64-bit revision could wrap.\<close>

definition fits :: "Contract \<Rightarrow> bool" where
  "fits c \<longleftrightarrow> 2 * int (length (c_Versions c)) + 2 \<le> MaxInt64"

inductive contract_step :: "golib \<Rightarrow> Contract \<Rightarrow> Contract \<Rightarrow> bool" for L where
  add: "Contract_AddVersion L \<pi> c schema t = Inr (v, c') \<Longrightarrow> contract_step L c c'"
| publish: "Contract_Publish c n m t = Inr (v, c') \<Longrightarrow> contract_step L c c'"

inductive contract_reach :: "golib \<Rightarrow> Contract \<Rightarrow> bool" for L where
  new: "NewContract cid org name descr mode t = Inr c \<Longrightarrow> contract_reach L c"
| step: "contract_reach L c \<Longrightarrow> contract_step L c c' \<Longrightarrow> contract_reach L c'"

lemma published_count_le: "published_count vs \<le> int (length vs)"
  by (simp add: published_count_def)

lemma wf_contract_revision:
  "wf_contract c \<Longrightarrow> 1 \<le> c_Revision c \<and> c_Revision c \<le> 2 * int (length (c_Versions c)) + 1"
  using published_count_le [of "c_Versions c"] by (simp add: wf_contract_def published_count_def)

lemma wrap_revision: "wf_contract c \<Longrightarrow> fits c \<Longrightarrow> wrap64 (c_Revision c + 1) = c_Revision c + 1"
  using wf_contract_revision [of c] by (intro wrap64_id) (simp_all add: fits_def)

lemma fresh_etag: "wf_contract c \<Longrightarrow> etag (c_ID c) (c_Revision c + 1) \<notin> v_ETag ` set (c_Versions c)"
  by (force simp: wf_contract_def)

text \<open>The branches of \<^verbatim>\<open>AddVersion\<close> and \<^verbatim>\<open>Publish\<close>.\<close>

lemma AddVersion_Inr:
  assumes "Contract_AddVersion L \<pi> c schema t = Inr (v, c')"
  shows "valid_schema schema"
    and "c_Versions c \<noteq> [] \<Longrightarrow>
      r_Compatible (Compare L \<pi> (v_Schema (last (c_Versions c))) schema (c_Compatibility c))"
    and "v = \<lparr>v_Number = int (length (c_Versions c)) + 1, v_Schema = Schema_Canonical L (\<pi> 5) schema,
           v_Fingerprint = Schema_Fingerprint L (\<pi> 6) schema, v_Lifecycle = Draft, v_CreatedAt = t,
           v_PublishedAt = None, v_DeprecatesAt = None, v_ETag = etag (c_ID c) (wrap64 (c_Revision c + 1))\<rparr>"
    and "c' = c\<lparr>c_Versions := c_Versions c @ [v], c_Revision := wrap64 (c_Revision c + 1), c_UpdatedAt := t\<rparr>"
  using assms by (auto simp: Contract_AddVersion_def Let_def Schema_Validate_iff [symmetric]
      split: sum.splits if_splits)

lemma Publish_Inr:
  assumes "Contract_Publish c n m t = Inr (v, c')"
  obtains i where "version_index n (c_Versions c) = Some i" "i < length (c_Versions c)"
    "m \<noteq> ''''" "v_ETag (c_Versions c ! i) = m" "v_Lifecycle (c_Versions c ! i) = Draft"
    "v = (c_Versions c ! i)\<lparr>v_Lifecycle := Published, v_PublishedAt := Some t,
           v_ETag := etag (c_ID c) (wrap64 (c_Revision c + 1))\<rparr>"
    "c' = c\<lparr>c_Versions := (c_Versions c)[i := v], c_Revision := wrap64 (c_Revision c + 1), c_UpdatedAt := t\<rparr>"
  using assms version_index_Some
  by (auto simp: Contract_Publish_def Let_def split: option.splits if_splits)

lemma NewContract_wf: "NewContract cid org name descr mode t = Inr c \<Longrightarrow> wf_contract c"
  by (auto simp: NewContract_def wf_contract_def published_count_def split: if_splits)

lemma valid_schema_canonical_nonempty:
  "valid_schema s \<Longrightarrow> s_Fields (Schema_Canonical L p s) \<noteq> []"
  by (simp add: valid_schema_def)

lemma AddVersion_wf:
  assumes wf: "wf_contract c" and fit: "fits c"
    and add: "Contract_AddVersion L \<pi> c schema t = Inr (v, c')"
  shows "wf_contract c'"
proof -
  note w = wrap_revision [OF wf fit]
  note r = AddVersion_Inr [OF add, unfolded w]
  have v: "v_Number v = int (length (c_Versions c)) + 1" "v_ETag v = etag (c_ID c) (c_Revision c + 1)"
    "v_Lifecycle v = Draft" "v_PublishedAt v = None" "s_Fields (v_Schema v) \<noteq> []"
    unfolding r(3) using valid_schema_canonical_nonempty [OF r(1)] by simp_all
  have rev: "1 \<le> c_Revision c" using wf_contract_revision [OF wf] by simp
  have nth: "v_Number ((c_Versions c @ [v]) ! i) = int i + 1" if "i < Suc (length (c_Versions c))" for i
    using that wf by (auto simp: nth_append v wf_contract_def less_Suc_eq)
  have tags: "v_ETag u \<in> etag (c_ID c) ` {2..c_Revision c + 1}" if "u \<in> set (c_Versions c @ [v])" for u
    using that wf rev by (fastforce simp: wf_contract_def v)
  have count: "published_count (c_Versions c @ [v]) = published_count (c_Versions c)"
    by (simp add: published_count_def v)
  show ?thesis
    using wf nth tags count fresh_etag [OF wf] v unfolding r(4) by (auto simp: wf_contract_def)
qed

lemma Publish_wf:
  assumes wf: "wf_contract c" and fit: "fits c"
    and pub: "Contract_Publish c n m t = Inr (v, c')"
  shows "wf_contract c'"
proof -
  note w = wrap_revision [OF wf fit]
  from pub obtain i where i: "i < length (c_Versions c)" "v_Lifecycle (c_Versions c ! i) = Draft"
    and v: "v = (c_Versions c ! i)\<lparr>v_Lifecycle := Published, v_PublishedAt := Some t,
      v_ETag := etag (c_ID c) (c_Revision c + 1)\<rparr>"
    and c': "c' = c\<lparr>c_Versions := (c_Versions c)[i := v], c_Revision := c_Revision c + 1, c_UpdatedAt := t\<rparr>"
    using w by (elim Publish_Inr) simp
  have rev: "1 \<le> c_Revision c" using wf_contract_revision [OF wf] by simp
  have nth: "v_Number ((c_Versions c)[i := v] ! j) = int j + 1" if "j < length (c_Versions c)" for j
    using that wf by (cases "j = i") (auto simp: wf_contract_def v)
  have count: "published_count ((c_Versions c)[i := v]) = published_count (c_Versions c) + 1"
    using i by (simp add: published_count_def length_filter_update v)
  have tags: "v_ETag u \<in> etag (c_ID c) ` {2..c_Revision c + 1}" if "u \<in> set ((c_Versions c)[i := v])" for u
    by (rule ball_update [OF _ _ that]) (use wf rev in \<open>fastforce simp: wf_contract_def v\<close>)+
  have dist: "distinct (map v_ETag ((c_Versions c)[i := v]))"
    using wf fresh_etag [OF wf] by (simp add: map_update distinct_list_update wf_contract_def v)
  have life: "s_Fields (v_Schema u) \<noteq> [] \<and> (v_Lifecycle u = Draft \<and> v_PublishedAt u = None \<or>
      v_Lifecycle u = Published \<and> v_PublishedAt u \<noteq> None)" if "u \<in> set ((c_Versions c)[i := v])" for u
    by (rule ball_update [OF _ _ that]) (use wf i in \<open>auto simp: wf_contract_def v\<close>)
  show ?thesis
    using wf nth tags dist life count unfolding c' by (simp add: wf_contract_def)
qed

lemma step_fits: "contract_step L c c' \<Longrightarrow> fits c' \<Longrightarrow> fits c"
  by (erule contract_step.cases) (auto simp: fits_def dest: AddVersion_Inr(4) elim!: Publish_Inr)

lemma step_wf: "contract_step L c c' \<Longrightarrow> wf_contract c \<Longrightarrow> fits c \<Longrightarrow> wf_contract c'"
  by (auto elim!: contract_step.cases intro: AddVersion_wf Publish_wf)

lemma reach_wf: "contract_reach L c \<Longrightarrow> fits c \<Longrightarrow> wf_contract c"
proof (induction rule: contract_reach.induct)
  case new
  then show ?case by (blast intro: NewContract_wf)
next
  case (step c c')
  then show ?case by (blast intro: step_wf step_fits)
qed

text \<open>Fields that no step writes, and what it keeps of the versions that exist.\<close>

lemma step_frame:
  "contract_step L c c' \<Longrightarrow> c_ID c' = c_ID c \<and> c_OrganizationID c' = c_OrganizationID c \<and>
     c_Name c' = c_Name c \<and> c_Compatibility c' = c_Compatibility c \<and> c_CreatedAt c' = c_CreatedAt c"
  by (erule contract_step.cases) (auto dest: AddVersion_Inr(4) elim!: Publish_Inr)

definition version_evolves :: "Version \<Rightarrow> Version \<Rightarrow> bool" where
  "version_evolves v v' \<longleftrightarrow> v_Number v' = v_Number v \<and> v_Schema v' = v_Schema v \<and>
     v_Fingerprint v' = v_Fingerprint v \<and> v_CreatedAt v' = v_CreatedAt v \<and> v_Lifecycle v \<le> v_Lifecycle v'"

lemma version_evolves_refl [simp]: "version_evolves v v"
  by (simp add: version_evolves_def)

lemma version_evolves_trans: "version_evolves u v \<Longrightarrow> version_evolves v w \<Longrightarrow> version_evolves u w"
  by (auto simp: version_evolves_def)

lemma step_versions:
  "contract_step L c c' \<Longrightarrow> length (c_Versions c) \<le> length (c_Versions c') \<and>
     (\<forall>i<length (c_Versions c). version_evolves (c_Versions c ! i) (c_Versions c' ! i))"
proof (erule contract_step.cases, goal_cases)
  case (1 \<pi> c1 schema t v c2)
  then show ?case using AddVersion_Inr(4) [OF 1(3)] by (simp add: nth_append)
next
  case (2 c1 n m t v c2)
  then show ?case
    by (auto elim!: Publish_Inr simp: nth_list_update version_evolves_def less_eq_Lifecycle_def)
qed

lemma wf_version_index:
  "wf_contract c \<Longrightarrow> version_index n (c_Versions c) = Some i \<longleftrightarrow> i < length (c_Versions c) \<and> n = int i + 1"
  by (auto simp: version_index_Some wf_contract_def)

text \<open>Every version in the history passed the check against the version before it.\<close>

definition compatible_history :: "golib \<Rightarrow> Contract \<Rightarrow> bool" where
  "compatible_history L c \<longleftrightarrow> (\<forall>i. Suc i < length (c_Versions c) \<longrightarrow>
     (\<exists>p. schema_compatible (c_Compatibility c)
        (s_Fields (Schema_Canonical L p (v_Schema (c_Versions c ! i))))
        (s_Fields (v_Schema (c_Versions c ! Suc i)))))"

lemma AddVersion_history:
  assumes add: "Contract_AddVersion L \<pi> c schema t = Inr (v, c')" and h: "compatible_history L c"
  shows "compatible_history L c'"
  unfolding compatible_history_def
proof (intro allI impI)
  fix i assume i: "Suc i < length (c_Versions c')"
  note r = AddVersion_Inr [OF add]
  show "\<exists>p. schema_compatible (c_Compatibility c') (s_Fields (Schema_Canonical L p (v_Schema (c_Versions c' ! i))))
          (s_Fields (v_Schema (c_Versions c' ! Suc i)))"
  proof (cases "Suc i < length (c_Versions c)")
    case True
    with h show ?thesis by (simp add: r(4) nth_append compatible_history_def)
  next
    case False
    with i have len: "length (c_Versions c) = Suc i" by (simp add: r(4))
    then have ne: "c_Versions c \<noteq> []" by auto
    with len have last: "last (c_Versions c) = c_Versions c ! i" by (simp add: last_conv_nth)
    have "Schema_Canonical L (\<pi> 4) schema = v_Schema v"
      using Schema_Canonical_order [OF valid_schema_distinct [OF r(1)]] by (simp add: r(3))
    with r(2) [OF ne] len show ?thesis
      by (auto simp: Compare_compatible last r(4) nth_append simp del: Schema_Canonical_simps)
  qed
qed

lemma Publish_history:
  assumes pub: "Contract_Publish c n m t = Inr (v, c')" and h: "compatible_history L c"
  shows "compatible_history L c'"
proof -
  have "v_Schema (c_Versions c' ! j) = v_Schema (c_Versions c ! j)" if "j < length (c_Versions c)" for j
    using pub that by (elim Publish_Inr) (simp add: nth_list_update)
  moreover have "length (c_Versions c') = length (c_Versions c)" "c_Compatibility c' = c_Compatibility c"
    using pub by (auto elim!: Publish_Inr)
  ultimately show ?thesis using h by (simp add: compatible_history_def)
qed

lemma reach_history: "contract_reach L c \<Longrightarrow> compatible_history L c"
proof (induction rule: contract_reach.induct)
  case (new cid org name descr mode t c)
  then show ?case by (auto simp: NewContract_def compatible_history_def split: if_splits)
next
  case (step c c')
  then show ?case by (auto elim!: contract_step.cases intro: AddVersion_history Publish_history)
qed

section \<open>Sample contract\<close>

definition demo_field :: "string \<Rightarrow> string \<Rightarrow> bool \<Rightarrow> Field" where
  "demo_field n t r = \<lparr>f_Name = n, f_Type = t, f_Required = r, f_Default = VNil, f_Enum = [], f_Annotation = ''''\<rparr>"

definition demo_schema :: Schema where
  "demo_schema = \<lparr>s_Kind = JSONSchema, s_Fields = [demo_field ''id'' ''string'' True, demo_field ''b'' ''int'' False],
     s_Raw = ''''\<rparr>"

definition demo_contract :: Contract where
  "demo_contract = \<lparr>c_ID = ''c'', c_OrganizationID = ''acme'', c_Name = ''orders'', c_Description = '''',
     c_Compatibility = Backward, c_Versions = [], c_CreatedAt = 5, c_UpdatedAt = 5, c_Revision = 1\<rparr>"

lemma demo_new: "NewContract ''c'' ''acme'' ''orders'' '''' '''' 5 = Inr demo_contract"
  by code_simp

lemma demo_valid: "valid_schema demo_schema"
  by (simp add: valid_schema_def demo_schema_def demo_field_def)

definition demo_versioned :: Contract where
  "demo_versioned = snd (projr (Contract_AddVersion demo_lib demo_orders demo_contract demo_schema 6))"

lemma demo_add:
  "\<exists>v. Contract_AddVersion demo_lib demo_orders demo_contract demo_schema 6 = Inr (v, demo_versioned)"
  using demo_valid
  by (simp add: demo_versioned_def Contract_AddVersion_def Let_def demo_contract_def
      flip: Schema_Validate_iff)

lemma demo_versioned_simps:
  "c_ID demo_versioned = ''c''" "c_Revision demo_versioned = 2" "length (c_Versions demo_versioned) = 1"
  "v_Number (c_Versions demo_versioned ! 0) = 1" "v_Lifecycle (c_Versions demo_versioned ! 0) = Draft"
  "v_ETag (c_Versions demo_versioned ! 0) = etag ''c'' 2"
  using demo_valid
  by (simp_all add: demo_versioned_def Contract_AddVersion_def Let_def demo_contract_def
      flip: Schema_Validate_iff)

lemma demo_reach: "contract_reach demo_lib demo_versioned"
  using demo_add contract_reach.new [OF demo_new] by (blast intro: contract_reach.step contract_step.add)

lemma demo_publish: "\<exists>v c'. Contract_Publish demo_versioned 1 (etag ''c'' 2) 7 = Inr (v, c')"
proof -
  have "version_index 1 (c_Versions demo_versioned) = Some 0"
    by (simp add: version_index_Some demo_versioned_simps)
  then show ?thesis by (simp add: Contract_Publish_def Let_def demo_versioned_simps)
qed

section \<open>Properties\<close>

text \<open>\<^verbatim>\<open>Schema.Validate\<close> accepts exactly the schemas of a known kind with at least one
  field, every field named and typed, and no name used twice.\<close>

theorem schema_validate_iff: "Schema_Validate s = Inr () \<longleftrightarrow> valid_schema s"
  by (rule Schema_Validate_iff)

text \<open>C25: \<^verbatim>\<open>Compare\<close> reports compatible exactly when, on the canonical forms, no field is
  removed (forward mode apart), no type changes, no field becomes required without a default and
  no enumeration value is withdrawn; the summary says the same and the changes are listed by path.\<close>

theorem compare_report:
  "r_Compatible (Compare L \<pi> previous neu mode) =
     schema_compatible mode (s_Fields (Schema_Canonical L (\<pi> 3) previous))
       (s_Fields (Schema_Canonical L (\<pi> 4) neu)) \<and>
   r_Summary (Compare L \<pi> previous neu mode) =
     (if r_Compatible (Compare L \<pi> previous neu mode) then ''compatible'' else ''incompatible'') \<and>
   sorted (map ch_Path (r_Changes (Compare L \<pi> previous neu mode)))"
proof -
  have "sorted (map ch_Path (compare_schemas \<pi> a b mode))" for a b
    by (simp add: compare_schemas_def Let_def)
  moreover have "r_Summary (Compare L \<pi> previous neu mode) =
      (if r_Compatible (Compare L \<pi> previous neu mode) then ''compatible'' else ''incompatible'')"
    by (simp add: Compare_def Let_def)
  moreover have "r_Changes (Compare L \<pi> previous neu mode) =
      compare_schemas \<pi> (Schema_Canonical L (\<pi> 3) previous) (Schema_Canonical L (\<pi> 4) neu) mode"
    by (simp add: Compare_def Let_def)
  ultimately show ?thesis by (simp only: Compare_compatible)
qed

text \<open>For validated schemas the verdict, the summary and the collection of changes do not
  depend on the order in which Go visits its maps or leaves equal elements when sorting.\<close>

theorem compare_order_independent:
  assumes "valid_schema previous" and "valid_schema neu"
  shows "r_Compatible (Compare L \<pi> previous neu mode) = r_Compatible (Compare L \<rho> previous neu mode) \<and>
    mset (r_Changes (Compare L \<pi> previous neu mode)) = mset (r_Changes (Compare L \<rho> previous neu mode))"
proof -
  have "Schema_Canonical L (\<pi> 3) previous = Schema_Canonical L (\<rho> 3) previous"
    and "Schema_Canonical L (\<pi> 4) neu = Schema_Canonical L (\<rho> 4) neu"
    using assms by (simp_all add: Schema_Canonical_order valid_schema_def)
  then show ?thesis using mset_compare_schemas
    by (simp only: Compare_compatible) (simp only: Compare_def Let_def Report.simps)
qed

theorem compare_order_independent_witness:
  "valid_schema demo_schema \<and>
   r_Compatible (Compare demo_lib demo_orders demo_schema demo_schema Backward) =
   r_Compatible (Compare demo_lib (\<lambda>_ n. rev [0..<n]) demo_schema demo_schema Backward)"
  using demo_valid compare_order_independent [OF demo_valid demo_valid] by blast

text \<open>Every mode other than \<^verbatim>\<open>forward\<close> is checked as \<^verbatim>\<open>backward\<close>: \<^verbatim>\<open>full\<close>
  does not add the forward direction, and \<^verbatim>\<open>none\<close> or an unknown mode does not switch the
  check off.\<close>

theorem compare_modes_collapse:
  assumes "mode \<noteq> Forward"
  shows "r_Changes (Compare L \<pi> previous neu mode) = r_Changes (Compare L \<pi> previous neu Backward) \<and>
    r_Compatible (Compare L \<pi> previous neu mode) = r_Compatible (Compare L \<pi> previous neu Backward)"
  using compare_schemas_mode [OF assms, of Backward] by (simp add: Compare_def Let_def)

theorem compare_modes_collapse_witness:
  "Full \<noteq> Forward \<and> r_Compatible (Compare demo_lib demo_orders demo_schema demo_schema Full) =
     r_Compatible (Compare demo_lib demo_orders demo_schema demo_schema Backward)"
  using compare_modes_collapse [of Full demo_lib demo_orders demo_schema demo_schema] by simp

text \<open>The fingerprint does not depend on the order in which the fields are written: two
  schemas of the same kind with the same fields, distinct names, have the same fingerprint.\<close>

theorem fingerprint_permutation:
  assumes "s_Kind s = s_Kind t" and "mset (s_Fields s) = mset (s_Fields t)"
    and "distinct (map f_Name (s_Fields s))"
  shows "Schema_Fingerprint L p s = Schema_Fingerprint L q t"
  using Schema_Canonical_perm [OF assms, of L p q] by (simp only: Schema_Fingerprint_def Let_def)

theorem fingerprint_permutation_witness:
  "Schema_Fingerprint demo_lib id_order demo_schema =
   Schema_Fingerprint demo_lib id_order (demo_schema\<lparr>s_Fields := rev (s_Fields demo_schema)\<rparr>)"
  by (rule fingerprint_permutation) (simp_all add: demo_schema_def demo_field_def)

text \<open>Validation compares names before they are trimmed, so a schema it accepts can have a
  canonical form with one field name twice.\<close>

theorem canonical_duplicate_names:
  "\<exists>s. Schema_Validate s = Inr () \<and> (\<forall>L p. \<not> distinct (map f_Name (s_Fields (Schema_Canonical L p s))))"
proof -
  let ?s = "demo_schema\<lparr>s_Fields := [demo_field ''a'' ''int'' True, demo_field '' a'' ''string'' True]\<rparr>"
  have trim: "TrimSpace ''a'' = TrimSpace '' a''" by code_simp
  have "\<not> distinct (map f_Name (s_Fields (Schema_Canonical L p ?s)))" for L p
  proof -
    have "mset (map f_Name (s_Fields (Schema_Canonical L p ?s))) = {#TrimSpace ''a'', TrimSpace '' a''#}"
      by (simp add: canonical_field_def demo_field_def)
    then have "mset (map f_Name (s_Fields (Schema_Canonical L p ?s))) = mset [TrimSpace ''a'', TrimSpace '' a'']"
      by simp
    then show ?thesis using trim by (metis distinct_length_2_or_more mset_eq_imp_distinct_iff)
  qed
  moreover have "Schema_Validate ?s = Inr ()" by code_simp
  ultimately show ?thesis by blast
qed

text \<open>In every contract built by \<^verbatim>\<open>NewContract\<close>, \<^verbatim>\<open>AddVersion\<close> and
  \<^verbatim>\<open>Publish\<close> the versions are numbered from 1 in order, the revision counts the changes,
  entity tags are distinct, and a version is a draft or published: the states deprecated and
  retired are never reached.\<close>

theorem reachable_contract_wf:
  assumes "contract_reach L c" and "fits c"
  shows "wf_contract c"
  using assms by (rule reach_wf)

theorem reachable_contract_wf_witness: "wf_contract demo_versioned"
  by (rule reachable_contract_wf [OF demo_reach]) (simp add: fits_def demo_versioned_simps)

text \<open>C13: every version in the history of a contract was compatible, in the contract's mode, with
  the version before it.\<close>

theorem version_history_compatible:
  assumes "contract_reach L c"
  shows "compatible_history L c"
  using assms by (rule reach_history)

theorem version_history_compatible_witness: "compatible_history demo_lib demo_versioned"
  by (rule version_history_compatible [OF demo_reach])



text \<open>On a reachable contract \<^verbatim>\<open>Publish\<close> succeeds exactly on a draft whose current entity
  tag the caller presents; it publishes that version alone and gives it a new tag.\<close>

theorem publish_iff:
  assumes "wf_contract c" and "fits c"
  shows "Contract_Publish c n m t = Inr (v, c') \<longleftrightarrow>
    (\<exists>i<length (c_Versions c). n = int i + 1 \<and> v_ETag (c_Versions c ! i) = m \<and>
       v_Lifecycle (c_Versions c ! i) = Draft \<and>
       v = (c_Versions c ! i)\<lparr>v_Lifecycle := Published, v_PublishedAt := Some t,
             v_ETag := etag (c_ID c) (c_Revision c + 1)\<rparr> \<and>
       c' = c\<lparr>c_Versions := (c_Versions c)[i := v], c_Revision := c_Revision c + 1, c_UpdatedAt := t\<rparr>)"
    (is "?L = ?R")
proof
  assume ?L
  then show ?R
    using wrap_revision [OF assms] wf_version_index [OF assms(1)] by (elim Publish_Inr) auto
next
  assume ?R
  then obtain i where i: "i < length (c_Versions c)" "n = int i + 1" "v_ETag (c_Versions c ! i) = m"
    "v_Lifecycle (c_Versions c ! i) = Draft" and v: "v = (c_Versions c ! i)\<lparr>v_Lifecycle := Published,
      v_PublishedAt := Some t, v_ETag := etag (c_ID c) (c_Revision c + 1)\<rparr>"
    "c' = c\<lparr>c_Versions := (c_Versions c)[i := v], c_Revision := c_Revision c + 1, c_UpdatedAt := t\<rparr>"
    by blast
  have "version_index n (c_Versions c) = Some i" using i(1,2) wf_version_index [OF assms(1)] by simp
  moreover have "m \<noteq> ''''" using i assms(1) by (auto simp: wf_contract_def dest!: nth_mem)
  ultimately show ?L using i wrap_revision [OF assms] by (simp add: Contract_Publish_def Let_def v)
qed

theorem publish_iff_witness:
  "\<exists>v c'. Contract_Publish demo_versioned 1 (etag ''c'' 2) 7 = Inr (v, c')"
proof -
  have f: "fits demo_versioned" by (simp add: fits_def demo_versioned_simps)
  show ?thesis
    using publish_iff [OF reach_wf [OF demo_reach f] f] demo_versioned_simps by auto
qed

text \<open>Publishing with an entity tag uses it up: the same request again fails with an etag
  mismatch, and a request with the new tag fails because the version is no longer a draft.\<close>

theorem publish_once:
  assumes "wf_contract c" and "fits c" and "Contract_Publish c n m t = Inr (v, c')"
  shows "Contract_Publish c' n m t' = Inl ErrETagMismatch \<and>
    Contract_Publish c' n (v_ETag v) t' = Inl ErrOnlyDraft"
proof -
  from assms(3) obtain i where i: "version_index n (c_Versions c) = Some i" "i < length (c_Versions c)"
    "m \<noteq> ''''" "v_ETag (c_Versions c ! i) = m"
    and v: "v = (c_Versions c ! i)\<lparr>v_Lifecycle := Published, v_PublishedAt := Some t,
      v_ETag := etag (c_ID c) (c_Revision c + 1)\<rparr>"
    and c': "c_Versions c' = (c_Versions c)[i := v]"
    using wrap_revision [OF assms(1,2)] by (elim Publish_Inr) simp
  have "version_index n (c_Versions c') = Some i"
    unfolding wf_version_index [OF Publish_wf [OF assms]]
    using i(1,2) wf_version_index [OF assms(1)] by (simp add: c')
  moreover have "etag (c_ID c) (c_Revision c + 1) \<noteq> m"
    using fresh_etag [OF assms(1)] i(2,4) by (auto dest!: nth_mem)
  ultimately show ?thesis using i v by (simp add: Contract_Publish_def Let_def c')
qed

theorem publish_once_witness:
  "\<exists>v c'. Contract_Publish demo_versioned 1 (etag ''c'' 2) 7 = Inr (v, c') \<and>
     Contract_Publish c' 1 (etag ''c'' 2) 8 = Inl ErrETagMismatch \<and>
     Contract_Publish c' 1 (v_ETag v) 8 = Inl ErrOnlyDraft"
proof -
  have f: "fits demo_versioned" by (simp add: fits_def demo_versioned_simps)
  obtain v c' where p: "Contract_Publish demo_versioned 1 (etag ''c'' 2) 7 = Inr (v, c')"
    using demo_publish by blast
  from p publish_once [OF reach_wf [OF demo_reach f] f p] show ?thesis by blast
qed

end
