(* ===== verification/Paging.thy ===== *)
theory Paging
  imports GoLib
begin

text \<open>
  Cursor pagination, as \<^verbatim>\<open>MemoryContracts.List\<close> and \<^verbatim>\<open>Service.FindEvents\<close> do it: a
  page starts after the item whose identifier is the cursor, holds at most \<^verbatim>\<open>limit\<close> items and
  names the identifier of its last item as the next cursor while items remain. The locale
  \<open>cursor_pages\<close> states that contract; \<open>walk_pages\<close> follows the cursors and, inside the
  locale, is shown to visit every item once, in order.
\<close>

text \<open>The position after the first item with the given identifier, 0 when there is none.\<close>

fun index_after :: "('a \<Rightarrow> string) \<Rightarrow> 'a list \<Rightarrow> string \<Rightarrow> nat option" where
  "index_after key [] cursor = None"
| "index_after key (x # xs) cursor =
     (if key x = cursor then Some 1 else map_option Suc (index_after key xs cursor))"

text \<open>Following the cursors from a given one: \<open>fuel\<close> bounds the number of requests.\<close>

fun walk_pages :: "(string \<Rightarrow> ('a list \<times> string) result) \<Rightarrow> nat \<Rightarrow> string \<Rightarrow> 'a list option" where
  "walk_pages page 0 cursor = None"
| "walk_pages page (Suc fuel) cursor =
     (case page cursor of
        Inl e \<Rightarrow> None
      | Inr (items, next) \<Rightarrow>
          if next = '''' then Some items else map_option ((@) items) (walk_pages page fuel next))"

lemma index_after_None: "index_after key xs cursor = None \<longleftrightarrow> cursor \<notin> key ` set xs"
  by (induction xs) auto

lemma index_after_nth:
  "distinct (map key xs) \<Longrightarrow> i < length xs \<Longrightarrow> index_after key xs (key (xs ! i)) = Some (Suc i)"
proof (induction xs arbitrary: i)
  case (Cons x xs)
  then show ?case by (cases i) (auto simp: image_iff dest!: nth_mem)
qed simp

lemma index_after_le: "index_after key xs cursor = Some n \<Longrightarrow> 0 < n \<and> n \<le> length xs"
  by (induction xs arbitrary: n) (auto split: if_splits)

text \<open>The lists that can be paged: identifiers present and distinct, a limit that does not overflow.\<close>

definition pageable :: "('a \<Rightarrow> string) \<Rightarrow> 'a list \<Rightarrow> nat \<Rightarrow> bool" where
  "pageable key items limit \<longleftrightarrow> 0 < limit \<and> distinct (map key items) \<and> '''' \<notin> key ` set items \<and>
     int (length items) + int limit \<le> MaxInt64"

locale cursor_pages =
  fixes key :: "'a \<Rightarrow> string" and page :: "'a list \<Rightarrow> nat \<Rightarrow> string \<Rightarrow> ('a list \<times> string) result"
  assumes page_start: "pageable key items limit \<Longrightarrow> page items limit '''' =
          Inr (take limit items, if limit < length items then key (items ! (limit - 1)) else '''')"
    and page_after: "pageable key items limit \<Longrightarrow> i < length items \<Longrightarrow> page items limit (key (items ! i)) =
          Inr (take limit (drop (Suc i) items),
               if Suc i + limit < length items then key (items ! (i + limit)) else '''')"
begin

lemma key_nonempty: "pageable key items limit \<Longrightarrow> i < length items \<Longrightarrow> key (items ! i) \<noteq> ''''"
  unfolding pageable_def by (metis image_eqI nth_mem)

lemma walk_after:
  "pageable key items limit \<Longrightarrow> length items < Suc i + fuel \<Longrightarrow> i < length items \<Longrightarrow>
   walk_pages (page items limit) fuel (key (items ! i)) = Some (drop (Suc i) items)"
proof (induction fuel arbitrary: i)
  case 0
  then show ?case by simp
next
  case (Suc fuel)
  then have pos: "0 < limit" by (simp add: pageable_def)
  show ?case
  proof (cases "Suc i + limit < length items")
    case True
    have "walk_pages (page items limit) fuel (key (items ! (i + limit))) = Some (drop (Suc (i + limit)) items)"
      using Suc.prems True pos by (intro Suc.IH) auto
    moreover have "take limit (drop (Suc i) items) @ drop (Suc (i + limit)) items = drop (Suc i) items"
      by (metis add.commute add_Suc append_take_drop_id drop_drop)
    ultimately show ?thesis using Suc.prems True key_nonempty by (simp add: page_after)
  next
    case False
    then show ?thesis using Suc.prems by (simp add: page_after)
  qed
qed

text \<open>Following the cursors from the start gives the whole list, each item once.\<close>

lemma walk_all:
  "pageable key items limit \<Longrightarrow> length items < fuel \<Longrightarrow>
   walk_pages (page items limit) fuel '''' = Some items"
proof (cases fuel)
  case (Suc f)
  assume ok: "pageable key items limit" and len: "length items < fuel"
  then have pos: "0 < limit" by (simp add: pageable_def)
  show ?thesis
  proof (cases "limit < length items")
    case True
    have "walk_pages (page items limit) f (key (items ! (limit - 1))) = Some (drop (Suc (limit - 1)) items)"
      using len Suc True pos by (intro walk_after [OF ok]) auto
    then show ?thesis using True Suc pos key_nonempty [OF ok] by (simp add: page_start [OF ok])
  next
    case False
    then show ?thesis using Suc by (simp add: page_start [OF ok])
  qed
qed simp

end

end
