(* ===== verification/ContractStore.thy ===== *)
theory ContractStore
  imports ContractModel Paging
begin

text \<open>
  The repository of contracts. \<open>Repository\<close> is the interface of
  \<^verbatim>\<open>contract/application/service.go\<close>, a record of operations over a store of any type;
  \<open>MemoryContracts\<close> with \<open>Create\<close>, \<open>Find\<close>, \<open>Save\<close> and \<open>List\<close> is the in-memory
  implementation of \<^verbatim>\<open>platform/store/memory.go\<close>. Each operation holds the store's mutex, so
  it is one step. The locale \<open>contract_repository\<close> states what the services rely on; it is
  interpreted on the in-memory store.
\<close>

section \<open>The interface\<close>

record 'r Repository =
  repo_Create :: "Contract \<Rightarrow> 'r \<Rightarrow> unit result \<times> 'r"
  repo_Find :: "'r \<Rightarrow> string \<Rightarrow> string \<Rightarrow> Contract result"
  repo_Save :: "Contract \<Rightarrow> 'r \<Rightarrow> unit result \<times> 'r"
  repo_List :: "orders \<Rightarrow> 'r \<Rightarrow> string \<Rightarrow> int \<Rightarrow> string \<Rightarrow> (Contract list \<times> string) result"

section \<open>The in-memory store\<close>

record MemoryContracts =
  mc_values :: "Contract gomap"

definition NewMemoryContracts :: MemoryContracts where
  "NewMemoryContracts = \<lparr>mc_values = []\<rparr>"

definition store_key :: "string \<Rightarrow> string \<Rightarrow> string" where
  "store_key tenant cid = tenant @ ''/'' @ cid"

definition clone_contract :: "Contract \<Rightarrow> Contract" where
  "clone_contract c = c\<lparr>c_Versions :=
     map (\<lambda>v. v\<lparr>v_Schema := (v_Schema v)\<lparr>s_Fields := map (\<lambda>f. f) (s_Fields (v_Schema v))\<rparr>\<rparr>) (c_Versions c)\<rparr>"

definition Create :: "Contract \<Rightarrow> MemoryContracts \<Rightarrow> unit result \<times> MemoryContracts" where
  "Create c m =
     (let k = store_key (c_OrganizationID c) (c_ID c)
      in case map_of (mc_values m) k of
           Some _ \<Rightarrow> (Inl ErrContractExists, m)
         | None \<Rightarrow> (Inr (), m\<lparr>mc_values := put k c (mc_values m)\<rparr>))"

definition Find :: "MemoryContracts \<Rightarrow> string \<Rightarrow> string \<Rightarrow> Contract result" where
  "Find m tenant cid = (case map_of (mc_values m) (store_key tenant cid) of
       None \<Rightarrow> Inl ErrContractNotFound
     | Some c \<Rightarrow> Inr (clone_contract c))"

definition Save :: "Contract \<Rightarrow> MemoryContracts \<Rightarrow> unit result \<times> MemoryContracts" where
  "Save c m =
     (let k = store_key (c_OrganizationID c) (c_ID c)
      in case map_of (mc_values m) k of
           None \<Rightarrow> (Inl ErrContractNotFound, m)
         | Some _ \<Rightarrow> (Inr (), m\<lparr>mc_values := put k (clone_contract c) (mc_values m)\<rparr>))"

definition tenant_contracts :: "orders \<Rightarrow> MemoryContracts \<Rightarrow> string \<Rightarrow> Contract list" where
  "tenant_contracts \<pi> m tenant = sort_slice (\<pi> 1) c_ID
     (map clone_contract (filter (\<lambda>c. c_OrganizationID c = tenant) (map snd (shuffle (\<pi> 0) (mc_values m)))))"

definition list_page :: "Contract list \<Rightarrow> int \<Rightarrow> string \<Rightarrow> (Contract list \<times> string) result" where
  "list_page out limit cursor =
     (let len = int (length out);
          start = (case index_after c_ID out cursor of None \<Rightarrow> 0 | Some i \<Rightarrow> int i);
          end0 = wrap64 (start + limit);
          end1 = (if end0 > len then len else end0);
          next = (if end1 < len \<and> end1 > start then c_ID (out ! nat (end1 - 1)) else '''')
      in if end1 < start then Inl (Panic ''slice bounds out of range'')
         else Inr (take (nat (end1 - start)) (drop (nat start) out), next))"

definition List ::
  "orders \<Rightarrow> MemoryContracts \<Rightarrow> string \<Rightarrow> int \<Rightarrow> string \<Rightarrow> (Contract list \<times> string) result" where
  "List \<pi> m tenant limit cursor = list_page (tenant_contracts \<pi> m tenant) limit cursor"

definition memory_repository :: "MemoryContracts Repository" where
  "memory_repository = \<lparr>repo_Create = Create, repo_Find = Find, repo_Save = Save, repo_List = List\<rparr>"

section \<open>What the services rely on\<close>

text \<open>
  \<open>look\<close> abstracts the store to a partial map over addresses and \<open>addr\<close> gives the address of
  a tenant and an identifier. Every stored contract lies at its own address.
\<close>

locale contract_repository =
  fixes R :: "'r Repository" and inv :: "'r \<Rightarrow> bool"
    and look :: "'r \<Rightarrow> 'k \<Rightarrow> Contract option" and addr :: "string \<Rightarrow> string \<Rightarrow> 'k"
  assumes find: "inv s \<Longrightarrow> repo_Find R s t i =
        (case look s (addr t i) of None \<Rightarrow> Inl ErrContractNotFound | Some c \<Rightarrow> Inr c)"
    and stored: "inv s \<Longrightarrow> look s k = Some c \<Longrightarrow> addr (c_OrganizationID c) (c_ID c) = k"
    and create_new: "inv s \<Longrightarrow> look s (addr (c_OrganizationID c) (c_ID c)) = None \<Longrightarrow>
        fst (repo_Create R c s) = Inr () \<and> inv (snd (repo_Create R c s)) \<and>
        look (snd (repo_Create R c s)) = (look s)(addr (c_OrganizationID c) (c_ID c) \<mapsto> c)"
    and create_old: "inv s \<Longrightarrow> look s (addr (c_OrganizationID c) (c_ID c)) \<noteq> None \<Longrightarrow>
        repo_Create R c s = (Inl ErrContractExists, s)"
    and save_old: "inv s \<Longrightarrow> look s (addr (c_OrganizationID c) (c_ID c)) \<noteq> None \<Longrightarrow>
        fst (repo_Save R c s) = Inr () \<and> inv (snd (repo_Save R c s)) \<and>
        look (snd (repo_Save R c s)) = (look s)(addr (c_OrganizationID c) (c_ID c) \<mapsto> c)"
    and save_new: "inv s \<Longrightarrow> look s (addr (c_OrganizationID c) (c_ID c)) = None \<Longrightarrow>
        repo_Save R c s = (Inl ErrContractNotFound, s)"
begin

lemma find_Inr: "inv s \<Longrightarrow> repo_Find R s t i = Inr c \<longleftrightarrow> look s (addr t i) = Some c"
  by (simp add: find split: option.splits)

lemma found_addr: "inv s \<Longrightarrow> repo_Find R s t i = Inr c \<Longrightarrow> addr (c_OrganizationID c) (c_ID c) = addr t i"
  using find_Inr stored by blast

text \<open>A contract that was found can be saved back, and is then what is found.\<close>

lemma save_found:
  assumes "inv s" and "repo_Find R s t i = Inr c"
    and "c_OrganizationID c' = c_OrganizationID c" and "c_ID c' = c_ID c"
  shows "fst (repo_Save R c' s) = Inr ()" and "inv (snd (repo_Save R c' s))"
    and "repo_Find R (snd (repo_Save R c' s)) t i = Inr c'"
    and "addr t' i' \<noteq> addr t i \<Longrightarrow> repo_Find R (snd (repo_Save R c' s)) t' i' = repo_Find R s t' i'"
proof -
  have a: "addr (c_OrganizationID c') (c_ID c') = addr t i"
    using assms found_addr by metis
  then have "look s (addr (c_OrganizationID c') (c_ID c')) \<noteq> None"
    using assms(1,2) find_Inr by auto
  from save_old [OF assms(1) this] a assms(1)
  show "fst (repo_Save R c' s) = Inr ()" and "inv (snd (repo_Save R c' s))"
    and "repo_Find R (snd (repo_Save R c' s)) t i = Inr c'"
    and "addr t' i' \<noteq> addr t i \<Longrightarrow> repo_Find R (snd (repo_Save R c' s)) t' i' = repo_Find R s t' i'"
    by (simp_all add: find)
qed

end

section \<open>The in-memory store is a repository\<close>

definition wf_store :: "MemoryContracts \<Rightarrow> bool" where
  "wf_store m \<longleftrightarrow> wf_map (mc_values m) \<and>
     (\<forall>(k, c)\<in>set (mc_values m). k = store_key (c_OrganizationID c) (c_ID c))"

lemma clone_contract_id [simp]: "clone_contract c = c"
  by (simp add: clone_contract_def map_idI)

lemma wf_store_alt:
  "wf_store m \<longleftrightarrow> wf_map (mc_values m) \<and>
     (\<forall>k c. map_of (mc_values m) k = Some c \<longrightarrow> k = store_key (c_OrganizationID c) (c_ID c))"
  by (auto simp: wf_store_def wf_map_mem)

lemma wf_store_New [simp]: "wf_store NewMemoryContracts"
  by (simp add: wf_store_def NewMemoryContracts_def)

lemma wf_store_key:
  "wf_store m \<Longrightarrow> map_of (mc_values m) k = Some c \<Longrightarrow> store_key (c_OrganizationID c) (c_ID c) = k"
  by (auto simp: wf_store_def dest!: map_of_SomeD)

lemma wf_store_put:
  "wf_store m \<Longrightarrow> wf_store (m\<lparr>mc_values := put (store_key (c_OrganizationID c) (c_ID c)) c (mc_values m)\<rparr>)"
  by (simp add: wf_store_alt)

interpretation mem: contract_repository memory_repository wf_store "\<lambda>m. map_of (mc_values m)" store_key
proof unfold_locales
  fix s t i
  show "repo_Find memory_repository s t i =
    (case map_of (mc_values s) (store_key t i) of None \<Rightarrow> Inl ErrContractNotFound | Some c \<Rightarrow> Inr c)"
    by (simp add: memory_repository_def Find_def split: option.splits)
next
  fix s k c
  show "wf_store s \<Longrightarrow> map_of (mc_values s) k = Some c \<Longrightarrow> store_key (c_OrganizationID c) (c_ID c) = k"
    by (rule wf_store_key)
qed (auto simp: memory_repository_def Create_def Save_def Let_def fun_eq_iff wf_store_put)

text \<open>Keys are unambiguous when identifiers hold no slash.\<close>

lemma store_key_inject:
  assumes "CHR ''/'' \<notin> set i" and "CHR ''/'' \<notin> set i'"
  shows "store_key t i = store_key t' i' \<longleftrightarrow> t = t' \<and> i = i'"
proof
  assume "store_key t i = store_key t' i'"
  then have "rev i @ CHR ''/'' # rev t = rev i' @ CHR ''/'' # rev t'"
    by (metis append_Cons append_Nil rev.simps(2) rev_append store_key_def append_assoc)
  moreover have "takeWhile (\<lambda>c. c \<noteq> CHR ''/'') (rev j @ CHR ''/'' # u) = rev j"
    if "CHR ''/'' \<notin> set j" for j u
    using that by (subst takeWhile_append2) auto
  moreover have "dropWhile (\<lambda>c. c \<noteq> CHR ''/'') (rev j @ CHR ''/'' # u) = CHR ''/'' # u"
    if "CHR ''/'' \<notin> set j" for j u
    using that by (subst dropWhile_append2) auto
  ultimately show "t = t' \<and> i = i'" using assms by (metis list.inject rev_rev_ident)
qed simp

section \<open>Listing\<close>

lemma list_page_start:
  "pageable c_ID out n \<Longrightarrow> list_page out (int n) '''' =
     Inr (take n out, if n < length out then c_ID (out ! (n - 1)) else '''')"
proof -
  assume ok: "pageable c_ID out n"
  have "index_after c_ID out '''' = None" using ok by (simp add: index_after_None pageable_def)
  moreover have "wrap64 (int n) = int n" using ok by (intro wrap64_id) (auto simp: pageable_def)
  moreover have "nat (int n - 1) = n - 1" by simp
  ultimately show ?thesis using ok by (simp add: list_page_def Let_def pageable_def)
qed

lemma list_page_after:
  "pageable c_ID out n \<Longrightarrow> i < length out \<Longrightarrow> list_page out (int n) (c_ID (out ! i)) =
     Inr (take n (drop (Suc i) out), if Suc i + n < length out then c_ID (out ! (i + n)) else '''')"
proof -
  assume ok: "pageable c_ID out n" and i: "i < length out"
  have "index_after c_ID out (c_ID (out ! i)) = Some (Suc i)"
    using ok i by (simp add: index_after_nth pageable_def)
  moreover have "wrap64 (int (Suc i) + int n) = int (Suc i) + int n"
    using ok i by (intro wrap64_id) (auto simp: pageable_def)
  moreover have "nat (1 + int i) = Suc i" "nat (int i + int n) = i + n" by simp_all
  ultimately show ?thesis using ok i by (simp add: list_page_def Let_def pageable_def)
qed

interpretation contract_pages: cursor_pages c_ID "\<lambda>out n. list_page out (int n)"
  by unfold_locales (rule list_page_start list_page_after, assumption+)+

lemma tenant_ids_distinct:
  assumes "wf_store m"
  shows "distinct (map c_ID (filter (\<lambda>c. c_OrganizationID c = tenant) (map snd (mc_values m))))"
proof -
  let ?vs = "filter (\<lambda>(k, c). c_OrganizationID c = tenant) (mc_values m)"
  have "distinct (map fst ?vs)" using assms by (simp add: wf_store_def wf_map_def distinct_map_filter)
  moreover have "map fst ?vs = map (store_key tenant) (map (c_ID \<circ> snd) ?vs)"
    using assms by (auto simp: wf_store_def)
  moreover have "filter (\<lambda>c. c_OrganizationID c = tenant) (map snd (mc_values m)) = map snd ?vs"
    by (simp add: filter_map comp_def case_prod_unfold)
  ultimately show ?thesis by (metis distinct_map map_map)
qed

lemma tenant_contracts_distinct:
  assumes "wf_store m"
  shows "distinct (map c_ID (tenant_contracts \<pi> m tenant))"
proof -
  have "mset (filter (\<lambda>c. c_OrganizationID c = tenant) (map snd (shuffle (\<pi> 0) (mc_values m)))) =
        mset (filter (\<lambda>c. c_OrganizationID c = tenant) (map snd (mc_values m)))"
    by simp
  from distinct_map_mset [OF this, of c_ID] tenant_ids_distinct [OF assms, of tenant]
  show ?thesis by (simp add: tenant_contracts_def comp_def)
qed

lemma set_tenant_contracts:
  "set (tenant_contracts \<pi> m tenant) = {c \<in> snd ` set (mc_values m). c_OrganizationID c = tenant}"
  by (auto simp: tenant_contracts_def)

text \<open>The order Go chooses does not show in the result.\<close>

lemma tenant_contracts_order: "wf_store m \<Longrightarrow> tenant_contracts \<pi> m tenant = tenant_contracts \<rho> m tenant"
  unfolding tenant_contracts_def
  by (rule sort_slice_mset_cong)
    (use tenant_contracts_distinct [of m \<pi> tenant] in \<open>simp_all add: tenant_contracts_def\<close>)

section \<open>Sample store\<close>

definition demo_store :: MemoryContracts where
  "demo_store = snd (Create demo_versioned NewMemoryContracts)"

lemma demo_versioned_org [simp]: "c_OrganizationID demo_versioned = ''acme''" "c_ID demo_versioned = ''c''"
  using demo_valid demo_versioned_simps(1)
  by (simp_all add: demo_versioned_def Contract_AddVersion_def Let_def demo_contract_def
      flip: Schema_Validate_iff)

lemma demo_store_values: "mc_values demo_store = [(''acme/c'', demo_versioned)]"
  by (simp add: demo_store_def Create_def Let_def NewMemoryContracts_def put_Nil store_key_def)

lemma demo_store_wf: "wf_store demo_store"
  by (simp add: wf_store_def demo_store_values store_key_def wf_map_def)

lemma demo_find: "Find demo_store ''acme'' ''c'' = Inr demo_versioned"
  by (simp add: Find_def demo_store_values store_key_def)

section \<open>Properties\<close>

text \<open>Tenant boundary of the store: where identifiers hold no slash, \<^verbatim>\<open>Find\<close> returns a
  contract only to the tenant that owns it, and under its own identifier.\<close>

theorem find_tenant_boundary:
  assumes "wf_store m" and "Find m tenant cid = Inr c"
    and "CHR ''/'' \<notin> set cid" and "CHR ''/'' \<notin> set (c_ID c)"
  shows "c_OrganizationID c = tenant \<and> c_ID c = cid"
proof -
  from assms(2) have "map_of (mc_values m) (store_key tenant cid) = Some c"
    by (simp add: Find_def split: option.splits)
  from mem.stored [OF assms(1) this] show ?thesis using store_key_inject [OF assms(4,3)] by simp
qed

theorem find_tenant_boundary_witness:
  "Find demo_store ''acme'' ''c'' = Inr demo_versioned \<and> c_OrganizationID demo_versioned = ''acme''"
  using demo_find find_tenant_boundary [OF demo_store_wf demo_find] by simp

text \<open>Without that condition the boundary fails: the key joins tenant and identifier with a
  slash, so tenant \<^verbatim>\<open>a\<close> asking for \<^verbatim>\<open>b/c\<close> reads the contract \<^verbatim>\<open>c\<close> of tenant
  \<^verbatim>\<open>a/b\<close>.\<close>

theorem find_crosses_tenants:
  "\<exists>m c. wf_store m \<and> Find m ''a'' ''b/c'' = Inr c \<and> c_OrganizationID c = ''a/b'' \<and> c_ID c = ''c''"
proof -
  let ?c = "demo_contract\<lparr>c_OrganizationID := ''a/b''\<rparr>"
  let ?m = "\<lparr>mc_values = [(''a/b/c'', ?c)]\<rparr>"
  have "wf_store ?m" by (simp add: wf_store_def wf_map_def store_key_def demo_contract_def)
  moreover have "Find ?m ''a'' ''b/c'' = Inr ?c" by (simp add: Find_def store_key_def)
  moreover have "c_OrganizationID ?c = ''a/b''" "c_ID ?c = ''c''" by (simp_all add: demo_contract_def)
  ultimately show ?thesis by blast
qed

text \<open>Following the cursors of \<^verbatim>\<open>List\<close> from the start visits every contract of the
  tenant exactly once, in the order of identifiers, whatever orders Go chooses for each request;
  one request per contract, and one more, is enough.\<close>

theorem list_walk_complete:
  assumes "wf_store m" and "0 < n" and "'''' \<notin> c_ID ` snd ` set (mc_values m)"
    and "int (length (mc_values m)) + int n \<le> MaxInt64" and "length (mc_values m) < fuel"
  shows "\<exists>cs. walk_pages (\<lambda>cursor. List (\<Pi> cursor) m tenant (int n) cursor) fuel '''' = Some cs \<and>
    set cs = {c \<in> snd ` set (mc_values m). c_OrganizationID c = tenant} \<and>
    distinct (map c_ID cs) \<and> sorted (map c_ID cs)"
proof -
  let ?cs = "tenant_contracts demo_orders m tenant"
  have pages: "(\<lambda>cursor. List (\<Pi> cursor) m tenant (int n) cursor) = list_page ?cs (int n)"
  proof
    fix cursor
    show "List (\<Pi> cursor) m tenant (int n) cursor = list_page ?cs (int n) cursor"
      using tenant_contracts_order [OF assms(1), of "\<Pi> cursor" tenant demo_orders] by (simp add: List_def)
  qed
  have len: "length ?cs \<le> length (mc_values m)"
    using length_filter_le [of "\<lambda>c. c_OrganizationID c = tenant" "map snd (mc_values m)"]
    by (simp add: tenant_contracts_def)
  have "pageable c_ID ?cs n"
    using assms len tenant_contracts_distinct [OF assms(1)] unfolding pageable_def
    by (auto simp: set_tenant_contracts)
  then have "walk_pages (list_page ?cs (int n)) fuel '''' = Some ?cs"
    using assms(5) len by (intro contract_pages.walk_all) simp_all
  moreover have "sorted (map c_ID ?cs)" by (simp add: tenant_contracts_def)
  ultimately show ?thesis
    using tenant_contracts_distinct [OF assms(1)] set_tenant_contracts unfolding pages by blast
qed

theorem list_walk_complete_witness:
  "\<exists>cs. walk_pages (\<lambda>cursor. List demo_orders demo_store ''acme'' (int 1) cursor) 2 '''' = Some cs \<and>
    set cs = {demo_versioned}"
  using list_walk_complete [OF demo_store_wf, of 1 2 "\<lambda>_. demo_orders" "''acme''"]
  by (auto simp: demo_store_values)

text \<open>\<^verbatim>\<open>List\<close> with a negative limit panics, and so does one whose limit overflows when
  added to the cursor's position.\<close>

theorem list_panics:
  "list_page [demo_contract] (- 1) '''' = Inl (Panic ''slice bounds out of range'') \<and>
   list_page [demo_contract] MaxInt64 ''c'' = Inl (Panic ''slice bounds out of range'')"
  by (simp add: list_page_def demo_contract_def wrap64_def)

end
