(* ===== verification/ContractService.thy ===== *)
theory ContractService
  imports ContractStore
begin

text \<open>
  The registry service, \<^verbatim>\<open>contract/application/service.go\<close>, over any \<open>Repository\<close>: each
  operation takes the repository's operations, its state and the world that supplies clock
  readings and identifiers, and returns its result with the new states. The lemmas of the locale
  \<open>contract_repository\<close> are used once for every repository and transferred to the in-memory
  store by its interpretation.
\<close>

record RegisterCommand =
  rc_Name :: string
  rc_Description :: string
  rc_Compatibility :: string

definition Register ::
  "'r Repository \<Rightarrow> string \<Rightarrow> RegisterCommand \<Rightarrow> 'r \<Rightarrow> world \<Rightarrow> Contract result \<times> 'r \<times> world" where
  "Register R tenant cmd s w =
     (let (cid, w1) = new_id w;
          (t, w2) = now w1
      in case NewContract cid tenant (rc_Name cmd) (rc_Description cmd) (rc_Compatibility cmd) t of
           Inl e \<Rightarrow> (Inl e, s, w2)
         | Inr c \<Rightarrow>
             (case repo_Create R c s of
                (Inl e, s') \<Rightarrow> (Inl e, s', w2)
              | (Inr _, s') \<Rightarrow> (Inr c, s', w2)))"

definition AddVersion ::
  "golib \<Rightarrow> orders \<Rightarrow> 'r Repository \<Rightarrow> string \<Rightarrow> string \<Rightarrow> Schema \<Rightarrow> 'r \<Rightarrow> world
     \<Rightarrow> Version result \<times> 'r \<times> world" where
  "AddVersion L \<pi> R tenant cid schema s w =
     (case repo_Find R s tenant cid of
        Inl e \<Rightarrow> (Inl e, s, w)
      | Inr c \<Rightarrow>
          let (t, w1) = now w
          in case Contract_AddVersion L \<pi> c schema t of
               Inl e \<Rightarrow> (Inl e, s, w1)
             | Inr (v, c') \<Rightarrow>
                 (case repo_Save R c' s of
                    (Inl e, s') \<Rightarrow> (Inl e, s', w1)
                  | (Inr _, s') \<Rightarrow> (Inr v, s', w1)))"

definition Publish_version ::
  "'r Repository \<Rightarrow> string \<Rightarrow> string \<Rightarrow> int \<Rightarrow> string \<Rightarrow> 'r \<Rightarrow> world \<Rightarrow> Version result \<times> 'r \<times> world" where
  "Publish_version R tenant cid n tag s w =
     (case repo_Find R s tenant cid of
        Inl e \<Rightarrow> (Inl e, s, w)
      | Inr c \<Rightarrow>
          let (t, w1) = now w
          in case Contract_Publish c n tag t of
               Inl e \<Rightarrow> (Inl e, s, w1)
             | Inr (v, c') \<Rightarrow>
                 (case repo_Save R c' s of
                    (Inl e, s') \<Rightarrow> (Inl e, s', w1)
                  | (Inr _, s') \<Rightarrow> (Inr v, s', w1)))"

definition Get :: "'r Repository \<Rightarrow> string \<Rightarrow> string \<Rightarrow> 'r \<Rightarrow> Contract result" where
  "Get R tenant cid s = repo_Find R s tenant cid"

definition Check :: "golib \<Rightarrow> orders \<Rightarrow> 'r Repository \<Rightarrow> string \<Rightarrow> string \<Rightarrow> Schema \<Rightarrow> 'r \<Rightarrow> Report result" where
  "Check L \<pi> R tenant cid candidate s =
     (case repo_Find R s tenant cid of
        Inl e \<Rightarrow> Inl e
      | Inr c \<Rightarrow>
          if length (c_Versions c) = 0 then Inl ErrNoVersions
          else case Schema_Validate candidate of
            Inl e \<Rightarrow> Inl e
          | Inr _ \<Rightarrow> Inr (Compare L \<pi> (v_Schema (last (c_Versions c))) candidate (c_Compatibility c)))"

section \<open>Over any repository\<close>

text \<open>Both changes of a contract have one shape: find, change, save.\<close>

definition modify ::
  "'r Repository \<Rightarrow> string \<Rightarrow> string \<Rightarrow> (Contract \<Rightarrow> time \<Rightarrow> (Version \<times> Contract) result) \<Rightarrow> 'r \<Rightarrow> world
     \<Rightarrow> Version result \<times> 'r \<times> world" where
  "modify R tenant cid change s w =
     (case repo_Find R s tenant cid of
        Inl e \<Rightarrow> (Inl e, s, w)
      | Inr c \<Rightarrow>
          let (t, w1) = now w
          in case change c t of
               Inl e \<Rightarrow> (Inl e, s, w1)
             | Inr (v, c') \<Rightarrow>
                 (case repo_Save R c' s of
                    (Inl e, s') \<Rightarrow> (Inl e, s', w1)
                  | (Inr _, s') \<Rightarrow> (Inr v, s', w1)))"

lemma AddVersion_modify:
  "AddVersion L \<pi> R tenant cid schema = modify R tenant cid (\<lambda>c t. Contract_AddVersion L \<pi> c schema t)"
  by (simp add: AddVersion_def modify_def fun_eq_iff)

lemma Publish_modify:
  "Publish_version R tenant cid n tag = modify R tenant cid (\<lambda>c t. Contract_Publish c n tag t)"
  by (simp add: Publish_version_def modify_def fun_eq_iff)

definition contract_change :: "golib \<Rightarrow> (Contract \<Rightarrow> time \<Rightarrow> (Version \<times> Contract) result) \<Rightarrow> bool" where
  "contract_change L change \<longleftrightarrow> (\<forall>c t v c'. change c t = Inr (v, c') \<longrightarrow> contract_step L c c')"

lemma AddVersion_change: "contract_change L (\<lambda>c t. Contract_AddVersion L \<pi> c schema t)"
  by (auto simp: contract_change_def intro: contract_step.add)

lemma Publish_change: "contract_change L (\<lambda>c t. Contract_Publish c n tag t)"
  by (auto simp: contract_change_def intro: contract_step.publish)

context contract_repository
begin

text \<open>A change is either refused, and nothing is written, or stored in full at its address.\<close>

lemma modify_cases:
  assumes "inv s" and ch: "contract_change L change" and "modify R tenant cid change s w = (res, s', w')"
  shows "(\<exists>e. res = Inl e \<and> s' = s) \<or>
    (\<exists>c v c'. repo_Find R s tenant cid = Inr c \<and> change c (clock w (ticks w)) = Inr (v, c') \<and> res = Inr v \<and>
       contract_step L c c' \<and> inv s' \<and> look s' = (look s)(addr tenant cid \<mapsto> c'))"
proof (cases "repo_Find R s tenant cid")
  case (Inl e)
  then show ?thesis using assms(3) by (auto simp: modify_def)
next
  case found: (Inr c)
  show ?thesis
  proof (cases "change c (clock w (ticks w))")
    case (Inl e)
    then show ?thesis using assms(3) found by (auto simp: modify_def now_def)
  next
    case (Inr p)
    then obtain v c' where p: "change c (clock w (ticks w)) = Inr (v, c')" by (cases p) auto
    with ch have step: "contract_step L c c'" by (simp add: contract_change_def)
    then have a: "addr (c_OrganizationID c') (c_ID c') = addr tenant cid"
      using found_addr [OF assms(1) found] step_frame by metis
    have "look s (addr (c_OrganizationID c') (c_ID c')) \<noteq> None"
      using a found find_Inr assms(1) by auto
    from save_old [OF assms(1) this] show ?thesis
      using assms(3) found p step a by (cases "repo_Save R c' s") (auto simp: modify_def now_def)
  qed
qed

lemma modify_frame:
  assumes "inv s" and "contract_change L change" and "modify R tenant cid change s w = (res, s', w')"
    and "addr t i \<noteq> addr tenant cid"
  shows "repo_Find R s' t i = repo_Find R s t i"
  using modify_cases [OF assms(1-3)] assms(1,4) by (auto simp: find)

text \<open>Registration stores the contract under its address, or refuses and writes nothing.\<close>

lemma Register_cases:
  assumes "inv s" and "Register R tenant cmd s w = (res, s', w')"
  shows "(\<exists>e. res = Inl e \<and> s' = s) \<or>
    (\<exists>c. res = Inr c \<and> NewContract (id_source w (drawn w)) tenant (rc_Name cmd) (rc_Description cmd)
       (rc_Compatibility cmd) (clock w (ticks w)) = Inr c \<and> look s (addr tenant (c_ID c)) = None \<and>
       inv s' \<and> look s' = (look s)(addr tenant (c_ID c) \<mapsto> c))"
proof (cases "NewContract (id_source w (drawn w)) tenant (rc_Name cmd) (rc_Description cmd)
       (rc_Compatibility cmd) (clock w (ticks w))")
  case (Inl e)
  then have "Register R tenant cmd s w = (Inl e, s, snd (now (snd (new_id w))))"
    by (simp add: Register_def now_def new_id_def)
  then show ?thesis using assms(2) by auto
next
  case (Inr c)
  then have org: "c_OrganizationID c = tenant" by (auto simp: NewContract_def split: if_splits)
  show ?thesis
  proof (cases "look s (addr tenant (c_ID c)) = None")
    case True
    note made = create_new [OF assms(1) True [folded org], unfolded org]
    then have "Register R tenant cmd s w = (Inr c, snd (repo_Create R c s), snd (now (snd (new_id w))))"
      using Inr by (cases "repo_Create R c s") (simp add: Register_def now_def new_id_def)
    with assms(2) have "res = Inr c" "s' = snd (repo_Create R c s)" by simp_all
    with made True Inr show ?thesis by blast
  next
    case False
    with create_old [OF assms(1), of c] org
    have "Register R tenant cmd s w = (Inl ErrContractExists, s, snd (now (snd (new_id w))))"
      using Inr by (simp add: Register_def now_def new_id_def)
    then show ?thesis using assms(2) by auto
  qed
qed

text \<open>Everything in the repository was built by the contract operations.\<close>

lemma modify_reach:
  assumes "inv s" and "contract_change L change" and "modify R tenant cid change s w = (res, s', w')"
    and "\<forall>k c. look s k = Some c \<longrightarrow> contract_reach L c"
  shows "inv s' \<and> (\<forall>k c. look s' k = Some c \<longrightarrow> contract_reach L c)"
  using modify_cases [OF assms(1-3)] assms(1,4) find_Inr
  by (auto split: if_splits) (blast intro: contract_reach.step)

lemma Register_reach:
  assumes "inv s" and "Register R tenant cmd s w = (res, s', w')"
    and "\<forall>k c. look s k = Some c \<longrightarrow> contract_reach L c"
  shows "inv s' \<and> (\<forall>k c. look s' k = Some c \<longrightarrow> contract_reach L c)"
  using Register_cases [OF assms(1,2)] assms(1,3) by (auto split: if_splits intro: contract_reach.new)

end

section \<open>The registry over the in-memory store\<close>

inductive registry_reach :: "golib \<Rightarrow> MemoryContracts \<Rightarrow> bool" for L where
  start: "registry_reach L NewMemoryContracts"
| register: "registry_reach L s \<Longrightarrow> Register memory_repository tenant cmd s w = (res, s', w') \<Longrightarrow> registry_reach L s'"
| add: "registry_reach L s \<Longrightarrow> AddVersion L \<pi> memory_repository tenant cid schema s w = (res, s', w') \<Longrightarrow>
     registry_reach L s'"
| publish: "registry_reach L s \<Longrightarrow> Publish_version memory_repository tenant cid n tag s w = (res, s', w') \<Longrightarrow>
     registry_reach L s'"

lemma registry_reach_inv:
  "registry_reach L s \<Longrightarrow> wf_store s \<and> (\<forall>k c. map_of (mc_values s) k = Some c \<longrightarrow> contract_reach L c)"
proof (induction rule: registry_reach.induct)
  case start
  then show ?case by (simp add: NewMemoryContracts_def wf_store_def)
next
  case (register s tenant cmd w res s' w')
  then show ?case using mem.Register_reach by blast
next
  case (add s \<pi> tenant cid schema w res s' w')
  then show ?case using mem.modify_reach [OF _ AddVersion_change] unfolding AddVersion_modify by blast
next
  case (publish s tenant cid n tag w res s' w')
  then show ?case using mem.modify_reach [OF _ Publish_change] unfolding Publish_modify by blast
qed

lemma memory_Find [simp]: "repo_Find memory_repository = Find"
  by (simp add: memory_repository_def)

section \<open>Sample registry\<close>

definition demo_registered :: Contract where
  "demo_registered = demo_contract\<lparr>c_ID := ''id0'', c_CreatedAt := 1000000000000, c_UpdatedAt := 1000000000000\<rparr>"

definition demo_registry :: MemoryContracts where
  "demo_registry = \<lparr>mc_values = [(''acme/id0'', demo_registered)]\<rparr>"

abbreviation demo_command :: RegisterCommand where
  "demo_command \<equiv> \<lparr>rc_Name = ''orders'', rc_Description = '''', rc_Compatibility = ''''\<rparr>"

lemma demo_strings: "TrimSpace ''orders'' = ''orders''" "nat_str 0 = ''0''"
  by code_simp+

lemma demo_register:
  "Register memory_repository ''acme'' demo_command NewMemoryContracts demo_world =
     (Inr demo_registered, demo_registry, demo_world\<lparr>drawn := 1, ticks := 1\<rparr>)"
  by (simp add: Register_def memory_repository_def Create_def NewMemoryContracts_def new_id_def now_def
      NewContract_def demo_world_def demo_strings demo_registered_def demo_contract_def demo_registry_def
      put_Nil store_key_def)

lemma demo_registry_reach: "registry_reach demo_lib demo_registry"
  by (rule registry_reach.register [OF registry_reach.start demo_register])

lemma demo_registry_find: "Find demo_registry ''acme'' ''id0'' = Inr demo_registered"
  by (simp add: Find_def demo_registry_def store_key_def)

section \<open>Properties\<close>

text \<open>In every state of the registry that the service operations can produce, each stored
  contract lies under the key of its tenant and identifier, its versions are numbered in order
  with distinct entity tags, and each passed the compatibility check against its predecessor.\<close>

theorem registry_invariant:
  assumes "registry_reach L s" and "Find s tenant cid = Inr c" and "fits c"
  shows "store_key (c_OrganizationID c) (c_ID c) = store_key tenant cid \<and> wf_contract c \<and> compatible_history L c"
proof -
  note inv = registry_reach_inv [OF assms(1)]
  have look: "map_of (mc_values s) (store_key tenant cid) = Some c"
    using mem.find_Inr [of s tenant cid c] inv assms(2) by simp
  with inv have "contract_reach L c" by blast
  then show ?thesis using reach_wf reach_history assms(3) mem.stored [of s] inv look by blast
qed

theorem registry_invariant_witness:
  "Find demo_registry ''acme'' ''id0'' = Inr demo_registered \<and> wf_contract demo_registered"
proof -
  have "fits demo_registered" by (simp add: fits_def demo_registered_def demo_contract_def)
  from registry_invariant [OF demo_registry_reach demo_registry_find this] demo_registry_find
  show ?thesis by blast
qed

text \<open>A contract that was registered is found by its tenant under the identifier returned, and
  registration touches no other address.\<close>

theorem register_then_get:
  assumes "wf_store s" and "Register memory_repository tenant cmd s w = (Inr c, s', w')"
  shows "Get memory_repository tenant (c_ID c) s' = Inr c \<and> c_OrganizationID c = tenant \<and>
    (store_key t i \<noteq> store_key tenant (c_ID c) \<longrightarrow> Find s' t i = Find s t i)"
proof -
  from mem.Register_cases [OF assms] obtain
    look: "map_of (mc_values s') = (map_of (mc_values s))(store_key tenant (c_ID c) \<mapsto> c)"
    and new: "NewContract (id_source w (drawn w)) tenant (rc_Name cmd) (rc_Description cmd)
       (rc_Compatibility cmd) (clock w (ticks w)) = Inr c" by auto
  then show ?thesis
    by (auto simp: Get_def Find_def NewContract_def split: if_splits option.splits)
qed

theorem register_then_get_witness:
  "Register memory_repository ''acme'' demo_command NewMemoryContracts demo_world =
     (Inr demo_registered, demo_registry, demo_world\<lparr>drawn := 1, ticks := 1\<rparr>) \<and>
   Get memory_repository ''acme'' (c_ID demo_registered) demo_registry = Inr demo_registered"
  using demo_register register_then_get [OF wf_store_New demo_register] by blast

text \<open>C24: the compatibility endpoint predicts \<^verbatim>\<open>AddVersion\<close>: on a contract with versions the
  service accepts a schema exactly when \<^verbatim>\<open>Check\<close> reports it compatible, then stores it as the
  last version, and otherwise leaves the store as it was.\<close>

theorem check_predicts_add_version:
  assumes "wf_store s" and "Find s tenant cid = Inr c" and "c_Versions c \<noteq> []"
    and "AddVersion L \<pi> memory_repository tenant cid schema s w = (res, s', w')"
  shows "((\<exists>r. Check L \<pi> memory_repository tenant cid schema s = Inr r \<and> r_Compatible r) \<longleftrightarrow> (\<exists>v. res = Inr v)) \<and>
    (\<forall>v. res = Inr v \<longrightarrow> (\<exists>c'. Find s' tenant cid = Inr c' \<and> c_Versions c' = c_Versions c @ [v])) \<and>
    (\<forall>e. res = Inl e \<longrightarrow> s' = s)"
proof -
  note cases = mem.modify_cases [OF assms(1) AddVersion_change assms(4) [unfolded AddVersion_modify]]
  have ok: "(\<exists>v. res = Inr v) \<longleftrightarrow> (\<exists>p. Contract_AddVersion L \<pi> c schema (clock w (ticks w)) = Inr p)"
  proof
    assume "\<exists>p. Contract_AddVersion L \<pi> c schema (clock w (ticks w)) = Inr p"
    then obtain v c' where add: "Contract_AddVersion L \<pi> c schema (clock w (ticks w)) = Inr (v, c')" by force
    have "contract_step L c c'" using add by (rule contract_step.add)
    then have "fst (repo_Save memory_repository c' s) = Inr ()"
      using mem.save_found(1) [OF assms(1)] assms(2) step_frame by (metis memory_Find)
    then show "\<exists>v. res = Inr v" using assms(2,4) add
      by (cases "repo_Save memory_repository c' s") (auto simp: AddVersion_def now_def)
  qed (use cases assms(2) in auto)
  have "(\<exists>r. Check L \<pi> memory_repository tenant cid schema s = Inr r \<and> r_Compatible r) \<longleftrightarrow> (\<exists>v. res = Inr v)"
    unfolding ok using assms(2,3)
    by (auto simp: Check_def Contract_AddVersion_def Let_def split: sum.splits)
  moreover have "\<exists>c'. Find s' tenant cid = Inr c' \<and> c_Versions c' = c_Versions c @ [v]" if "res = Inr v" for v
    using cases assms(2) that by (auto simp: Find_def dest: AddVersion_Inr(4))
  moreover have "s' = s" if "res = Inl e" for e using cases that by auto
  ultimately show ?thesis by blast
qed

theorem check_predicts_add_version_witness:
  "Find demo_store ''acme'' ''c'' = Inr demo_versioned \<and>
   (\<exists>r. Check demo_lib demo_orders memory_repository ''acme'' ''c'' demo_schema demo_store = Inr r \<and> r_Compatible r) =
   (\<exists>v. fst (AddVersion demo_lib demo_orders memory_repository ''acme'' ''c'' demo_schema demo_store demo_world) = Inr v)"
proof -
  have "c_Versions demo_versioned \<noteq> []" using demo_versioned_simps(3) by auto
  from check_predicts_add_version [OF demo_store_wf demo_find this surjective_pairing [THEN trans]]
  show ?thesis using demo_find by (metis prod.collapse)
qed

end
