(* ===== verification/QualityRules.thy ===== *)
theory QualityRules
  imports GoLib
begin

text \<open>
  The rule language, \<^verbatim>\<open>quality/domain/model.go\<close>, and the evaluation of a rule list,
  \<^verbatim>\<open>Evaluate\<close> of \<^verbatim>\<open>quality/domain/catalog.go\<close>. An operator is a string a client
  sends; a pattern that does not compile makes \<^verbatim>\<open>regexp.MustCompile\<close> panic, which is an
  error value here. Execution reads the clock at its start and end, so it threads the world.
\<close>

section \<open>Rules\<close>

abbreviation OpRequired :: string where "OpRequired \<equiv> ''required''"
abbreviation OpRegex :: string where "OpRegex \<equiv> ''regex''"
abbreviation OpMin :: string where "OpMin \<equiv> ''min''"
abbreviation OpMax :: string where "OpMax \<equiv> ''max''"
abbreviation OpEquals :: string where "OpEquals \<equiv> ''equals''"

record Rule =
  q_ID :: string
  q_Field :: string
  q_Operator :: string
  q_Value :: string
  q_Enabled :: bool
  q_Timeout :: duration

record Result =
  res_RuleID :: string
  res_Passed :: bool
  res_Reason :: string
  res_Duration :: duration

definition Rule_Validate :: "golib \<Rightarrow> Rule \<Rightarrow> unit result" where
  "Rule_Validate L r =
     (if q_ID r = '''' \<or> q_Field r = '''' then Inl ErrRuleIDField
      else if q_Operator r \<notin> {OpRequired, OpRegex, OpMin, OpMax, OpEquals} then Inl ErrRuleOperator
      else if q_Operator r = OpRegex \<and> \<not> regexp_ok L (q_Value r) then Inl (ErrInvalidRegex (q_Value r))
      else Inr ())"

definition verdict :: "bool \<Rightarrow> string \<Rightarrow> (bool \<times> string) result" where
  "verdict passed reason = Inr (passed, if passed then '''' else reason)"

text \<open>The switch of \<^verbatim>\<open>Execute\<close>: whether the rule passes, and the reason if it does not.
  A missing field reads as \<^verbatim>\<open>nil\<close>.\<close>

definition rule_outcome :: "golib \<Rightarrow> Rule \<Rightarrow> fields \<Rightarrow> (bool \<times> string) result" where
  "rule_outcome L r payload =
     (let exists = map_of payload (q_Field r) \<noteq> None;
          v = (case map_of payload (q_Field r) of None \<Rightarrow> VNil | Some x \<Rightarrow> x)
      in if q_Operator r = OpRequired
         then verdict (exists \<and> v \<noteq> VNil \<and> TrimSpace (Sprint L v) \<noteq> '''') ''value is required''
         else if q_Operator r = OpEquals
         then verdict (exists \<and> Sprint L v = q_Value r) ''value does not equal expected value''
         else if q_Operator r = OpRegex
         then if exists \<and> \<not> regexp_ok L (q_Value r) then Inl (Panic ''regexp: Compile'')
              else verdict (exists \<and> regexp_match L (q_Value r) (Sprint L v)) ''value does not match regex''
         else if q_Operator r = OpMin
         then verdict (case (Sscan_float L (Sprint L v), Sscan_float L (q_Value r)) of
                (Some n, Some m) \<Rightarrow> f64_le m n | _ \<Rightarrow> False) ''value is below minimum''
         else if q_Operator r = OpMax
         then verdict (case (Sscan_float L (Sprint L v), Sscan_float L (q_Value r)) of
                (Some n, Some m) \<Rightarrow> f64_le n m | _ \<Rightarrow> False) ''value exceeds maximum''
         else Inr (True, ''''))"

definition Rule_Execute :: "golib \<Rightarrow> Rule \<Rightarrow> fields \<Rightarrow> world \<Rightarrow> Result result \<times> world" where
  "Rule_Execute L r payload w =
     (let (start, w1) = now w
      in case rule_outcome L r payload of
           Inl e \<Rightarrow> (Inl e, w1)
         | Inr (passed, reason) \<Rightarrow>
             let (finish, w2) = now w1
             in (Inr \<lparr>res_RuleID = q_ID r, res_Passed = passed, res_Reason = reason,
                      res_Duration = Sub finish start\<rparr>, w2))"

section \<open>Evaluation of a rule list\<close>

record RuleEvaluation =
  e_RuleID :: string
  e_Field :: string
  e_Operator :: string
  e_Passed :: bool
  e_Reason :: string
  e_Duration :: duration

record EvaluationSummary =
  es_Passed :: bool
  es_Total :: int
  es_PassedCount :: int
  es_FailedCount :: int
  es_Evaluations :: "RuleEvaluation list"
  es_Elapsed :: duration
  es_FailureCodes :: "string list"

fun evaluate_loop ::
  "golib \<Rightarrow> fields \<Rightarrow> Rule list \<Rightarrow> EvaluationSummary \<Rightarrow> world \<Rightarrow> EvaluationSummary result \<times> world" where
  "evaluate_loop L payload [] out w = (Inr out, w)"
| "evaluate_loop L payload (rule # rules) out w =
     (if \<not> q_Enabled rule then evaluate_loop L payload rules out w
      else case Rule_Execute L rule payload w of
        (Inl e, w') \<Rightarrow> (Inl e, w')
      | (Inr result, w') \<Rightarrow>
          let e = \<lparr>e_RuleID = res_RuleID result, e_Field = q_Field rule, e_Operator = q_Operator rule,
                   e_Passed = res_Passed result, e_Reason = res_Reason result, e_Duration = res_Duration result\<rparr>;
              out1 = out\<lparr>es_Evaluations := es_Evaluations out @ [e]\<rparr>;
              out2 = (if res_Passed result then out1\<lparr>es_PassedCount := es_PassedCount out1 + 1\<rparr>
                      else out1\<lparr>es_FailedCount := es_FailedCount out1 + 1,
                                es_FailureCodes := es_FailureCodes out1 @ [q_ID rule]\<rparr>)
          in evaluate_loop L payload rules out2 w')"

definition Evaluate :: "golib \<Rightarrow> Rule list \<Rightarrow> fields \<Rightarrow> world \<Rightarrow> EvaluationSummary result \<times> world" where
  "Evaluate L rules payload w =
     (let (start, w1) = now w;
          ordered = sort_key q_ID rules;
          out = \<lparr>es_Passed = False, es_Total = int (length ordered), es_PassedCount = 0, es_FailedCount = 0,
                 es_Evaluations = [], es_Elapsed = 0, es_FailureCodes = []\<rparr>
      in case evaluate_loop L payload ordered out w1 of
           (Inl e, w2) \<Rightarrow> (Inl e, w2)
         | (Inr out', w2) \<Rightarrow>
             let (finish, w3) = now w2
             in (Inr (out'\<lparr>es_Passed := es_FailedCount out' = 0, es_Elapsed := Sub finish start\<rparr>), w3))"

section \<open>Validated rules do not panic\<close>

definition rule_passes :: "golib \<Rightarrow> fields \<Rightarrow> Rule \<Rightarrow> bool" where
  "rule_passes L payload r = (case rule_outcome L r payload of Inr (p, _) \<Rightarrow> p | Inl _ \<Rightarrow> False)"

definition rule_reason :: "golib \<Rightarrow> fields \<Rightarrow> Rule \<Rightarrow> string" where
  "rule_reason L payload r = (case rule_outcome L r payload of Inr (_, m) \<Rightarrow> m | Inl _ \<Rightarrow> '''')"

definition rules_valid :: "golib \<Rightarrow> Rule list \<Rightarrow> bool" where
  "rules_valid L rules = list_all (\<lambda>r. Rule_Validate L r = Inr ()) rules"

lemma rules_valid_simps [simp]:
  "rules_valid L []"
  "rules_valid L (r # rs) \<longleftrightarrow> Rule_Validate L r = Inr () \<and> rules_valid L rs"
  by (simp_all add: rules_valid_def)

lemma rules_valid_sort [simp]: "rules_valid L (sort_key k rs) = rules_valid L rs"
  by (simp add: rules_valid_def list_all_iff)

lemma Rule_Validate_regex:
  "Rule_Validate L r = Inr () \<Longrightarrow> q_Operator r = OpRegex \<Longrightarrow> regexp_ok L (q_Value r)"
  by (auto simp: Rule_Validate_def split: if_splits)

lemma verdict_Inr: "verdict p0 s = Inr (p, m) \<Longrightarrow> s \<noteq> '''' \<Longrightarrow> (m = '''') = p"
  by (auto simp: verdict_def split: if_splits)

lemma rule_outcome_reason: "rule_outcome L r payload = Inr (p, m) \<Longrightarrow> (m = '''') = p"
  unfolding rule_outcome_def Let_def by (auto split: if_split_asm dest!: verdict_Inr)

lemma rule_outcome_total:
  "Rule_Validate L r = Inr () \<Longrightarrow> \<exists>p m. rule_outcome L r payload = Inr (p, m)"
  using Rule_Validate_regex [of L r] unfolding rule_outcome_def Let_def verdict_def by auto

lemma rule_outcome_valid:
  "Rule_Validate L r = Inr () \<Longrightarrow> rule_outcome L r payload = Inr (rule_passes L payload r, rule_reason L payload r)"
  using rule_outcome_total [of L r payload] by (auto simp: rule_passes_def rule_reason_def)

lemma Rule_Execute_valid:
  assumes "Rule_Validate L r = Inr ()"
  shows "Rule_Execute L r payload w =
    (Inr \<lparr>res_RuleID = q_ID r, res_Passed = rule_passes L payload r, res_Reason = rule_reason L payload r,
          res_Duration = Sub (clock w (Suc (ticks w))) (clock w (ticks w))\<rparr>,
     w\<lparr>ticks := ticks w + 2\<rparr>)"
  by (simp add: Rule_Execute_def now_def rule_outcome_valid [OF assms])

lemma rule_reason_passes:
  "Rule_Validate L r = Inr () \<Longrightarrow> rule_reason L payload r = '''' \<longleftrightarrow> rule_passes L payload r"
  by (rule rule_outcome_reason [OF rule_outcome_valid])

text \<open>What the loop adds to the summary it starts from.\<close>

lemma evaluate_loop_valid:
  assumes "rules_valid L rules"
  shows "\<exists>out' w'. evaluate_loop L payload rules out w = (Inr out', w') \<and>
    es_Total out' = es_Total out \<and>
    es_PassedCount out' = es_PassedCount out +
      int (length (filter (\<lambda>r. q_Enabled r \<and> rule_passes L payload r) rules)) \<and>
    es_FailedCount out' = es_FailedCount out +
      int (length (filter (\<lambda>r. q_Enabled r \<and> \<not> rule_passes L payload r) rules)) \<and>
    es_FailureCodes out' = es_FailureCodes out @
      map q_ID (filter (\<lambda>r. q_Enabled r \<and> \<not> rule_passes L payload r) rules) \<and>
    map e_RuleID (es_Evaluations out') = map e_RuleID (es_Evaluations out) @ map q_ID (filter q_Enabled rules) \<and>
    map e_Passed (es_Evaluations out') = map e_Passed (es_Evaluations out) @
      map (rule_passes L payload) (filter q_Enabled rules)"
  using assms
proof (induction rules arbitrary: out w)
  case (Cons r rules)
  show ?case
  proof (cases "q_Enabled r")
    case True
    define e where "e = \<lparr>e_RuleID = q_ID r, e_Field = q_Field r, e_Operator = q_Operator r,
      e_Passed = rule_passes L payload r, e_Reason = rule_reason L payload r,
      e_Duration = Sub (clock w (Suc (ticks w))) (clock w (ticks w))\<rparr>"
    define out2 where "out2 = (if rule_passes L payload r
      then out\<lparr>es_Evaluations := es_Evaluations out @ [e], es_PassedCount := es_PassedCount out + 1\<rparr>
      else out\<lparr>es_Evaluations := es_Evaluations out @ [e], es_FailedCount := es_FailedCount out + 1,
               es_FailureCodes := es_FailureCodes out @ [q_ID r]\<rparr>)"
    have "evaluate_loop L payload (r # rules) out w = evaluate_loop L payload rules out2 (w\<lparr>ticks := ticks w + 2\<rparr>)"
      using Cons.prems True by (simp add: Rule_Execute_valid out2_def e_def)
    moreover from Cons.prems have "rules_valid L rules" by simp
    ultimately show ?thesis
      using Cons.IH [of out2 "w\<lparr>ticks := ticks w + 2\<rparr>"] True by (auto simp: out2_def e_def)
  next
    case False
    with Cons show ?thesis by simp
  qed
qed simp

section \<open>Properties\<close>

text \<open>A rule that \<^verbatim>\<open>Validate\<close> accepts never panics when it is executed, and it gives a
  reason exactly when it fails.\<close>

theorem validated_rule_executes:
  assumes "Rule_Validate L r = Inr ()"
  shows "\<exists>res w'. Rule_Execute L r payload w = (Inr res, w') \<and> res_RuleID res = q_ID r \<and>
    (res_Reason res = '''') = res_Passed res"
  using Rule_Execute_valid [OF assms, of payload w] rule_reason_passes [OF assms, of payload] by simp

definition demo_rule :: Rule where
  "demo_rule = \<lparr>q_ID = ''r1'', q_Field = ''id'', q_Operator = OpRequired, q_Value = '''', q_Enabled = True,
     q_Timeout = 0\<rparr>"

lemma demo_rule_valid: "Rule_Validate demo_lib demo_rule = Inr ()"
  by (simp add: Rule_Validate_def demo_rule_def)

theorem validated_rule_executes_witness:
  "\<exists>res w'. Rule_Execute demo_lib demo_rule [(''id'', VString ''x'')] demo_world = (Inr res, w') \<and>
     res_RuleID res = ''r1''"
  using validated_rule_executes [OF demo_rule_valid, of "[(''id'', VString ''x'')]" demo_world]
  by (auto simp: demo_rule_def)

text \<open>\<^verbatim>\<open>Evaluate\<close> on validated rules returns a summary in which exactly the enabled rules
  appear, in the order of their identifiers; the counts, the failure codes and the overall verdict
  are those of the enabled rules.\<close>

theorem evaluate_summary:
  assumes "rules_valid L rules"
  shows "\<exists>out w'. Evaluate L rules payload w = (Inr out, w') \<and>
    es_Total out = int (length rules) \<and>
    map e_RuleID (es_Evaluations out) = map q_ID (filter q_Enabled (sort_key q_ID rules)) \<and>
    map e_Passed (es_Evaluations out) = map (rule_passes L payload) (filter q_Enabled (sort_key q_ID rules)) \<and>
    sorted (map e_RuleID (es_Evaluations out)) \<and>
    es_FailureCodes out = map q_ID (filter (\<lambda>r. q_Enabled r \<and> \<not> rule_passes L payload r) (sort_key q_ID rules)) \<and>
    es_PassedCount out + es_FailedCount out = int (length (filter q_Enabled rules)) \<and>
    es_Passed out = list_all (\<lambda>r. q_Enabled r \<longrightarrow> rule_passes L payload r) rules"
proof -
  let ?rs = "sort_key q_ID rules"
  let ?out0 = "\<lparr>es_Passed = False, es_Total = int (length ?rs), es_PassedCount = 0, es_FailedCount = 0,
     es_Evaluations = [], es_Elapsed = 0, es_FailureCodes = []\<rparr>"
  obtain o1 w1 where loop: "evaluate_loop L payload ?rs ?out0 (w\<lparr>ticks := Suc (ticks w)\<rparr>) = (Inr o1, w1)"
    and o1: "es_Total o1 = int (length rules)"
      "es_PassedCount o1 = int (length (filter (\<lambda>r. q_Enabled r \<and> rule_passes L payload r) ?rs))"
      "es_FailedCount o1 = int (length (filter (\<lambda>r. q_Enabled r \<and> \<not> rule_passes L payload r) ?rs))"
      "es_FailureCodes o1 = map q_ID (filter (\<lambda>r. q_Enabled r \<and> \<not> rule_passes L payload r) ?rs)"
      "map e_RuleID (es_Evaluations o1) = map q_ID (filter q_Enabled ?rs)"
      "map e_Passed (es_Evaluations o1) = map (rule_passes L payload) (filter q_Enabled ?rs)"
    using evaluate_loop_valid [of L ?rs payload ?out0 "w\<lparr>ticks := Suc (ticks w)\<rparr>"] assms by auto
  have "length (filter q_Enabled ?rs) = length (filter (\<lambda>r. q_Enabled r \<and> rule_passes L payload r) ?rs) +
      length (filter (\<lambda>r. q_Enabled r \<and> \<not> rule_passes L payload r) ?rs)"
    using sum_length_filter_compl [of "rule_passes L payload" "filter q_Enabled ?rs"] by (simp add: conj_commute)
  moreover have "length (filter q_Enabled ?rs) = length (filter q_Enabled rules)"
    by (metis mset_filter mset_sort size_mset)
  moreover have "sorted (map q_ID (filter q_Enabled ?rs))" by (simp add: sorted_filter)
  moreover have "(filter (\<lambda>r. q_Enabled r \<and> \<not> rule_passes L payload r) ?rs = []) =
      list_all (\<lambda>r. q_Enabled r \<longrightarrow> rule_passes L payload r) rules"
    by (auto simp: filter_empty_conv list_all_iff)
  ultimately show ?thesis using loop o1 by (simp add: Evaluate_def now_def)
qed

theorem evaluate_summary_witness:
  "\<exists>out w'. Evaluate demo_lib [demo_rule] [] demo_world = (Inr out, w') \<and> es_FailureCodes out = [''r1'']"
proof -
  have "rules_valid demo_lib [demo_rule]" using demo_rule_valid by simp
  moreover have "\<not> rule_passes demo_lib [] demo_rule"
    by (simp add: rule_passes_def rule_outcome_def verdict_def demo_rule_def)
  ultimately show ?thesis
    using evaluate_summary [of demo_lib "[demo_rule]" "[]" demo_world] by (auto simp: demo_rule_def)
qed

end
