(* ===== verification/PolicyCatalog.thy ===== *)
theory PolicyCatalog
  imports QualityRules
begin

text \<open>
  The catalogue of policy versions, \<^verbatim>\<open>RuleSet\<close> and \<^verbatim>\<open>Catalog\<close> of
  \<^verbatim>\<open>quality/domain/catalog.go\<close>. Each operation holds the catalogue's lock. A slice read
  from the map \<^verbatim>\<open>sets\<close> shares its array with the map, so the assignments
  \<^verbatim>\<open>items[i].Active = ...\<close> are visible in the catalogue even when the operation then
  returns an error: \<open>Catalog_Activate\<close> writes before it knows whether the version exists.
  The locale \<open>rule_catalog\<close> states what the ingestion service relies on.
\<close>

section \<open>Rule sets\<close>

record RuleSet =
  rs_ContractID :: string
  rs_Version :: int
  rs_Rules :: "Rule list"
  rs_CreatedAt :: time
  rs_CreatedBy :: string
  rs_Active :: bool

fun validate_rules :: "golib \<Rightarrow> Rule list \<Rightarrow> string list \<Rightarrow> unit result" where
  "validate_rules L [] seen = Inr ()"
| "validate_rules L (rule # rules) seen =
     (case Rule_Validate L rule of
        Inl e \<Rightarrow> Inl e
      | Inr _ \<Rightarrow>
          if q_ID rule \<in> set seen then Inl (ErrDuplicateRule (q_ID rule))
          else validate_rules L rules (q_ID rule # seen))"

definition RuleSet_Validate :: "golib \<Rightarrow> RuleSet \<Rightarrow> unit result" where
  "RuleSet_Validate L s =
     (if TrimSpace (rs_ContractID s) = '''' then Inl ErrRuleSetContract
      else if rs_Version s < 1 then Inl ErrRuleSetVersion
      else validate_rules L (rs_Rules s) [])"

definition RuleSet_Clone :: "RuleSet \<Rightarrow> RuleSet" where
  "RuleSet_Clone s = s\<lparr>rs_Rules := map (\<lambda>r. r) (rs_Rules s)\<rparr>"

section \<open>The catalogue\<close>

record Catalog =
  cat_sets :: "RuleSet list gomap"
  cat_latest :: "int gomap"
  cat_maxKeep :: int

definition NewCatalog :: "int \<Rightarrow> Catalog" where
  "NewCatalog maxKeep = \<lparr>cat_sets = [], cat_latest = [], cat_maxKeep = (if maxKeep < 1 then 10 else maxKeep)\<rparr>"

definition sets_of :: "Catalog \<Rightarrow> string \<Rightarrow> RuleSet list" where
  "sets_of c cid = (case map_of (cat_sets c) cid of None \<Rightarrow> [] | Some items \<Rightarrow> items)"

definition latest_of :: "Catalog \<Rightarrow> string \<Rightarrow> int" where
  "latest_of c cid = (case map_of (cat_latest c) cid of None \<Rightarrow> 0 | Some v \<Rightarrow> v)"

definition deactivate :: "RuleSet \<Rightarrow> RuleSet" where
  "deactivate s = s\<lparr>rs_Active := False\<rparr>"

definition Catalog_Put :: "golib \<Rightarrow> order \<Rightarrow> RuleSet \<Rightarrow> Catalog \<Rightarrow> unit result \<times> Catalog" where
  "Catalog_Put L p s c =
     (case RuleSet_Validate L s of
        Inl e \<Rightarrow> (Inl e, c)
      | Inr _ \<Rightarrow>
          let items = sets_of c (rs_ContractID s)
          in if rs_Version s \<le> latest_of c (rs_ContractID s) then (Inl ErrRuleSetNotGreater, c)
             else if list_ex (\<lambda>existing. rs_Version existing = rs_Version s) items then (Inl ErrRuleSetExists, c)
             else let items1 = (if rs_Active s then map deactivate items else items);
                      items2 = sort_slice p rs_Version (items1 @ [RuleSet_Clone s]);
                      items3 = (if int (length items2) > cat_maxKeep c
                                then drop (nat (int (length items2) - cat_maxKeep c)) items2 else items2)
                  in (Inr (), c\<lparr>cat_sets := put (rs_ContractID s) items3 (cat_sets c),
                                cat_latest := put (rs_ContractID s) (rs_Version s) (cat_latest c)\<rparr>))"

definition NextVersion :: "Catalog \<Rightarrow> string \<Rightarrow> int" where
  "NextVersion c cid = wrap64 (latest_of c cid + 1)"

definition Catalog_Activate :: "string \<Rightarrow> int \<Rightarrow> Catalog \<Rightarrow> unit result \<times> Catalog" where
  "Catalog_Activate cid version c =
     (case map_of (cat_sets c) cid of
        None \<Rightarrow> (Inl ErrRuleSetNotFound, c)
      | Some items \<Rightarrow>
          let items' = map (\<lambda>i. i\<lparr>rs_Active := (rs_Version i = version)\<rparr>) items;
              c' = c\<lparr>cat_sets := put cid items' (cat_sets c)\<rparr>
          in if list_ex rs_Active items' then (Inr (), c') else (Inl ErrRuleSetNotFound, c'))"

definition Catalog_Active :: "Catalog \<Rightarrow> string \<Rightarrow> RuleSet result" where
  "Catalog_Active c cid = (case find rs_Active (sets_of c cid) of
       None \<Rightarrow> Inl ErrNoActiveRuleSet
     | Some s \<Rightarrow> Inr (RuleSet_Clone s))"

definition Catalog_List :: "Catalog \<Rightarrow> string \<Rightarrow> RuleSet list" where
  "Catalog_List c cid = map RuleSet_Clone (sets_of c cid)"

section \<open>What the ingestion service relies on\<close>

locale rule_catalog =
  fixes inv :: "'c \<Rightarrow> bool" and next_version :: "'c \<Rightarrow> string \<Rightarrow> int"
    and put_set :: "RuleSet \<Rightarrow> 'c \<Rightarrow> unit result \<times> 'c"
    and activate :: "string \<Rightarrow> int \<Rightarrow> 'c \<Rightarrow> unit result \<times> 'c"
    and active :: "'c \<Rightarrow> string \<Rightarrow> RuleSet result"
    and valid :: "Rule list \<Rightarrow> bool"
  assumes put_ok: "inv c \<Longrightarrow> put_set s c = (Inr (), c') \<Longrightarrow> rs_Active s \<Longrightarrow> active c' (rs_ContractID s) = Inr s"
    and put_inv: "inv c \<Longrightarrow> put_set s c = (res, c') \<Longrightarrow> inv c'"
    and put_frame: "inv c \<Longrightarrow> put_set s c = (res, c') \<Longrightarrow> cid \<noteq> rs_ContractID s \<Longrightarrow> active c' cid = active c cid"
    and put_err: "inv c \<Longrightarrow> put_set s c = (Inl e, c') \<Longrightarrow> c' = c"
    and activate_ok: "inv c \<Longrightarrow> activate cid v c = (Inr (), c') \<Longrightarrow>
          \<exists>s. active c' cid = Inr s \<and> rs_Version s = v \<and> rs_ContractID s = cid"
    and activate_err: "inv c \<Longrightarrow> activate cid v c = (Inl e, c') \<Longrightarrow> \<forall>s. active c' cid \<noteq> Inr s"
    and activate_inv: "inv c \<Longrightarrow> activate cid v c = (res, c') \<Longrightarrow> inv c'"
    and activate_frame: "inv c \<Longrightarrow> activate cid v c = (res, c') \<Longrightarrow> d \<noteq> cid \<Longrightarrow> active c' d = active c d"
    and active_valid: "inv c \<Longrightarrow> active c cid = Inr s \<Longrightarrow> valid (rs_Rules s)"
begin

text \<open>
  The live rules of a contract agree with its active policy version. Installing a version and
  activating one keep the agreement when the live rules are replaced by the active ones; an
  activation that fails leaves no active version to agree with.
\<close>

definition coherent :: "(string \<Rightarrow> Rule list) \<Rightarrow> 'c \<Rightarrow> bool" where
  "coherent live c \<longleftrightarrow> (\<forall>cid s. active c cid = Inr s \<longrightarrow> live cid = rs_Rules s)"

lemma coherent_put:
  "inv c \<Longrightarrow> coherent live c \<Longrightarrow> put_set s c = (Inr (), c') \<Longrightarrow> rs_Active s \<Longrightarrow>
   coherent (live(rs_ContractID s := rs_Rules s)) c'"
  using put_ok put_frame by (fastforce simp: coherent_def)

lemma coherent_activate:
  "inv c \<Longrightarrow> coherent live c \<Longrightarrow> activate cid v c = (Inr (), c') \<Longrightarrow> active c' cid = Inr s \<Longrightarrow>
   coherent (live(cid := rs_Rules s)) c'"
  using activate_frame by (fastforce simp: coherent_def)

lemma coherent_activate_err:
  "inv c \<Longrightarrow> coherent live c \<Longrightarrow> activate cid v c = (Inl e, c') \<Longrightarrow> coherent live c'"
  using activate_frame activate_err by (metis coherent_def)

end

section \<open>The catalogue keeps its promises\<close>

lemma validate_rules_iff:
  "validate_rules L rules seen = Inr () \<longleftrightarrow>
     rules_valid L rules \<and> distinct (map q_ID rules) \<and> set (map q_ID rules) \<inter> set seen = {}"
proof (induction rules arbitrary: seen)
  case (Cons r rules)
  then show ?case by (cases "Rule_Validate L r") auto
qed simp

lemma RuleSet_Validate_iff:
  "RuleSet_Validate L s = Inr () \<longleftrightarrow> TrimSpace (rs_ContractID s) \<noteq> '''' \<and> 1 \<le> rs_Version s \<and>
     rules_valid L (rs_Rules s) \<and> distinct (map q_ID (rs_Rules s))"
  by (auto simp: RuleSet_Validate_def validate_rules_iff)

lemma RuleSet_Clone_id [simp]: "RuleSet_Clone s = s"
  by (simp add: RuleSet_Clone_def)

text \<open>The history of one contract: versions increase up to the latest, at most one is active, each
  was validated.\<close>

definition wf_history :: "golib \<Rightarrow> string \<Rightarrow> int \<Rightarrow> RuleSet list \<Rightarrow> bool" where
  "wf_history L cid latest items \<longleftrightarrow> sorted_wrt (<) (map rs_Version items) \<and>
     (\<forall>s\<in>set items. rs_Version s \<le> latest \<and> rs_ContractID s = cid \<and> RuleSet_Validate L s = Inr ()) \<and>
     length (filter rs_Active items) \<le> 1"

definition wf_catalog :: "golib \<Rightarrow> Catalog \<Rightarrow> bool" where
  "wf_catalog L c \<longleftrightarrow> 1 \<le> cat_maxKeep c \<and>
     (\<forall>cid. wf_history L cid (latest_of c cid) (sets_of c cid) \<and> int (length (sets_of c cid)) \<le> cat_maxKeep c)"

lemma wf_catalog_history: "wf_catalog L c \<Longrightarrow> wf_history L cid (latest_of c cid) (sets_of c cid)"
  by (simp add: wf_catalog_def)

lemma wf_NewCatalog: "wf_catalog L (NewCatalog n)"
  by (simp add: wf_catalog_def NewCatalog_def wf_history_def sets_of_def)

lemma sets_of_update [simp]:
  "sets_of (c\<lparr>cat_sets := put k items m, cat_latest := l\<rparr>) cid = (if cid = k then items else sets_of (c\<lparr>cat_sets := m\<rparr>) cid)"
  "sets_of (c\<lparr>cat_sets := put k items m\<rparr>) cid = (if cid = k then items else sets_of (c\<lparr>cat_sets := m\<rparr>) cid)"
  by (simp_all add: sets_of_def)

lemma latest_of_update [simp]:
  "latest_of (c\<lparr>cat_sets := s, cat_latest := put k v m\<rparr>) cid = (if cid = k then v else latest_of (c\<lparr>cat_latest := m\<rparr>) cid)"
  "latest_of (c\<lparr>cat_sets := s\<rparr>) cid = latest_of c cid"
  by (simp_all add: latest_of_def)

lemma catalog_same [simp]:
  "c\<lparr>cat_sets := cat_sets c\<rparr> = c" "c\<lparr>cat_latest := cat_latest c\<rparr> = c"
  by simp_all

lemma deactivate_simps [simp]:
  "rs_Version (deactivate s) = rs_Version s" "rs_ContractID (deactivate s) = rs_ContractID s"
  "rs_Rules (deactivate s) = rs_Rules s" "\<not> rs_Active (deactivate s)"
  by (simp_all add: deactivate_def)

lemma RuleSet_Validate_active [simp]: "RuleSet_Validate L (s\<lparr>rs_Active := b\<rparr>) = RuleSet_Validate L s"
  by (simp add: RuleSet_Validate_def)

text \<open>The new history of a contract after a successful \<^verbatim>\<open>Put\<close>.\<close>

definition put_history :: "int \<Rightarrow> RuleSet \<Rightarrow> RuleSet list \<Rightarrow> RuleSet list" where
  "put_history keep s items =
     (let all = (if rs_Active s then map deactivate items else items) @ [s]
      in drop (nat (int (length all) - keep)) all)"

lemma Put_sorted:
  assumes "wf_history L cid latest items" and "latest < rs_Version s"
  shows "sort_slice p rs_Version ((if b then map deactivate items else items) @ [s]) =
    (if b then map deactivate items else items) @ [s]"
proof -
  let ?all = "(if b then map deactivate items else items) @ [s]"
  have vers: "map rs_Version ?all = map rs_Version items @ [rs_Version s]" by (simp add: comp_def)
  have strict: "sorted_wrt (<) (map rs_Version ?all)"
    unfolding vers using assms by (fastforce simp: wf_history_def sorted_wrt_append)
  then have "sorted (map rs_Version ?all)" "distinct (map rs_Version ?all)"
    by (auto simp only: strict_sorted_iff)
  then show ?thesis by (simp only: sort_slice_distinct sort_key_id_if_sorted)
qed

lemma wf_history_fresh:
  "wf_history L cid latest items \<Longrightarrow> latest < v \<Longrightarrow> \<not> list_ex (\<lambda>e. rs_Version e = v) items"
  by (force simp: wf_history_def list_ex_iff)

lemma Put_cases:
  assumes wf: "wf_catalog L c" and put: "Catalog_Put L p s c = (res, c')"
  shows "(\<exists>e. res = Inl e \<and> c' = c \<and> e \<noteq> ErrRuleSetExists) \<or>
    (res = Inr () \<and> RuleSet_Validate L s = Inr () \<and> latest_of c (rs_ContractID s) < rs_Version s \<and>
     c' = c\<lparr>cat_sets := put (rs_ContractID s)
              (put_history (cat_maxKeep c) s (sets_of c (rs_ContractID s))) (cat_sets c),
            cat_latest := put (rs_ContractID s) (rs_Version s) (cat_latest c)\<rparr>)"
proof (cases "RuleSet_Validate L s")
  case (Inl e)
  moreover have "e \<noteq> ErrRuleSetExists"
  proof -
    have "Rule_Validate L r \<noteq> Inl ErrRuleSetExists" for r by (simp add: Rule_Validate_def)
    then have "validate_rules L rules seen \<noteq> Inl ErrRuleSetExists" for rules seen
      by (induction rules arbitrary: seen) (auto split: sum.splits)
    with Inl show ?thesis by (auto simp: RuleSet_Validate_def split: if_splits)
  qed
  ultimately show ?thesis using put by (auto simp: Catalog_Put_def)
next
  case (Inr u)
  let ?items = "sets_of c (rs_ContractID s)"
  show ?thesis
  proof (cases "rs_Version s \<le> latest_of c (rs_ContractID s)")
    case True
    with Inr put show ?thesis by (auto simp: Catalog_Put_def)
  next
    case False
    then have new: "latest_of c (rs_ContractID s) < rs_Version s" by simp
    note h = wf_catalog_history [OF wf, of "rs_ContractID s"]
    note sorted = Put_sorted [OF h new, of p True, simplified] Put_sorted [OF h new, of p False, simplified]
    have "Catalog_Put L p s c = (Inr (), c\<lparr>cat_sets := put (rs_ContractID s)
              (put_history (cat_maxKeep c) s ?items) (cat_sets c),
            cat_latest := put (rs_ContractID s) (rs_Version s) (cat_latest c)\<rparr>)"
      using Inr False wf_history_fresh [OF h new]
      by (cases "rs_Active s") (simp_all add: Catalog_Put_def Let_def sorted put_history_def)
    with put Inr new show ?thesis by simp
  qed
qed

lemma wf_history_drop: "wf_history L cid latest items \<Longrightarrow> wf_history L cid latest (drop n items)"
proof -
  assume h: "wf_history L cid latest items"
  have "length (filter rs_Active (drop n items)) \<le> length (filter rs_Active items)"
    by (metis append_take_drop_id filter_append length_append le_add2)
  moreover have "sorted_wrt (<) (map rs_Version (drop n items))"
    using h by (metis drop_map sorted_wrt_drop wf_history_def)
  ultimately show ?thesis using h set_drop_subset [of n items] by (auto simp: wf_history_def)
qed

lemma put_history_wf:
  assumes "wf_history L cid latest items" and "latest < rs_Version s" and "rs_ContractID s = cid"
    and "RuleSet_Validate L s = Inr ()"
  shows "wf_history L cid (rs_Version s) (put_history keep s items)"
proof -
  let ?all = "(if rs_Active s then map deactivate items else items) @ [s]"
  have vers: "map rs_Version ?all = map rs_Version items @ [rs_Version s]" by (simp add: comp_def)
  have "sorted_wrt (<) (map rs_Version ?all)"
    unfolding vers using assms by (fastforce simp: wf_history_def sorted_wrt_append)
  moreover have "rs_Version x \<le> rs_Version s \<and> rs_ContractID x = cid \<and> RuleSet_Validate L x = Inr ()"
    if "x \<in> set ?all" for x
    using that assms by (fastforce simp: wf_history_def deactivate_def split: if_splits)
  moreover have "length (filter rs_Active ?all) \<le> 1"
    using assms(1) by (simp add: wf_history_def filter_map comp_def)
  ultimately have "wf_history L cid (rs_Version s) ?all" unfolding wf_history_def by blast
  then show ?thesis unfolding put_history_def Let_def by (rule wf_history_drop)
qed

lemma put_history_length: "1 \<le> keep \<Longrightarrow> int (length (put_history keep s items)) \<le> keep"
  by (simp add: put_history_def Let_def)

lemma find_active_last:
  "\<forall>x\<in>set xs. \<not> P x \<Longrightarrow> P s \<Longrightarrow> find P (xs @ [s]) = Some s"
  by (induction xs) auto

lemma put_history_active:
  assumes "1 \<le> keep" and "rs_Active s"
  shows "find rs_Active (put_history keep s items) = Some s"
proof -
  have "nat (int (Suc (length items)) - keep) \<le> length items" using assms(1) by simp
  then have "put_history keep s items = drop (nat (int (Suc (length items)) - keep)) (map deactivate items) @ [s]"
    using assms(2) by (simp add: put_history_def Let_def)
  moreover have "\<forall>x\<in>set (drop n (map deactivate items)). \<not> rs_Active x" for n
    by (simp add: drop_map)
  ultimately show ?thesis using assms(2) find_active_last by metis
qed

lemma Put_wf:
  assumes wf: "wf_catalog L c" and put: "Catalog_Put L p s c = (res, c')"
  shows "wf_catalog L c'"
  using Put_cases [OF wf put]
proof (elim disjE exE conjE)
  assume new: "latest_of c (rs_ContractID s) < rs_Version s" and ok: "RuleSet_Validate L s = Inr ()"
    and c': "c' = c\<lparr>cat_sets := put (rs_ContractID s)
              (put_history (cat_maxKeep c) s (sets_of c (rs_ContractID s))) (cat_sets c),
            cat_latest := put (rs_ContractID s) (rs_Version s) (cat_latest c)\<rparr>"
  show ?thesis
    using put_history_wf [OF wf_catalog_history [OF wf] new refl ok] wf put_history_length
    unfolding c' by (simp add: wf_catalog_def)
qed (use wf in simp)

lemma Put_active:
  assumes wf: "wf_catalog L c" and put: "Catalog_Put L p s c = (Inr (), c')" and "rs_Active s"
  shows "Catalog_Active c' (rs_ContractID s) = Inr s"
  using Put_cases [OF wf put] wf put_history_active [OF _ assms(3)]
  by (auto simp: Catalog_Active_def wf_catalog_def)

lemma Put_frame:
  assumes wf: "wf_catalog L c" and put: "Catalog_Put L p s c = (res, c')" and "cid \<noteq> rs_ContractID s"
  shows "sets_of c' cid = sets_of c cid"
  using Put_cases [OF wf put] assms(3) by auto

lemma Active_cong: "sets_of c' cid = sets_of c cid \<Longrightarrow> Catalog_Active c' cid = Catalog_Active c cid"
  by (simp add: Catalog_Active_def)

subsection \<open>Activation\<close>

definition activated :: "int \<Rightarrow> RuleSet \<Rightarrow> RuleSet" where
  "activated v s = s\<lparr>rs_Active := (rs_Version s = v)\<rparr>"

lemma activated_simps [simp]:
  "rs_Version (activated v s) = rs_Version s" "rs_ContractID (activated v s) = rs_ContractID s"
  "rs_Rules (activated v s) = rs_Rules s" "rs_Active (activated v s) \<longleftrightarrow> rs_Version s = v"
  by (simp_all add: activated_def)

lemma Activate_cases:
  assumes "Catalog_Activate cid v c = (res, c')"
  shows "sets_of c' cid = map (activated v) (sets_of c cid) \<and> (\<forall>d. d \<noteq> cid \<longrightarrow> sets_of c' d = sets_of c d) \<and>
    (\<forall>d. latest_of c' d = latest_of c d) \<and> cat_maxKeep c' = cat_maxKeep c \<and>
    res = (if v \<in> rs_Version ` set (sets_of c cid) then Inr () else Inl ErrRuleSetNotFound)"
proof (cases "map_of (cat_sets c) cid")
  case None
  with assms show ?thesis by (simp add: Catalog_Activate_def sets_of_def)
next
  case (Some items)
  have "map (\<lambda>i. i\<lparr>rs_Active := (rs_Version i = v)\<rparr>) items = map (activated v) items"
    by (simp add: activated_def)
  with assms Some show ?thesis
    by (auto simp: Catalog_Activate_def Let_def list_ex_iff sets_of_def latest_of_def image_iff split: if_splits)
qed

lemma length_filter_eq_le_1:
  "distinct (map f xs) \<Longrightarrow> length (filter (\<lambda>x. f x = v) xs) \<le> 1"
proof (induction xs)
  case (Cons x xs)
  then have "f x = v \<Longrightarrow> filter (\<lambda>x. f x = v) xs = []" by (auto simp: filter_empty_conv image_iff)
  with Cons show ?case by auto
qed simp

lemma Activate_wf:
  assumes wf: "wf_catalog L c" and act: "Catalog_Activate cid v c = (res, c')"
  shows "wf_catalog L c'"
proof -
  note r = Activate_cases [OF act]
  have h: "wf_history L cid (latest_of c cid) (sets_of c cid)" by (rule wf_catalog_history [OF wf])
  have "distinct (map rs_Version (sets_of c cid))"
    using h strict_sorted_iff by (auto simp: wf_history_def)
  then have "length (filter rs_Active (map (activated v) (sets_of c cid))) \<le> 1"
    using length_filter_eq_le_1 [of rs_Version "sets_of c cid" v] by (simp add: filter_map comp_def)
  then have "wf_history L cid (latest_of c cid) (map (activated v) (sets_of c cid))"
    using h by (auto simp: wf_history_def comp_def activated_def)
  then show ?thesis using wf r by (auto simp: wf_catalog_def) (metis length_map)+
qed

lemma Active_Inr:
  "Catalog_Active c cid = Inr s \<Longrightarrow> s \<in> set (sets_of c cid) \<and> rs_Active s"
  by (auto simp: Catalog_Active_def find_Some_iff split: option.splits)

lemma Active_exists:
  "s \<in> set (sets_of c cid) \<Longrightarrow> rs_Active s \<Longrightarrow> \<exists>s'. Catalog_Active c cid = Inr s'"
  by (cases "find rs_Active (sets_of c cid)") (auto simp: Catalog_Active_def find_None_iff)

lemma Active_valid:
  assumes "wf_catalog L c" and "Catalog_Active c cid = Inr s"
  shows "rules_valid L (rs_Rules s)" and "rs_ContractID s = cid"
  using wf_catalog_history [OF assms(1), of cid] Active_Inr [OF assms(2)]
  by (auto simp: wf_history_def RuleSet_Validate_iff)

lemma Activate_active:
  assumes "wf_catalog L c" and "Catalog_Activate cid v c = (Inr (), c')"
  shows "\<exists>s. Catalog_Active c' cid = Inr s \<and> rs_Version s = v \<and> rs_ContractID s = cid \<and>
    (\<exists>s0\<in>set (sets_of c cid). s = activated v s0)"
proof -
  note r = Activate_cases [OF assms(2)]
  then obtain s0 where "s0 \<in> set (sets_of c cid)" "rs_Version s0 = v" by (auto split: if_splits)
  then obtain s where s: "Catalog_Active c' cid = Inr s"
    using Active_exists [of "activated v s0" c' cid] r by auto
  with Active_Inr [OF s] r Active_valid(2) [OF Activate_wf [OF assms] s] show ?thesis by auto
qed

text \<open>Versions are distinct, so the version that becomes active is the stored one.\<close>

lemma Activate_restores:
  assumes "wf_catalog L c" and "s \<in> set (sets_of c cid)" and "Catalog_Activate cid (rs_Version s) c = (res, c')"
  shows "res = Inr () \<and> Catalog_Active c' cid = Inr (s\<lparr>rs_Active := True\<rparr>)"
proof -
  note r = Activate_cases [OF assms(3)]
  with assms(2) have res: "res = Inr ()" by auto
  from Activate_active [OF assms(1)] assms(3) res obtain s0
    where act: "Catalog_Active c' cid = Inr (activated (rs_Version s) s0)"
      and s0: "s0 \<in> set (sets_of c cid)" "rs_Version s0 = rs_Version s"
    by (metis activated_simps(1))
  have "distinct (map rs_Version (sets_of c cid))"
    using wf_catalog_history [OF assms(1), of cid] strict_sorted_iff by (auto simp: wf_history_def)
  with assms(2) s0 have "s0 = s" by (auto simp: distinct_map inj_on_def)
  with res act show ?thesis by (simp add: activated_def)
qed

lemma Activate_err:
  "Catalog_Activate cid v c = (Inl e, c') \<Longrightarrow> Catalog_Active c' cid = Inl ErrNoActiveRuleSet"
  using Activate_cases [of cid v c "Inl e" c']
  by (auto simp: Catalog_Active_def find_None_iff image_iff split: if_splits option.splits
      dest!: find_Some_iff [THEN iffD1])

interpretation catalog: rule_catalog "wf_catalog L" NextVersion "Catalog_Put L p" Catalog_Activate Catalog_Active
  "rules_valid L" for L p
proof unfold_locales
  fix c c' :: Catalog and s :: RuleSet and cid :: string and v :: int and e :: error and res and d :: string
  assume wf: "wf_catalog L c"
  show "Catalog_Put L p s c = (Inr (), c') \<Longrightarrow> rs_Active s \<Longrightarrow> Catalog_Active c' (rs_ContractID s) = Inr s"
    by (rule Put_active [OF wf])
  show "Catalog_Put L p s c = (res, c') \<Longrightarrow> wf_catalog L c'"
    by (rule Put_wf [OF wf])
  show "Catalog_Put L p s c = (res, c') \<Longrightarrow> cid \<noteq> rs_ContractID s \<Longrightarrow> Catalog_Active c' cid = Catalog_Active c cid"
    by (rule Active_cong, rule Put_frame [OF wf])
  show "Catalog_Put L p s c = (Inl e, c') \<Longrightarrow> c' = c"
    by (drule Put_cases [OF wf]) auto
  show "Catalog_Activate cid v c = (Inr (), c') \<Longrightarrow>
      \<exists>s. Catalog_Active c' cid = Inr s \<and> rs_Version s = v \<and> rs_ContractID s = cid"
    using Activate_active [OF wf] by blast
  show "Catalog_Activate cid v c = (Inl e, c') \<Longrightarrow> \<forall>s. Catalog_Active c' cid \<noteq> Inr s"
    by (simp add: Activate_err)
  show "Catalog_Activate cid v c = (res, c') \<Longrightarrow> wf_catalog L c'"
    by (rule Activate_wf [OF wf])
  show "Catalog_Activate cid v c = (res, c') \<Longrightarrow> d \<noteq> cid \<Longrightarrow> Catalog_Active c' d = Catalog_Active c d"
    by (rule Active_cong) (use Activate_cases in blast)
  show "Catalog_Active c cid = Inr s \<Longrightarrow> rules_valid L (rs_Rules s)"
    by (rule Active_valid(1) [OF wf])
qed

inductive catalog_reach :: "golib \<Rightarrow> int \<Rightarrow> Catalog \<Rightarrow> bool" for L n where
  start: "catalog_reach L n (NewCatalog n)"
| put: "catalog_reach L n c \<Longrightarrow> Catalog_Put L p s c = (res, c') \<Longrightarrow> catalog_reach L n c'"
| activate: "catalog_reach L n c \<Longrightarrow> Catalog_Activate cid v c = (res, c') \<Longrightarrow> catalog_reach L n c'"

lemma catalog_reach_wf: "catalog_reach L n c \<Longrightarrow> wf_catalog L c"
  by (induction rule: catalog_reach.induct) (auto intro: wf_NewCatalog Put_wf Activate_wf)

section \<open>Sample catalogue\<close>

definition demo_set :: "int \<Rightarrow> RuleSet" where
  "demo_set v = \<lparr>rs_ContractID = ''c'', rs_Version = v, rs_Rules = [demo_rule], rs_CreatedAt = 1,
     rs_CreatedBy = ''api'', rs_Active = True\<rparr>"

definition demo_catalog :: Catalog where
  "demo_catalog = snd (Catalog_Put demo_lib id_order (demo_set 1) (NewCatalog 10))"

lemma demo_set_valid: "1 \<le> v \<Longrightarrow> RuleSet_Validate demo_lib (demo_set v) = Inr ()"
proof -
  have "TrimSpace ''c'' \<noteq> ''''" by code_simp
  then show "1 \<le> v \<Longrightarrow> ?thesis" using demo_rule_valid by (simp add: RuleSet_Validate_iff demo_set_def)
qed

lemma demo_put: "Catalog_Put demo_lib id_order (demo_set 1) (NewCatalog 10) = (Inr (), demo_catalog)"
  using demo_set_valid [of 1]
  by (simp add: demo_catalog_def Catalog_Put_def Let_def NewCatalog_def sets_of_def latest_of_def demo_set_def)

lemma demo_catalog_wf: "wf_catalog demo_lib demo_catalog"
  by (rule Put_wf [OF wf_NewCatalog demo_put])

lemma demo_catalog_sets: "sets_of demo_catalog ''c'' = [demo_set 1]"
proof -
  have eq: "demo_catalog = (NewCatalog 10)\<lparr>cat_sets := put ''c'' (put_history 10 (demo_set 1) []) [],
      cat_latest := put ''c'' 1 []\<rparr>"
    using Put_cases [OF wf_NewCatalog demo_put] by (simp add: NewCatalog_def sets_of_def demo_set_def)
  show ?thesis unfolding eq by (simp add: demo_set_def put_history_def)
qed

section \<open>Properties\<close>

text \<open>Whatever sequence of \<^verbatim>\<open>Put\<close> and \<^verbatim>\<open>Activate\<close>, successful or not, the catalogue
  keeps for each contract at most \<^verbatim>\<open>maxKeep\<close> validated policy versions in increasing order, at
  most one of them active.\<close>

theorem catalog_invariant:
  assumes "catalog_reach L n c"
  shows "wf_catalog L c"
  using assms by (rule catalog_reach_wf)

theorem catalog_invariant_witness: "wf_catalog demo_lib demo_catalog"
  by (rule catalog_invariant [of _ 10]) (rule catalog_reach.put [OF catalog_reach.start demo_put])

text \<open>After an active version is put, it is the active one; the history is the previous one
  with every version deactivated and the new one last, cut to the newest \<^verbatim>\<open>maxKeep\<close>, and no other
  contract is touched. A version number already used is refused as not greater than the latest, so the
  duplicate check that follows never fires.\<close>

theorem catalog_put:
  assumes "wf_catalog L c" and "Catalog_Put L p s c = (res, c')"
  shows "res \<noteq> Inl ErrRuleSetExists \<and> (\<forall>e. res = Inl e \<longrightarrow> c' = c) \<and>
    (res = Inr () \<and> rs_Active s \<longrightarrow> Catalog_Active c' (rs_ContractID s) = Inr s \<and>
       Catalog_List c' (rs_ContractID s) =
         (let all = map deactivate (Catalog_List c (rs_ContractID s)) @ [s]
          in drop (nat (int (length all) - cat_maxKeep c)) all)) \<and>
    (\<forall>cid. cid \<noteq> rs_ContractID s \<longrightarrow> Catalog_List c' cid = Catalog_List c cid)"
proof -
  have id: "map RuleSet_Clone xs = xs" for xs by (simp add: map_idI)
  have "Catalog_List c' (rs_ContractID s) = put_history (cat_maxKeep c) s (sets_of c (rs_ContractID s))"
    if "res = Inr ()" using Put_cases [OF assms] that by (auto simp: Catalog_List_def id)
  then show ?thesis
    using Put_cases [OF assms] Put_active [OF assms(1), of p s c'] Put_frame [OF assms] assms(2)
    by (auto simp: Catalog_List_def id put_history_def)
qed

theorem catalog_put_witness:
  "wf_catalog demo_lib (NewCatalog 10) \<and>
   Catalog_Put demo_lib id_order (demo_set 1) (NewCatalog 10) = (Inr (), demo_catalog) \<and>
   Catalog_Active demo_catalog ''c'' = Inr (demo_set 1)"
  using catalog_put [OF wf_NewCatalog demo_put] demo_put wf_NewCatalog by (simp add: demo_set_def)

text \<open>\<^verbatim>\<open>Activate\<close> succeeds exactly on a version in the history; then that version alone is
  active, with the rules it was stored with, so a roll-back restores the old policy.\<close>

theorem catalog_activate:
  assumes "wf_catalog L c" and "s \<in> set (Catalog_List c cid)"
    and "Catalog_Activate cid (rs_Version s) c = (res, c')"
  shows "res = Inr () \<and> Catalog_Active c' cid = Inr (s\<lparr>rs_Active := True\<rparr>) \<and>
    length (filter rs_Active (Catalog_List c' cid)) = 1"
proof -
  have id: "map RuleSet_Clone xs = xs" for xs by (simp add: map_idI)
  have s: "s \<in> set (sets_of c cid)" using assms(2) by (simp add: Catalog_List_def id)
  note act = Activate_restores [OF assms(1) s assms(3)]
  have "length (filter rs_Active (sets_of c' cid)) \<le> 1"
    using wf_catalog_history [OF Activate_wf [OF assms(1,3)], of cid] by (simp add: wf_history_def)
  moreover have "filter rs_Active (sets_of c' cid) \<noteq> []"
    using Active_Inr [OF conjunct2 [OF act]] unfolding filter_empty_conv by blast
  ultimately show ?thesis using act by (simp add: Catalog_List_def id le_Suc_eq)
qed

theorem catalog_activate_witness:
  "demo_set 1 \<in> set (Catalog_List demo_catalog ''c'') \<and>
   Catalog_Active (snd (Catalog_Activate ''c'' 1 demo_catalog)) ''c'' = Inr ((demo_set 1)\<lparr>rs_Active := True\<rparr>)"
proof -
  have m: "demo_set 1 \<in> set (Catalog_List demo_catalog ''c'')"
    by (simp add: Catalog_List_def demo_catalog_sets)
  have v: "rs_Version (demo_set 1) = 1" by (simp add: demo_set_def)
  show ?thesis using catalog_activate [OF demo_catalog_wf m] m v by (metis prod.collapse)
qed

text \<open>\<^verbatim>\<open>Activate\<close> with a version that is not in the history reports an error, but it has
  deactivated every version already: afterwards the contract has no active policy version.\<close>

theorem activate_unknown_clears_active:
  assumes "\<forall>s\<in>set (Catalog_List c cid). rs_Version s \<noteq> v"
  shows "\<exists>c'. Catalog_Activate cid v c = (Inl ErrRuleSetNotFound, c') \<and>
    Catalog_Active c' cid = Inl ErrNoActiveRuleSet"
proof -
  obtain res c' where act: "Catalog_Activate cid v c = (res, c')" by fastforce
  have "res = Inl ErrRuleSetNotFound"
    using Activate_cases [OF act] assms by (auto simp: Catalog_List_def)
  with act Activate_err show ?thesis by auto
qed

theorem activate_unknown_clears_active_witness:
  "Catalog_Active demo_catalog ''c'' = Inr (demo_set 1) \<and>
   (\<exists>c'. Catalog_Activate ''c'' 7 demo_catalog = (Inl ErrRuleSetNotFound, c') \<and>
     Catalog_Active c' ''c'' = Inl ErrNoActiveRuleSet)"
proof -
  have "\<forall>s\<in>set (Catalog_List demo_catalog ''c''). rs_Version s \<noteq> 7"
    by (simp add: Catalog_List_def demo_catalog_sets demo_set_def)
  from activate_unknown_clears_active [OF this] show ?thesis
    by (simp add: Catalog_Active_def demo_catalog_sets demo_set_def)
qed

end
