(* ===== verification/TypeCheck.thy ===== *)
theory TypeCheck
  imports ContractModel
begin

text \<open>
  Payload validation, \<^verbatim>\<open>quality/domain/typecheck.go\<close>: required fields, primitive types and
  enumerations of a schema against the dynamic values of a payload. The conversion
  \<^verbatim>\<open>float64(int64(x)) == x\<close> is computed with the rounding of the library theory;
  \<^verbatim>\<open>numericValue\<close> of a value that is not numeric panics in \<^verbatim>\<open>reflect\<close>, and the
  caller never gets there (\<open>numericValue_integer\<close>).
\<close>

record TypeIssue =
  ti_Field :: string
  ti_Expected :: string
  ti_Actual :: string
  ti_Reason :: string

fun isString :: "val \<Rightarrow> bool" where
  "isString (VString _) = True"
| "isString _ = False"

fun isByteSlice :: "val \<Rightarrow> bool" where
  "isByteSlice (VBytes _) = True"
| "isByteSlice _ = False"

fun isBool :: "val \<Rightarrow> bool" where
  "isBool (VBool _) = True"
| "isBool _ = False"

fun isInteger :: "golib \<Rightarrow> val \<Rightarrow> bool" where
  "isInteger L (VInt _ _) = True"
| "isInteger L (VNumber s) = (Atoi s \<noteq> None)"
| "isInteger L (VFloat32 f) = (\<not> IsNaN f \<and> f64_eq (round_f32 (of_int (int64_of L f))) f)"
| "isInteger L (VFloat64 f) = (\<not> IsNaN f \<and> f64_eq (round_f64 (of_int (int64_of L f))) f)"
| "isInteger L _ = False"

fun isNumber :: "golib \<Rightarrow> val \<Rightarrow> bool" where
  "isNumber L (VInt _ i) = (\<not> IsNaN (round_f64 (of_int i)))"
| "isNumber L (VNumber s) = snd (ParseFloat L s)"
| "isNumber L (VFloat32 f) = (\<not> IsNaN f)"
| "isNumber L (VFloat64 f) = (\<not> IsNaN f)"
| "isNumber L _ = False"

fun numericValue :: "golib \<Rightarrow> val \<Rightarrow> f64 result" where
  "numericValue L (VNumber s) = Inr (fst (ParseFloat L s))"
| "numericValue L (VFloat32 f) = Inr f"
| "numericValue L (VFloat64 f) = Inr f"
| "numericValue L (VInt _ i) = Inr (round_f64 (of_int i))"
| "numericValue L _ = Inl (Panic ''reflect.Value.Convert'')"

fun kind_of :: "val \<Rightarrow> kind" where
  "kind_of VNil = KOther"
| "kind_of (VBool _) = KBool"
| "kind_of (VString _) = KString"
| "kind_of (VNumber _) = KString"
| "kind_of (VInt _ _) = KNumeric"
| "kind_of (VFloat32 _) = KNumeric"
| "kind_of (VFloat64 _) = KNumeric"
| "kind_of (VBytes _) = KSlice"
| "kind_of (VSlice _) = KSlice"
| "kind_of (VMap _) = KMap"
| "kind_of (VOther k _ _) = k"

definition matchesType :: "golib \<Rightarrow> val \<Rightarrow> string \<Rightarrow> bool" where
  "matchesType L v fieldType =
     (let t = ToLower L (TrimSpace fieldType)
      in if t \<in> {''string'', ''text'', ''uuid'', ''date'', ''datetime'', ''timestamp''} then isString v
         else if t \<in> {''bool'', ''boolean''} then isBool v
         else if t \<in> {''int'', ''int8'', ''int16'', ''int32'', ''int64'', ''integer''} then isInteger L v
         else if t \<in> {''uint'', ''uint8'', ''uint16'', ''uint32'', ''uint64''}
         then isInteger L v \<and> (case numericValue L v of Inr n \<Rightarrow> f64_le (Fin 0) n | Inl _ \<Rightarrow> False)
         else if t \<in> {''float'', ''float32'', ''float64'', ''number'', ''decimal''} then isNumber L v
         else if t \<in> {''object'', ''map'', ''json''} then kind_of v \<in> {KMap, KStruct}
         else if t \<in> {''array'', ''list'', ''repeated''} then kind_of v \<in> {KArray, KSlice}
         else if t \<in> {''bytes'', ''binary''} then isString v \<or> isByteSlice v
         else True)"

definition enumContains :: "string list \<Rightarrow> string \<Rightarrow> bool" where
  "enumContains values s = list_ex (\<lambda>candidate. candidate = s) values"

fun int_kind_name :: "int_kind \<Rightarrow> string" where
  "int_kind_name KInt = ''int''"
| "int_kind_name KInt8 = ''int8''"
| "int_kind_name KInt16 = ''int16''"
| "int_kind_name KInt32 = ''int32''"
| "int_kind_name KInt64 = ''int64''"
| "int_kind_name KUint = ''uint''"
| "int_kind_name KUint8 = ''uint8''"
| "int_kind_name KUint16 = ''uint16''"
| "int_kind_name KUint32 = ''uint32''"
| "int_kind_name KUint64 = ''uint64''"

fun valueType :: "val \<Rightarrow> string" where
  "valueType VNil = ''null''"
| "valueType (VBool _) = ''bool''"
| "valueType (VString _) = ''string''"
| "valueType (VNumber _) = ''json.Number''"
| "valueType (VInt k _) = int_kind_name k"
| "valueType (VFloat32 _) = ''float32''"
| "valueType (VFloat64 _) = ''float64''"
| "valueType (VBytes _) = ''[]uint8''"
| "valueType (VSlice _) = ''[]interface {}''"
| "valueType (VMap _) = ''map[string]interface {}''"
| "valueType (VOther _ n _) = n"

text \<open>The body of the loop of \<^verbatim>\<open>ValidatePayload\<close>: the issues of one field.\<close>

definition field_issues :: "golib \<Rightarrow> fields \<Rightarrow> Field \<Rightarrow> TypeIssue list" where
  "field_issues L payload field =
     (let v = (case map_of payload (f_Name field) of None \<Rightarrow> VNil | Some x \<Rightarrow> x)
      in if v = VNil
         then (if f_Required field
               then [\<lparr>ti_Field = f_Name field, ti_Expected = f_Type field, ti_Actual = ''null'',
                      ti_Reason = ''required field is missing''\<rparr>] else [])
         else if \<not> matchesType L v (f_Type field)
         then [\<lparr>ti_Field = f_Name field, ti_Expected = f_Type field, ti_Actual = valueType v,
                ti_Reason = ''value has incompatible type''\<rparr>]
         else if length (f_Enum field) > 0 \<and> \<not> enumContains (f_Enum field) (Sprint L v)
         then [\<lparr>ti_Field = f_Name field, ti_Expected = Join (f_Enum field) '','', ti_Actual = Sprint L v,
                ti_Reason = ''value is not in enum''\<rparr>]
         else [])"

definition ValidatePayload :: "golib \<Rightarrow> fields \<Rightarrow> Field list \<Rightarrow> TypeIssue list" where
  "ValidatePayload L payload schemaFields = concat (map (field_issues L payload) schemaFields)"

section \<open>What a payload must satisfy\<close>

definition conforms :: "golib \<Rightarrow> fields \<Rightarrow> Field \<Rightarrow> bool" where
  "conforms L payload field \<longleftrightarrow>
     (case map_of payload (f_Name field) of
        None \<Rightarrow> \<not> f_Required field
      | Some v \<Rightarrow> if v = VNil then \<not> f_Required field
                  else matchesType L v (f_Type field) \<and> (f_Enum field = [] \<or> Sprint L v \<in> set (f_Enum field)))"

lemma enumContains_iff [simp]: "enumContains xs s \<longleftrightarrow> s \<in> set xs"
  by (simp add: enumContains_def list_ex_iff)

lemma numericValue_integer: "isInteger L v \<Longrightarrow> \<exists>n. numericValue L v = Inr n"
  by (cases v) auto

lemma field_issues_conforms: "field_issues L payload f = [] \<longleftrightarrow> conforms L payload f"
  by (auto simp: field_issues_def conforms_def Let_def split: option.splits)

lemma field_issues_single:
  "map ti_Field (field_issues L payload f) = (if conforms L payload f then [] else [f_Name f])"
  by (auto simp: field_issues_def conforms_def Let_def split: option.splits)

lemma ValidatePayload_fields:
  "map ti_Field (ValidatePayload L payload fs) = map f_Name (filter (\<lambda>f. \<not> conforms L payload f) fs)"
  by (induction fs) (simp_all add: ValidatePayload_def field_issues_single)

lemma ValidatePayload_Nil: "ValidatePayload L payload fs = [] \<longleftrightarrow> (\<forall>f\<in>set fs. conforms L payload f)"
  by (simp add: ValidatePayload_def field_issues_conforms)

section \<open>Integers among JSON numbers\<close>

lemma bit_len_bounds: "0 < n \<Longrightarrow> 2 ^ (bit_len n - 1) \<le> n \<and> n < 2 ^ bit_len n \<and> 0 < bit_len n"
proof (induction n rule: bit_len.induct)
  case (1 n)
  show ?case
  proof (cases "n = 1")
    case True
    then show ?thesis by (simp add: bit_len.simps [of "Suc 0"] bit_len.simps [of 0])
  next
    case False
    with 1 have h: "2 ^ (bit_len (n div 2) - 1) \<le> n div 2" "n div 2 < 2 ^ bit_len (n div 2)" "0 < bit_len (n div 2)"
      by simp_all
    then obtain k where k: "bit_len (n div 2) = Suc k" by (cases "bit_len (n div 2)") auto
    with 1(2) have "bit_len n = Suc (Suc k)" by (simp add: bit_len.simps [of n])
    moreover have "2 * 2 ^ k \<le> n" "n < 4 * 2 ^ k" using h(1,2) k by simp_all
    ultimately show ?thesis by simp
  qed
qed

lemma ilog2_nat: "0 < n \<Longrightarrow> ilog2 (of_nat n) = int (bit_len n) - 1"
proof -
  assume n: "0 < n"
  have q: "quotient_of (of_nat n) = (int n, 1)"
    using quotient_of_int [of "int n"] by (simp add: Rat.of_int_def)
  have one: "bit_len (Suc 0) = 1" by (simp add: bit_len.simps [of "Suc 0"] bit_len.simps [of 0])
  note b = bit_len_bounds [OF n]
  then have "(of_nat (2 ^ (bit_len n - 1)) :: rat) \<le> of_nat n" by (simp only: of_nat_le_iff)
  with b have "pow2 (int (bit_len n) - 1) \<le> of_nat n"
    by (simp add: pow2_def nat_diff_distrib)
  then show ?thesis by (simp add: ilog2_def q one Let_def)
qed

lemma round_f64_int:
  assumes "\<bar>i\<bar> \<le> 2 ^ 53"
  shows "round_f64 (of_int i) = Fin (of_int i)"
proof (cases "i = 0")
  case True
  then show ?thesis by (simp add: round_f64_def round_fp_def)
next
  case False
  define n where "n = nat \<bar>i\<bar>"
  have n: "0 < n" "int n = \<bar>i\<bar>" "n \<le> 2 ^ 53" using False assms by (auto simp: n_def nat_le_iff)
  note b = bit_len_bounds [OF n(1)]
  have lg: "ilog2 \<bar>of_int i\<bar> = int (bit_len n) - 1"
    using ilog2_nat [OF n(1)] n(2) by (metis of_int_abs of_int_of_nat_eq)
  have "(2::nat) ^ (bit_len n - 1) \<le> 2 ^ 53" using b n(3) by linarith
  then have "bit_len n - 1 \<le> 53" by (rule power_le_imp_le_exp [rotated]) simp
  then have len: "bit_len n \<le> 54" by simp
  define e where "e = max (int (bit_len n) - 1 - 52) (- 1074 :: int)"
  obtain j where j: "(of_int i :: rat) / pow2 e = of_int j"
  proof (cases "e \<le> 0")
    case True
    then have "(of_int i :: rat) / pow2 e = of_int (i * 2 ^ nat (- e))"
      by (auto simp: pow2_def)
    then show thesis by (rule that)
  next
    case False
    with len have "e = 1" "bit_len n = 54" by (auto simp: e_def)
    with b n(3) have "n = 2 ^ 53" by simp
    then have "\<bar>i\<bar> = 2 * 2 ^ 52" using n(2) by simp
    then have "even i" by presburger
    then have "(of_int i :: rat) / pow2 e = of_int (i div 2)"
      using \<open>e = 1\<close> by (auto simp: pow2_def elim!: evenE)
    then show thesis by (rule that)
  qed
  then have r: "(of_int (half_even (of_int i / pow2 e)) :: rat) * pow2 e = of_int i"
    by (metis half_even_of_int nonzero_mult_div_cancel_right pow2_pos less_irrefl times_divide_eq_left)
  have big: "\<bar>of_int i :: rat\<bar> < pow2 1024"
  proof -
    have "(of_int \<bar>i\<bar> :: rat) \<le> of_int (2 ^ 53)" using assms by (simp only: of_int_le_iff)
    moreover have "(of_int (2 ^ 53) :: rat) < pow2 1024" by (simp add: pow2_def)
    ultimately show ?thesis by simp
  qed
  show ?thesis
    using False r big unfolding round_f64_def round_fp_def Let_def lg
    by (auto simp: e_def abs_less_iff)
qed

lemma trunc_rat_Ints: "of_int (trunc_rat x) = x \<longleftrightarrow> x \<in> \<int>"
proof
  assume "of_int (trunc_rat x) = x"
  then show "x \<in> \<int>" by (metis Ints_of_int)
next
  assume "x \<in> \<int>"
  then show "of_int (trunc_rat x) = x" by (elim Ints_cases) (simp add: trunc_rat_def)
qed

lemma trunc_rat_bound: "\<bar>x\<bar> \<le> of_int b \<Longrightarrow> \<bar>trunc_rat x\<bar> \<le> b"
  unfolding trunc_rat_def by (auto simp: abs_if floor_le_iff le_floor_iff split: if_splits) linarith+

lemma isInteger_float64:
  assumes "\<bar>x\<bar> \<le> 2 ^ 53"
  shows "isInteger L (VFloat64 (Fin x)) \<longleftrightarrow> x \<in> \<int>"
proof -
  have b: "\<bar>trunc_rat x\<bar> \<le> 2 ^ 53" using trunc_rat_bound [of x "2 ^ 53"] assms by simp
  then have "int64_of L (Fin x) = trunc_rat x" by (auto simp: int64_of_def abs_le_iff)
  then show ?thesis using round_f64_int [OF b] trunc_rat_Ints by simp
qed

lemma lower_int_names:
  "ToLower L (TrimSpace ''int'') = ''int''" "ToLower L (TrimSpace ''uint'') = ''uint''"
proof -
  have "TrimSpace ''int'' = ''int''" "TrimSpace ''uint'' = ''uint''" by code_simp+
  then show "ToLower L (TrimSpace ''int'') = ''int''" "ToLower L (TrimSpace ''uint'') = ''uint''"
    by (simp_all add: ToLower_def is_ascii_def ascii_lower_def)
qed

section \<open>Properties\<close>


text \<open>A JSON number of magnitude up to \<open>2 ^ 53\<close> is accepted for an integer field exactly when
  it is integral, and for an unsigned field exactly when it is integral and not negative.\<close>

theorem json_integer_fields:
  assumes "\<bar>x\<bar> \<le> 2 ^ 53"
  shows "(matchesType L (VFloat64 (Fin x)) ''int'' \<longleftrightarrow> x \<in> \<int>) \<and>
    (matchesType L (VFloat64 (Fin x)) ''uint'' \<longleftrightarrow> x \<in> \<int> \<and> 0 \<le> x)"
  using isInteger_float64 [OF assms, of L] by (simp add: matchesType_def Let_def lower_int_names del: isInteger.simps)

theorem json_integer_fields_witness:
  "\<bar>(3::rat)\<bar> \<le> 2 ^ 53 \<and> matchesType demo_lib (VFloat64 (Fin 3)) ''uint'' \<and>
   \<not> matchesType demo_lib (VFloat64 (Fin (- 3))) ''uint''"
  using json_integer_fields [of 3 demo_lib] json_integer_fields [of "- 3" demo_lib] by simp

end
