(* ===== verification/DeadLetter.thy ===== *)
theory DeadLetter
  imports GoLib
begin

text \<open>
  Dead letters, \<^verbatim>\<open>deadletter/domain/model.go\<close>: the state of a letter, the budget of manual
  replays and the audit trail. \<open>letter_step\<close> is the transition relation of the two methods;
  invariants are proved over the letters reachable from a new one.
\<close>

datatype letter_state = Pending | Replaying | Replayed | Poisoned

fun state_name :: "letter_state \<Rightarrow> string" where
  "state_name Pending = ''pending''"
| "state_name Replaying = ''replaying''"
| "state_name Replayed = ''replayed''"
| "state_name Poisoned = ''poisoned''"

record Audit =
  au_At :: time
  au_Action :: string
  au_Actor :: string
  au_Detail :: string

record Letter =
  l_ID :: string
  l_TenantID :: string
  l_EventID :: string
  l_Reason :: string
  l_Payload :: "fields option"
  l_State :: letter_state
  l_Attempts :: int
  l_MaxAttempts :: int
  l_CreatedAt :: time
  l_UpdatedAt :: time
  l_Audit :: "Audit list"

definition audit :: "time \<Rightarrow> string \<Rightarrow> string \<Rightarrow> string \<Rightarrow> Audit" where
  "audit t action actor detail = \<lparr>au_At = t, au_Action = action, au_Actor = actor, au_Detail = detail\<rparr>"

definition BeginReplay :: "string \<Rightarrow> time \<Rightarrow> Letter \<Rightarrow> bool \<times> Letter" where
  "BeginReplay actor t l =
     (if l_State l = Poisoned \<or> l_Attempts l \<ge> l_MaxAttempts l then (False, l)
      else (True, l\<lparr>l_State := Replaying, l_Attempts := l_Attempts l + 1, l_UpdatedAt := t,
                    l_Audit := l_Audit l @ [audit t ''replay_started'' actor ''manual replay requested'']\<rparr>))"

definition FinishReplay :: "bool \<Rightarrow> string \<Rightarrow> time \<Rightarrow> Letter \<Rightarrow> Letter" where
  "FinishReplay ok actor t l =
     l\<lparr>l_State := (if ok then Replayed else if l_Attempts l \<ge> l_MaxAttempts l then Poisoned else Pending),
       l_UpdatedAt := t,
       l_Audit := l_Audit l @ [audit t (if ok then ''replay_succeeded'' else ''replay_failed'') actor ''replay completed'']\<rparr>"

section \<open>The life of a letter\<close>

text \<open>A letter as the ingestion service makes it: pending, three replays, no attempt yet.\<close>

definition fresh_letter :: "Letter \<Rightarrow> bool" where
  "fresh_letter l \<longleftrightarrow> l_State l = Pending \<and> l_Attempts l = 0 \<and> 0 \<le> l_MaxAttempts l \<and>
     map au_Action (l_Audit l) = [''created'']"

inductive letter_step :: "Letter \<Rightarrow> Letter \<Rightarrow> bool" where
  begins: "BeginReplay actor t l = (True, l') \<Longrightarrow> letter_step l l'"
| finish: "l_State l = Replaying \<Longrightarrow> letter_step l (FinishReplay ok actor t l)"

inductive_cases letter_stepE: "letter_step l l'"

inductive letter_reach :: "Letter \<Rightarrow> Letter \<Rightarrow> bool" for l0 where
  start: "letter_reach l0 l0"
| step: "letter_reach l0 l \<Longrightarrow> letter_step l l' \<Longrightarrow> letter_reach l0 l'"

definition started :: "Letter \<Rightarrow> int" where
  "started l = int (length (filter (\<lambda>a. au_Action a = ''replay_started'') (l_Audit l)))"

definition letter_inv :: "Letter \<Rightarrow> bool" where
  "letter_inv l \<longleftrightarrow> 0 \<le> l_Attempts l \<and> l_Attempts l \<le> l_MaxAttempts l \<and> l_Attempts l = started l \<and>
     (l_State l = Poisoned \<longrightarrow> l_Attempts l = l_MaxAttempts l) \<and>
     (l_State l = Replaying \<longrightarrow> 0 < l_Attempts l)"

lemma BeginReplay_True:
  "BeginReplay actor t l = (True, l') \<longleftrightarrow> l_State l \<noteq> Poisoned \<and> l_Attempts l < l_MaxAttempts l \<and>
     l' = l\<lparr>l_State := Replaying, l_Attempts := l_Attempts l + 1, l_UpdatedAt := t,
            l_Audit := l_Audit l @ [audit t ''replay_started'' actor ''manual replay requested'']\<rparr>"
  by (auto simp: BeginReplay_def)

lemma BeginReplay_False: "BeginReplay actor t l = (False, l') \<Longrightarrow> l' = l"
  by (auto simp: BeginReplay_def split: if_splits)

lemma fresh_letter_inv: "fresh_letter l \<Longrightarrow> letter_inv l"
proof -
  assume f: "fresh_letter l"
  then obtain a where "l_Audit l = [a]" "au_Action a = ''created''"
    by (auto simp: fresh_letter_def map_eq_Cons_conv)
  with f show ?thesis by (simp add: letter_inv_def started_def fresh_letter_def)
qed

lemma letter_step_inv: "letter_step l l' \<Longrightarrow> letter_inv l \<Longrightarrow> letter_inv l'"
  by (erule letter_stepE)
    (auto simp: BeginReplay_True letter_inv_def started_def FinishReplay_def audit_def)

lemma letter_step_frame:
  "letter_step l l' \<Longrightarrow> l_ID l' = l_ID l \<and> l_TenantID l' = l_TenantID l \<and> l_EventID l' = l_EventID l \<and>
     l_Payload l' = l_Payload l \<and> l_MaxAttempts l' = l_MaxAttempts l \<and> prefix (l_Audit l) (l_Audit l')"
  by (erule letter_stepE) (auto simp: BeginReplay_True FinishReplay_def)

lemma letter_reach_inv:
  "letter_reach l0 l \<Longrightarrow> letter_inv l0 \<Longrightarrow>
   letter_inv l \<and> prefix (l_Audit l0) (l_Audit l) \<and> l_MaxAttempts l = l_MaxAttempts l0"
proof (induction rule: letter_reach.induct)
  case (step l l')
  then show ?case using letter_step_inv letter_step_frame prefix_order.trans by metis
qed simp

section \<open>Sample letter\<close>

definition demo_letter :: Letter where
  "demo_letter = \<lparr>l_ID = ''l'', l_TenantID = ''acme'', l_EventID = ''e'', l_Reason = ''payload is required'',
     l_Payload = None, l_State = Pending, l_Attempts = 0, l_MaxAttempts = 3, l_CreatedAt = 1, l_UpdatedAt = 1,
     l_Audit = [audit 1 ''created'' ''gateway'' ''validation failure'']\<rparr>"

lemma demo_letter_fresh: "fresh_letter demo_letter"
  by (simp add: fresh_letter_def demo_letter_def audit_def)

definition demo_replaying :: Letter where
  "demo_replaying = snd (BeginReplay ''op'' 2 demo_letter)"

lemma demo_begin: "BeginReplay ''op'' 2 demo_letter = (True, demo_replaying)"
  by (simp add: demo_replaying_def BeginReplay_def demo_letter_def)

section \<open>Properties\<close>

text \<open>C35: replay is bounded: from a fresh letter, whatever sequence of replays, the attempts equal
  the replays recorded as started, never exceed the budget, and a poisoned letter has spent all of it;
  the audit trail only grows.\<close>

theorem replay_bounded:
  assumes "fresh_letter l0" and "letter_reach l0 l"
  shows "letter_inv l \<and> l_MaxAttempts l = l_MaxAttempts l0 \<and> prefix (l_Audit l0) (l_Audit l)"
  using letter_reach_inv [OF assms(2) fresh_letter_inv [OF assms(1)]] by simp

theorem replay_bounded_witness: "letter_inv demo_replaying \<and> l_MaxAttempts demo_replaying = 3"
proof -
  have "letter_reach demo_letter demo_replaying"
    by (rule letter_reach.step [OF letter_reach.start letter_step.begins [OF demo_begin]])
  from replay_bounded [OF demo_letter_fresh this] show ?thesis by (simp add: demo_letter_def)
qed

text \<open>A poisoned letter is final: no replay of it begins and no step changes it; and the last
  allowed replay, when it fails, poisons the letter.\<close>

theorem poisoned_final:
  shows "(l_State l = Poisoned \<longrightarrow> BeginReplay actor t l = (False, l) \<and> (\<forall>l'. \<not> letter_step l l')) \<and>
    (l_Attempts l = l_MaxAttempts l \<longrightarrow> l_State (FinishReplay False actor t l) = Poisoned)"
  by (auto simp: BeginReplay_def BeginReplay_True FinishReplay_def elim: letter_stepE)

theorem poisoned_final_witness:
  "l_State (FinishReplay False ''op'' 3 (demo_replaying\<lparr>l_MaxAttempts := 1\<rparr>)) = Poisoned"
  using poisoned_final [of "demo_replaying\<lparr>l_MaxAttempts := 1\<rparr>" "''op''" 3]
  by (simp add: demo_replaying_def BeginReplay_def demo_letter_def)

text \<open>A letter that was replayed with success is not final: as long as its budget is not
  spent, a replay of it begins again.\<close>

theorem replayed_can_restart:
  assumes "l_State l = Replayed" and "l_Attempts l < l_MaxAttempts l"
  shows "\<exists>l'. BeginReplay actor t l = (True, l') \<and> l_State l' = Replaying"
  using assms by (simp add: BeginReplay_def)

theorem replayed_can_restart_witness:
  "l_State (FinishReplay True ''op'' 3 demo_replaying) = Replayed \<and>
   (\<exists>l'. BeginReplay ''op'' 4 (FinishReplay True ''op'' 3 demo_replaying) = (True, l') \<and> l_State l' = Replaying)"
proof -
  let ?l = "FinishReplay True ''op'' 3 demo_replaying"
  have "l_State ?l = Replayed" "l_Attempts ?l < l_MaxAttempts ?l"
    by (simp_all add: FinishReplay_def demo_replaying_def BeginReplay_def demo_letter_def)
  from replayed_can_restart [OF this] this(1) show ?thesis by blast
qed

end
