(* ===== verification/Ingestion.thy ===== *)
theory Ingestion
  imports ContractModel PolicyCatalog TypeCheck DeadLetter
begin

text \<open>
  The ingestion service: \<^verbatim>\<open>ingestion/domain/model.go\<close>, \<^verbatim>\<open>lineage/domain/model.go\<close> and
  \<^verbatim>\<open>ingestion/application\<close> (\<^verbatim>\<open>service.go\<close>, \<^verbatim>\<open>policy.go\<close>). \<open>Service\<close> is the
  struct with its maps; the interface \<^verbatim>\<open>ContractLookup\<close> is the argument \<open>contracts\<close>, a lookup by
  tenant and identifier. \<open>Publish\<close> is composed of the sections between which the code releases its
  mutex: \<open>publish_admit\<close> (idempotency and quota), \<open>validate\<close> and \<open>publish_commit\<close>. Every
  reading of the clock and every identifier drawn is taken from the world in the order of the code.
\<close>

section \<open>Data\<close>

record Event =
  ev_ID :: string
  ev_TenantID :: string
  ev_ContractID :: string
  ev_SchemaVersion :: int
  ev_IdempotencyKey :: string
  ev_PartitionKey :: string
  ev_OccurredAt :: time
  ev_Payload :: "fields option"   \<comment> \<open>None is the nil map\<close>
  ev_Signature :: string
  ev_ReceivedAt :: time

datatype Status = NoStatus | Accepted | Rejected | DeadLettered

fun status_name :: "Status \<Rightarrow> string" where
  "status_name NoStatus = ''''"
| "status_name Accepted = ''accepted''"
| "status_name Rejected = ''rejected''"
| "status_name DeadLettered = ''dead_lettered''"

record Attempt =
  at_ID :: string
  at_EventID :: string
  at_Number :: int
  at_Status :: Status
  at_Reasons :: "string list"
  at_Duration :: duration
  at_At :: time

record Receipt =
  rp_EventID :: string
  rp_Status :: Status
  rp_Duplicate :: bool
  rp_AttemptID :: string
  rp_Reasons :: "string list"
  rp_ProcessingDuration :: duration

record LineageAttempt =
  la_ID :: string
  la_Stage :: string
  la_Outcome :: string
  la_At :: time
  la_Duration :: duration
  la_Detail :: string

record LineageRecord =
  lr_EventID :: string
  lr_ContractID :: string
  lr_ProducerID :: string
  lr_ConsumerIDs :: "string list"
  lr_ParentEventIDs :: "string list"
  lr_ValidationSummary :: string
  lr_Attempts :: "LineageAttempt list"
  lr_RetainUntil :: time
  lr_CreatedAt :: time

record quota =
  qt_start :: time
  qt_count :: int

record Service =
  sv_secret :: string
  sv_maxQuota :: int
  sv_seen :: "Receipt gomap"
  sv_events :: "Event gomap"
  sv_attempts :: "Attempt list gomap"
  sv_letters :: "Letter gomap"
  sv_lineages :: "LineageRecord gomap"
  sv_rules :: "Rule list gomap"
  sv_catalog :: Catalog
  sv_usage :: "quota gomap"

type_synonym lookup = "string \<Rightarrow> string \<Rightarrow> Contract result"

definition NewService :: "string \<Rightarrow> int \<Rightarrow> Service" where
  "NewService secret maxQuota = \<lparr>sv_secret = secret, sv_maxQuota = maxQuota, sv_seen = [], sv_events = [],
     sv_attempts = [], sv_letters = [], sv_lineages = [], sv_rules = [], sv_catalog = NewCatalog 10, sv_usage = []\<rparr>"

text \<open>Reads of a missing key give the zero value.\<close>

definition entries :: "fields option \<Rightarrow> fields" where
  "entries p = (case p of None \<Rightarrow> [] | Some m \<Rightarrow> m)"

definition zero_event :: Event where
  "zero_event = \<lparr>ev_ID = '''', ev_TenantID = '''', ev_ContractID = '''', ev_SchemaVersion = 0,
     ev_IdempotencyKey = '''', ev_PartitionKey = '''', ev_OccurredAt = 0, ev_Payload = None,
     ev_Signature = '''', ev_ReceivedAt = 0\<rparr>"

text \<open>The state of a zero letter is never read: \<^verbatim>\<open>FinishReplay\<close> assigns it first.\<close>

definition zero_letter :: Letter where
  "zero_letter = \<lparr>l_ID = '''', l_TenantID = '''', l_EventID = '''', l_Reason = '''', l_Payload = None,
     l_State = Pending, l_Attempts = 0, l_MaxAttempts = 0, l_CreatedAt = 0, l_UpdatedAt = 0, l_Audit = []\<rparr>"

definition rules_of :: "Service \<Rightarrow> string \<Rightarrow> Rule list" where
  "rules_of s cid = (case map_of (sv_rules s) cid of None \<Rightarrow> [] | Some rs \<Rightarrow> rs)"

definition attempts_of :: "Service \<Rightarrow> string \<Rightarrow> Attempt list" where
  "attempts_of s eid = (case map_of (sv_attempts s) eid of None \<Rightarrow> [] | Some xs \<Rightarrow> xs)"

definition usage_of :: "Service \<Rightarrow> string \<Rightarrow> quota" where
  "usage_of s tenant = (case map_of (sv_usage s) tenant of None \<Rightarrow> \<lparr>qt_start = 0, qt_count = 0\<rparr> | Some q \<Rightarrow> q)"

section \<open>Policy\<close>

fun validate_each :: "golib \<Rightarrow> Rule list \<Rightarrow> unit result" where
  "validate_each L [] = Inr ()"
| "validate_each L (r # rs) = (case Rule_Validate L r of Inl e \<Rightarrow> Inl e | Inr _ \<Rightarrow> validate_each L rs)"

definition SetRules ::
  "golib \<Rightarrow> order \<Rightarrow> string \<Rightarrow> Rule list \<Rightarrow> Service \<Rightarrow> world \<Rightarrow> unit result \<times> Service \<times> world" where
  "SetRules L p cid rules s w =
     (case validate_each L rules of
        Inl e \<Rightarrow> (Inl e, s, w)
      | Inr _ \<Rightarrow>
          let version = NextVersion (sv_catalog s) cid;
              (t, w1) = now w
          in case Catalog_Put L p \<lparr>rs_ContractID = cid, rs_Version = version, rs_Rules = rules, rs_CreatedAt = t,
                      rs_CreatedBy = ''api'', rs_Active = True\<rparr> (sv_catalog s) of
               (Inl e, c') \<Rightarrow> (Inl e, s\<lparr>sv_catalog := c'\<rparr>, w1)
             | (Inr _, c') \<Rightarrow> (Inr (), s\<lparr>sv_catalog := c', sv_rules := put cid rules (sv_rules s)\<rparr>, w1))"

definition Rules :: "order \<Rightarrow> Service \<Rightarrow> string \<Rightarrow> Rule list" where
  "Rules p s cid = sort_slice p q_ID (rules_of s cid)"

definition RuleHistory :: "Service \<Rightarrow> string \<Rightarrow> RuleSet list" where
  "RuleHistory s cid = Catalog_List (sv_catalog s) cid"

definition ActivateRuleVersion :: "string \<Rightarrow> int \<Rightarrow> Service \<Rightarrow> unit result \<times> Service" where
  "ActivateRuleVersion cid version s =
     (case Catalog_Activate cid version (sv_catalog s) of
        (Inl e, c') \<Rightarrow> (Inl e, s\<lparr>sv_catalog := c'\<rparr>)
      | (Inr _, c') \<Rightarrow>
          (case Catalog_Active c' cid of
             Inl e \<Rightarrow> (Inl e, s\<lparr>sv_catalog := c'\<rparr>)
           | Inr rset \<Rightarrow> (Inr (), s\<lparr>sv_catalog := c', sv_rules := put cid (rs_Rules rset) (sv_rules s)\<rparr>)))"

definition EvaluateEvent :: "golib \<Rightarrow> string \<Rightarrow> Service \<Rightarrow> world \<Rightarrow> EvaluationSummary result \<times> world" where
  "EvaluateEvent L eid s w =
     (case map_of (sv_events s) eid of
        None \<Rightarrow> (Inl ErrEventNotFound, w)
      | Some event \<Rightarrow> Evaluate L (rules_of s (ev_ContractID event)) (entries (ev_Payload event)) w)"

definition RuleResults :: "golib \<Rightarrow> string \<Rightarrow> Service \<Rightarrow> world \<Rightarrow> RuleEvaluation list result \<times> world" where
  "RuleResults L eid s w =
     (case EvaluateEvent L eid s w of
        (Inl e, w') \<Rightarrow> (Inl e, w')
      | (Inr summary, w') \<Rightarrow> (Inr (es_Evaluations summary), w'))"

section \<open>Admission and validation\<close>

definition consumeQuota :: "string \<Rightarrow> time \<Rightarrow> Service \<Rightarrow> unit result \<times> Service" where
  "consumeQuota tenant t s =
     (let q0 = usage_of s tenant;
          q = (if IsZero (qt_start q0) \<or> Sub t (qt_start q0) \<ge> Minute
               then \<lparr>qt_start = t, qt_count = 0\<rparr> else q0)
      in if qt_count q \<ge> sv_maxQuota s then (Inl ErrQuota, s)
         else (Inr (), s\<lparr>sv_usage := put tenant (q\<lparr>qt_count := qt_count q + 1\<rparr>) (sv_usage s)\<rparr>))"

definition validSignature :: "golib \<Rightarrow> string \<Rightarrow> Event \<Rightarrow> bool" where
  "validSignature L secret e \<longleftrightarrow> ev_Signature e =
     hex (hmac_sha256 L secret (ev_ID e @ ''|'' @ ev_ContractID e @ ''|'' @ ev_IdempotencyKey e))"

text \<open>The timestamp test reads the clock a second time only when the first comparison fails.\<close>

definition outside_window :: "Event \<Rightarrow> world \<Rightarrow> bool \<times> world" where
  "outside_window e w =
     (let (t1, w1) = now w
      in if Sub t1 (ev_OccurredAt e) > 24 * Hour then (True, w1)
         else let (t2, w2) = now w1
              in (Sub (ev_OccurredAt e) t2 > 5 * Minute, w2))"

definition issue_text :: "TypeIssue \<Rightarrow> string" where
  "issue_text i = ''field '' @ ti_Field i @ '': '' @ ti_Reason i @ '' (expected '' @ ti_Expected i
     @ '', got '' @ ti_Actual i @ '')''"

fun run_rules :: "golib \<Rightarrow> fields \<Rightarrow> Rule list \<Rightarrow> world \<Rightarrow> string list result \<times> world" where
  "run_rules L payload [] w = (Inr [], w)"
| "run_rules L payload (r # rs) w =
     (if \<not> q_Enabled r then run_rules L payload rs w
      else case Rule_Execute L r payload w of
        (Inl e, w1) \<Rightarrow> (Inl e, w1)
      | (Inr res, w1) \<Rightarrow>
          (case run_rules L payload rs w1 of
             (Inl e, w2) \<Rightarrow> (Inl e, w2)
           | (Inr out, w2) \<Rightarrow>
               (Inr ((if res_Passed res then [] else [''rule '' @ q_ID r @ '': '' @ res_Reason res]) @ out), w2)))"

definition validate :: "golib \<Rightarrow> lookup \<Rightarrow> Event \<Rightarrow> Service \<Rightarrow> world \<Rightarrow> string list result \<times> world" where
  "validate L contracts e s w =
     (if ev_TenantID e = '''' then (Inr [''tenant is required''], w)
      else if ev_ContractID e = '''' then (Inr [''contract id is required''], w)
      else let out1 = (if length (entries (ev_Payload e)) = 0 then [''payload is required''] else []);
               out2 = out1 @ (if sv_secret s \<noteq> '''' \<and> \<not> validSignature L (sv_secret s) e
                              then [''invalid signature''] else []);
               (outside, w1) = outside_window e w;
               out3 = out2 @ (if outside then [''event timestamp outside allowed window''] else [])
           in case contracts (ev_TenantID e) (ev_ContractID e) of
                Inl _ \<Rightarrow> (Inr (out3 @ [''contract not found'']), w1)
              | Inr c \<Rightarrow>
                  (case version_index (ev_SchemaVersion e) (c_Versions c) of
                     None \<Rightarrow> (Inr (out3 @ [''schema version is not published'']), w1)
                   | Some i \<Rightarrow>
                       if v_Lifecycle (c_Versions c ! i) \<noteq> Published
                       then (Inr (out3 @ [''schema version is not published'']), w1)
                       else let out4 = out3 @ map issue_text (ValidatePayload L (entries (ev_Payload e))
                                         (s_Fields (v_Schema (c_Versions c ! i))))
                            in (case run_rules L (entries (ev_Payload e)) (rules_of s (ev_ContractID e)) w1 of
                                  (Inl err, w2) \<Rightarrow> (Inl err, w2)
                                | (Inr out5, w2) \<Rightarrow> (Inr (sort (out4 @ out5)), w2))))"

section \<open>Publish\<close>

definition seen_key :: "Event \<Rightarrow> string" where
  "seen_key e = ev_TenantID e @ ''/'' @ ev_IdempotencyKey e"

definition prepare_event :: "Event \<Rightarrow> world \<Rightarrow> Event \<times> time \<times> world" where
  "prepare_event e w =
     (let (start, w1) = now w;
          (eid, w2) = (if ev_ID e = '''' then new_id w1 else (ev_ID e, w1))
      in (e\<lparr>ev_ID := eid, ev_OccurredAt := (if IsZero (ev_OccurredAt e) then start else ev_OccurredAt e),
            ev_ReceivedAt := start\<rparr>, start, w2))"

text \<open>The first critical section: \<open>Some\<close> receipt answers a duplicate.\<close>

definition publish_admit :: "Event \<Rightarrow> time \<Rightarrow> Service \<Rightarrow> Receipt option result \<times> Service" where
  "publish_admit e start s =
     (case map_of (sv_seen s) (seen_key e) of
        Some r \<Rightarrow> (Inr (Some (r\<lparr>rp_Duplicate := True\<rparr>)), s)
      | None \<Rightarrow>
          (case consumeQuota (ev_TenantID e) start s of
             (Inl err, s') \<Rightarrow> (Inl err, s')
           | (Inr _, s') \<Rightarrow> (Inr None, s')))"

definition new_letter :: "Event \<Rightarrow> string list \<Rightarrow> world \<Rightarrow> Letter \<times> world" where
  "new_letter e reasons w =
     (let (lid, w1) = new_id w;
          (t1, w2) = now w1;
          (t2, w3) = now w2;
          (t3, w4) = now w3
      in (\<lparr>l_ID = lid, l_TenantID = ev_TenantID e, l_EventID = ev_ID e, l_Reason = hd reasons,
           l_Payload = ev_Payload e, l_State = Pending, l_Attempts = 0, l_MaxAttempts = 3,
           l_CreatedAt = t1, l_UpdatedAt = t2,
           l_Audit = [audit t3 ''created'' ''gateway'' ''validation failure'']\<rparr>, w4))"

text \<open>The second critical section: store the event, its receipt, attempt, dead letter and lineage.\<close>

definition publish_commit ::
  "Event \<Rightarrow> string list \<Rightarrow> Receipt \<Rightarrow> Attempt \<Rightarrow> Service \<Rightarrow> world \<Rightarrow> Service \<times> world" where
  "publish_commit e reasons receipt attempt s w =
     (let s1 = s\<lparr>sv_events := put (ev_ID e) e (sv_events s),
                 sv_seen := put (seen_key e) receipt (sv_seen s),
                 sv_attempts := put (ev_ID e) (attempts_of s (ev_ID e) @ [attempt]) (sv_attempts s)\<rparr>;
          summary = (if length reasons > 0 then ''failed: '' @ hd reasons else ''passed'');
          (s2, w1) = (if length reasons > 0
                      then let (letter, w1) = new_letter e reasons w
                           in (s1\<lparr>sv_letters := put (l_ID letter) letter (sv_letters s1)\<rparr>, w1)
                      else (s1, w));
          (t1, w2) = now w1;
          (t2, w3) = now w2
      in (s2\<lparr>sv_lineages := put (ev_ID e)
               \<lparr>lr_EventID = ev_ID e, lr_ContractID = ev_ContractID e, lr_ProducerID = '''', lr_ConsumerIDs = [],
                lr_ParentEventIDs = [], lr_ValidationSummary = summary,
                lr_Attempts = [\<lparr>la_ID = at_ID attempt, la_Stage = ''validation'',
                                la_Outcome = status_name (at_Status attempt), la_At = at_At attempt,
                                la_Duration = at_Duration attempt, la_Detail = summary\<rparr>],
                lr_RetainUntil = t1 + 30 * 24 * Hour, lr_CreatedAt = t2\<rparr> (sv_lineages s2)\<rparr>, w3))"

definition Publish :: "golib \<Rightarrow> lookup \<Rightarrow> Event \<Rightarrow> Service \<Rightarrow> world \<Rightarrow> Receipt result \<times> Service \<times> world" where
  "Publish L contracts e0 s w =
     (let (e, start, w1) = prepare_event e0 w
      in if ev_IdempotencyKey e = '''' then (Inl ErrIdempotencyKey, s, w1)
         else case publish_admit e start s of
           (Inl err, s1) \<Rightarrow> (Inl err, s1, w1)
         | (Inr (Some r), s1) \<Rightarrow> (Inr r, s1, w1)
         | (Inr None, s1) \<Rightarrow>
             (case validate L contracts e s1 w1 of
                (Inl err, w2) \<Rightarrow> (Inl err, s1, w2)
              | (Inr reasons, w2) \<Rightarrow>
                  let status = (if length reasons > 0 then DeadLettered else Accepted);
                      (aid, w3) = new_id w2;
                      (t1, w4) = now w3;
                      receipt = \<lparr>rp_EventID = ev_ID e, rp_Status = status, rp_Duplicate = False,
                                 rp_AttemptID = aid, rp_Reasons = reasons, rp_ProcessingDuration = Sub t1 start\<rparr>;
                      (t2, w5) = now w4;
                      attempt = \<lparr>at_ID = aid, at_EventID = ev_ID e, at_Number = 1, at_Status = status,
                                 at_Reasons = reasons, at_Duration = Sub t1 start, at_At = t2\<rparr>;
                      (s2, w6) = publish_commit e reasons receipt attempt s1 w5
                  in (Inr receipt, s2, w6)))"

section \<open>Reads and replay\<close>

definition GetLineage :: "Service \<Rightarrow> string \<Rightarrow> LineageRecord result" where
  "GetLineage s eid = (case map_of (sv_lineages s) eid of None \<Rightarrow> Inl ErrEventLineage | Some v \<Rightarrow> Inr v)"

definition Attempts :: "Service \<Rightarrow> string \<Rightarrow> Attempt list" where
  "Attempts s eid = attempts_of s eid"

definition Quality :: "Service \<Rightarrow> string \<Rightarrow> string list result" where
  "Quality s eid = (case map_of (sv_attempts s) eid of
       None \<Rightarrow> Inl ErrEventNotFound
     | Some a \<Rightarrow> if length a = 0 then Inr [] else Inr (at_Reasons (last a)))"

definition Replay ::
  "golib \<Rightarrow> lookup \<Rightarrow> string \<Rightarrow> string \<Rightarrow> Service \<Rightarrow> world \<Rightarrow> Receipt result \<times> Service \<times> world" where
  "Replay L contracts lid actor s w =
     (case map_of (sv_letters s) lid of
        None \<Rightarrow> (Inl ErrLetterNotFound, s, w)
      | Some l0 \<Rightarrow>
          let (t, w1) = now w
          in case BeginReplay actor t l0 of
               (False, _) \<Rightarrow> (Inl ErrLetterReplay, s, w1)
             | (True, l) \<Rightarrow>
                 let e0 = (case map_of (sv_events s) (l_EventID l) of None \<Rightarrow> zero_event | Some e \<Rightarrow> e);
                     (key, w2) = new_id w1;
                     e = e0\<lparr>ev_IdempotencyKey := key\<rparr>;
                     s1 = s\<lparr>sv_letters := put lid l (sv_letters s)\<rparr>;
                     (r, s2, w3) = Publish L contracts e s1 w2
                 in if is_panic r then (r, s2, w3)
                    else let l2 = (case map_of (sv_letters s2) lid of None \<Rightarrow> zero_letter | Some x \<Rightarrow> x);
                             ok = (case r of Inr receipt \<Rightarrow> rp_Status receipt = Accepted | Inl _ \<Rightarrow> False);
                             (t2, w4) = now w3
                         in (r, s2\<lparr>sv_letters := put lid (FinishReplay ok actor t2 l2) (sv_letters s2)\<rparr>, w4))"

definition Letters :: "orders \<Rightarrow> Service \<Rightarrow> string \<Rightarrow> Letter list" where
  "Letters \<pi> s tenant = sort_slice (\<pi> 1) l_CreatedAt
     (filter (\<lambda>l. l_TenantID l = tenant) (map snd (shuffle (\<pi> 0) (sv_letters s))))"

section \<open>Batch replay and retention\<close>

record ReplayResult =
  rr_LetterID :: string
  rr_Receipt :: "Receipt option"   \<comment> \<open>None is the zero receipt returned with an error\<close>
  rr_Error :: "error option"

definition mk_replay_result :: "string \<Rightarrow> Receipt result \<Rightarrow> ReplayResult" where
  "mk_replay_result lid r = (case r of
       Inl e \<Rightarrow> \<lparr>rr_LetterID = lid, rr_Receipt = None, rr_Error = Some e\<rparr>
     | Inr receipt \<Rightarrow> \<lparr>rr_LetterID = lid, rr_Receipt = Some receipt, rr_Error = None\<rparr>)"

text \<open>The record a replay batch stores for a letter; a panic ends the whole batch.\<close>

definition replayOne ::
  "golib \<Rightarrow> lookup \<Rightarrow> string \<Rightarrow> string \<Rightarrow> Service \<Rightarrow> world \<Rightarrow> ReplayResult result \<times> Service \<times> world" where
  "replayOne L contracts lid actor s w =
     (let (r, s', w') = Replay L contracts lid actor s w
      in (if is_panic r then Inl (projl r) else Inr (mk_replay_result lid r), s', w'))"

fun replay_batch ::
  "golib \<Rightarrow> lookup \<Rightarrow> string option \<Rightarrow> string list \<Rightarrow> string \<Rightarrow> Service \<Rightarrow> world
     \<Rightarrow> ReplayResult list result \<times> Service \<times> world" where
  "replay_batch L contracts tenant [] actor s w = (Inr [], s, w)"
| "replay_batch L contracts tenant (lid # ids) actor s w =
     (let (r, s1, w1) =
        (if TrimSpace lid = '''' then (Inr \<lparr>rr_LetterID = lid, rr_Receipt = None, rr_Error = Some ErrLetterIDRequired\<rparr>, s, w)
         else if tenant \<noteq> None \<and>
                 (case map_of (sv_letters s) lid of None \<Rightarrow> True | Some l \<Rightarrow> l_TenantID l \<noteq> the tenant)
         then (Inr \<lparr>rr_LetterID = lid, rr_Receipt = None, rr_Error = Some ErrLetterNotFound\<rparr>, s, w)
         else replayOne L contracts lid actor s w)
      in case r of
           Inl e \<Rightarrow> (Inl e, s1, w1)
         | Inr x \<Rightarrow>
             (case replay_batch L contracts tenant ids actor s1 w1 of
                (Inl e, s2, w2) \<Rightarrow> (Inl e, s2, w2)
              | (Inr xs, s2, w2) \<Rightarrow> (Inr (x # xs), s2, w2)))"

definition ReplayMany ::
  "golib \<Rightarrow> lookup \<Rightarrow> string list \<Rightarrow> string \<Rightarrow> Service \<Rightarrow> world \<Rightarrow> ReplayResult list result \<times> Service \<times> world" where
  "ReplayMany L contracts ids actor s w =
     replay_batch L contracts None ids (if actor = '''' then ''operator'' else actor) s w"

definition ReplayManyForTenant ::
  "golib \<Rightarrow> lookup \<Rightarrow> string \<Rightarrow> string list \<Rightarrow> string \<Rightarrow> Service \<Rightarrow> world
     \<Rightarrow> ReplayResult list result \<times> Service \<times> world" where
  "ReplayManyForTenant L contracts tenant ids actor s w =
     replay_batch L contracts (Some tenant) ids (if actor = '''' then ''operator'' else actor) s w"

definition PruneExpiredLineage :: "time \<Rightarrow> Service \<Rightarrow> int \<times> Service" where
  "PruneExpiredLineage t s =
     (let expired = (\<lambda>(k, record). \<not> IsZero (lr_RetainUntil record) \<and> t > lr_RetainUntil record)
      in (int (length (filter expired (sv_lineages s))),
          s\<lparr>sv_lineages := filter (\<lambda>x. \<not> expired x) (sv_lineages s)\<rparr>))"

end
