(* ===== verification/IngestionFacts.thy ===== *)
theory IngestionFacts
  imports Ingestion
begin

text \<open>
  Facts about the ingestion service: when an event is admissible and that \<open>validate\<close> finds
  exactly the inadmissible ones, what the critical sections of \<open>Publish\<close> write, and the invariant
  \<open>sv_inv\<close> that every operation keeps.
\<close>

section \<open>Validation\<close>

definition rule_texts :: "golib \<Rightarrow> fields \<Rightarrow> Rule list \<Rightarrow> string list" where
  "rule_texts L payload rules = map (\<lambda>r. ''rule '' @ q_ID r @ '': '' @ rule_reason L payload r)
     (filter (\<lambda>r. q_Enabled r \<and> \<not> rule_passes L payload r) rules)"

lemma run_rules_valid:
  "rules_valid L rules \<Longrightarrow> run_rules L payload rules w =
     (Inr (rule_texts L payload rules), w\<lparr>ticks := ticks w + 2 * length (filter q_Enabled rules)\<rparr>)"
proof (induction rules arbitrary: w)
  case (Cons r rules)
  then show ?case by (cases "q_Enabled r") (simp_all add: Rule_Execute_valid rule_texts_def)
qed (simp add: rule_texts_def)

definition in_window :: "Event \<Rightarrow> time \<Rightarrow> time \<Rightarrow> bool" where
  "in_window e t1 t2 \<longleftrightarrow> t1 - ev_OccurredAt e \<le> 24 * Hour \<and> ev_OccurredAt e - t2 \<le> 5 * Minute"

lemma outside_window_fst:
  "fst (outside_window e w) \<longleftrightarrow> \<not> in_window e (clock w (ticks w)) (clock w (Suc (ticks w)))"
  by (auto simp: outside_window_def now_def in_window_def Sub_gt not_le)

lemma outside_window_world: "\<exists>n. snd (outside_window e w) = w\<lparr>ticks := n\<rparr> \<and> ticks w < n"
  by (auto simp: outside_window_def now_def intro: exI [of _ "Suc (ticks w)"] exI [of _ "Suc (Suc (ticks w))"])

text \<open>
  The admission policy: a tenant and a contract are named, the payload is not empty, the
  signature is right where a secret is configured, the named schema version is published, the payload
  satisfies its fields and every enabled rule of the contract.
\<close>

definition admissible :: "golib \<Rightarrow> lookup \<Rightarrow> Service \<Rightarrow> Event \<Rightarrow> bool" where
  "admissible L contracts s e \<longleftrightarrow> ev_TenantID e \<noteq> '''' \<and> ev_ContractID e \<noteq> '''' \<and> entries (ev_Payload e) \<noteq> [] \<and>
     (sv_secret s = '''' \<or> validSignature L (sv_secret s) e) \<and>
     (case contracts (ev_TenantID e) (ev_ContractID e) of
        Inl _ \<Rightarrow> False
      | Inr c \<Rightarrow> (case version_index (ev_SchemaVersion e) (c_Versions c) of
            None \<Rightarrow> False
          | Some i \<Rightarrow> v_Lifecycle (c_Versions c ! i) = Published \<and>
              list_all (conforms L (entries (ev_Payload e))) (s_Fields (v_Schema (c_Versions c ! i))))) \<and>
     list_all (\<lambda>r. q_Enabled r \<longrightarrow> rule_passes L (entries (ev_Payload e)) r) (rules_of s (ev_ContractID e))"

lemma rule_texts_Nil:
  "rule_texts L payload rules = [] \<longleftrightarrow> list_all (\<lambda>r. q_Enabled r \<longrightarrow> rule_passes L payload r) rules"
  by (auto simp: rule_texts_def filter_empty_conv list_all_iff)

lemma sort_Nil_iff [simp]: "sort xs = [] \<longleftrightarrow> xs = []"
  by (metis length_0_conv length_sort)

lemma validate_total:
  assumes "rules_valid L (rules_of s (ev_ContractID e))"
  shows "\<exists>reasons n. validate L contracts e s w = (Inr reasons, w\<lparr>ticks := n\<rparr>) \<and> ticks w \<le> n"
proof -
  obtain n where n: "snd (outside_window e w) = w\<lparr>ticks := n\<rparr>" "ticks w < n"
    using outside_window_world by blast
  then obtain o' where "outside_window e w = (o', w\<lparr>ticks := n\<rparr>)" by (metis prod.collapse)
  with n assms show ?thesis
    by (auto simp: validate_def Let_def run_rules_valid split: sum.splits option.splits
        intro: exI [of _ n] exI [of _ "ticks w"])
qed

text \<open>\<open>validate\<close> gives no reason exactly for an admissible event inside the time window.\<close>

lemma validate_iff:
  assumes "rules_valid L (rules_of s (ev_ContractID e))"
  shows "fst (validate L contracts e s w) = Inr [] \<longleftrightarrow>
    admissible L contracts s e \<and> in_window e (clock w (ticks w)) (clock w (Suc (ticks w)))"
proof -
  obtain o' w1 where ow: "outside_window e w = (o', w1)" by fastforce
  then have o': "o' \<longleftrightarrow> \<not> in_window e (clock w (ticks w)) (clock w (Suc (ticks w)))"
    using outside_window_fst [of e w] by simp
  show ?thesis
    using run_rules_valid [OF assms, of "entries (ev_Payload e)" w1]
    by (auto simp: validate_def Let_def ow o' admissible_def rule_texts_Nil ValidatePayload_Nil list_all_iff
        split: sum.splits option.splits)
qed

section \<open>The sections of Publish\<close>

lemma prepare_event_frame:
  assumes "prepare_event e0 w = (e, start, w1)"
  shows "ev_TenantID e = ev_TenantID e0" "ev_IdempotencyKey e = ev_IdempotencyKey e0"
    "ev_ContractID e = ev_ContractID e0" "ev_SchemaVersion e = ev_SchemaVersion e0"
    "ev_Payload e = ev_Payload e0" "ev_Signature e = ev_Signature e0" "ev_PartitionKey e = ev_PartitionKey e0"
    "seen_key e = seen_key e0" "start = clock w (ticks w)" "ev_ReceivedAt e = start"
    "ev_ID e0 \<noteq> '''' \<Longrightarrow> ev_ID e = ev_ID e0" "clock w1 = clock w" "id_source w1 = id_source w"
    "ticks w1 = Suc (ticks w)"
  using assms by (auto simp: prepare_event_def now_def new_id_def seen_key_def Let_def split: if_splits)

lemma consumeQuota_frame:
  assumes "consumeQuota tenant t s = (res, s')"
  shows "s' = s\<lparr>sv_usage := sv_usage s'\<rparr>" "res = Inl err \<Longrightarrow> s' = s \<and> err = ErrQuota"
  using assms by (auto simp: consumeQuota_def Let_def split: if_splits)

lemma consumeQuota_rules: "consumeQuota tenant t s = (res, s') \<Longrightarrow> rules_of s' = rules_of s"
  by (auto simp: consumeQuota_def Let_def rules_of_def fun_eq_iff split: if_splits)

lemma new_letter_fresh:
  assumes "new_letter e reasons w = (l, w')"
  shows "fresh_letter l" "l_EventID l = ev_ID e" "l_TenantID l = ev_TenantID e" "l_Payload l = ev_Payload e"
    "l_Reason l = hd reasons" "l_MaxAttempts l = 3" "l_ID l = id_source w (drawn w)"
  using assms by (auto simp: new_letter_def now_def new_id_def fresh_letter_def audit_def)

text \<open>What the second critical section leaves in each map.\<close>

lemma publish_commit_maps:
  "sv_events (fst (publish_commit e reasons r a s w)) = put (ev_ID e) e (sv_events s)"
  "sv_seen (fst (publish_commit e reasons r a s w)) = put (seen_key e) r (sv_seen s)"
  "sv_attempts (fst (publish_commit e reasons r a s w)) = put (ev_ID e) (attempts_of s (ev_ID e) @ [a]) (sv_attempts s)"
  "sv_letters (fst (publish_commit e reasons r a s w)) =
     (if reasons = [] then sv_letters s
      else put (l_ID (fst (new_letter e reasons w))) (fst (new_letter e reasons w)) (sv_letters s))"
  "sv_rules (fst (publish_commit e reasons r a s w)) = sv_rules s"
  "sv_catalog (fst (publish_commit e reasons r a s w)) = sv_catalog s"
  "sv_usage (fst (publish_commit e reasons r a s w)) = sv_usage s"
  "sv_secret (fst (publish_commit e reasons r a s w)) = sv_secret s"
  "sv_maxQuota (fst (publish_commit e reasons r a s w)) = sv_maxQuota s"
  by (simp_all add: publish_commit_def Let_def split_beta)

lemma publish_commit_lineage:
  "\<exists>lr. sv_lineages (fst (publish_commit e reasons r a s w)) = put (ev_ID e) lr (sv_lineages s) \<and>
     lr_EventID lr = ev_ID e \<and> lr_ContractID lr = ev_ContractID e \<and>
     map la_ID (lr_Attempts lr) = [at_ID a] \<and> map la_Outcome (lr_Attempts lr) = [status_name (at_Status a)] \<and>
     lr_ValidationSummary lr = (if reasons = [] then ''passed'' else ''failed: '' @ hd reasons)"
proof (cases reasons)
  case Nil
  then show ?thesis by (auto simp: publish_commit_def Let_def split_beta)
next
  case (Cons x xs)
  then show ?thesis by (auto simp: publish_commit_def Let_def split_beta)
qed

lemma Publish_cases:
  assumes valid: "rules_valid L (rules_of s (ev_ContractID e0))" and pub: "Publish L contracts e0 s w = (res, s', w')"
  obtains (no_key) "ev_IdempotencyKey e0 = ''''" "res = Inl ErrIdempotencyKey" "s' = s"
  | (duplicate) r where "ev_IdempotencyKey e0 \<noteq> ''''" "map_of (sv_seen s) (seen_key e0) = Some r"
      "res = Inr (r\<lparr>rp_Duplicate := True\<rparr>)" "s' = s"
  | (over_quota) "ev_IdempotencyKey e0 \<noteq> ''''" "map_of (sv_seen s) (seen_key e0) = None"
      "consumeQuota (ev_TenantID e0) (clock w (ticks w)) s = (Inl ErrQuota, s)" "res = Inl ErrQuota" "s' = s"
  | (stored) e w1 s1 reasons w2 receipt attempt w5 where
      "ev_IdempotencyKey e0 \<noteq> ''''" "map_of (sv_seen s) (seen_key e0) = None"
      "prepare_event e0 w = (e, clock w (ticks w), w1)"
      "consumeQuota (ev_TenantID e0) (clock w (ticks w)) s = (Inr (), s1)"
      "validate L contracts e s1 w1 = (Inr reasons, w2)" "res = Inr receipt"
      "s' = fst (publish_commit e reasons receipt attempt s1 w5)"
      "rp_EventID receipt = ev_ID e" "rp_Reasons receipt = reasons" "\<not> rp_Duplicate receipt"
      "rp_Status receipt = (if reasons = [] then Accepted else DeadLettered)"
      "at_ID attempt = rp_AttemptID receipt" "at_EventID attempt = ev_ID e" "at_Status attempt = rp_Status receipt"
      "at_Reasons attempt = reasons" "id_source w5 = id_source w"
proof -
  obtain e start w1 where prep: "prepare_event e0 w = (e, start, w1)" by (metis prod_cases3)
  note f = prepare_event_frame [OF prep]
  show thesis
  proof (cases "ev_IdempotencyKey e0 = '''' \<or> map_of (sv_seen s) (seen_key e0) \<noteq> None")
    case True
    with pub prep f no_key duplicate show thesis
      by (auto simp: Publish_def publish_admit_def split: if_splits)
  next
    case False
    obtain q s1 where con: "consumeQuota (ev_TenantID e0) start s = (q, s1)" by fastforce
    show thesis
    proof (cases q)
      case (Inl err)
      with con consumeQuota_frame(2) [OF con] pub prep f False over_quota show thesis
        by (auto simp: Publish_def publish_admit_def)
    next
      case (Inr u)
      then obtain reasons n where val: "validate L contracts e s1 w1 = (Inr reasons, w1\<lparr>ticks := n\<rparr>)"
        using validate_total [of L s1 e contracts w1] valid f consumeQuota_rules [OF con] by auto
      let ?st = "if reasons = [] then Accepted else DeadLettered"
      define rc where "rc = \<lparr>rp_EventID = ev_ID e, rp_Status = ?st, rp_Duplicate = False,
        rp_AttemptID = id_source w1 (drawn w1), rp_Reasons = reasons, rp_ProcessingDuration = Sub (clock w1 n) start\<rparr>"
      define atm where "atm = \<lparr>at_ID = id_source w1 (drawn w1), at_EventID = ev_ID e, at_Number = 1, at_Status = ?st,
        at_Reasons = reasons, at_Duration = Sub (clock w1 n) start, at_At = clock w1 (Suc n)\<rparr>"
      let ?w5 = "w1\<lparr>drawn := Suc (drawn w1), ticks := Suc (Suc n)\<rparr>"
      obtain s2 w6 where pc: "publish_commit e reasons rc atm s1 ?w5 = (s2, w6)" by fastforce
      have "Publish L contracts e0 s w = (let (s2, w6) = publish_commit e reasons rc atm s1 ?w5 in (Inr rc, s2, w6))"
        unfolding rc_def atm_def using con Inr f False val
        by (simp add: Publish_def prep publish_admit_def now_def new_id_def Let_def)
      then have "res = Inr rc" "s' = fst (publish_commit e reasons rc atm s1 ?w5)"
        using pub pc by simp_all
      moreover have "rp_EventID rc = ev_ID e" "rp_Reasons rc = reasons" "\<not> rp_Duplicate rc" "rp_Status rc = ?st"
        "at_ID atm = rp_AttemptID rc" "at_EventID atm = ev_ID e" "at_Status atm = rp_Status rc" "at_Reasons atm = reasons"
        by (simp_all add: rc_def atm_def)
      ultimately show thesis using False con Inr f prep val by (intro stored [of e w1 s1 reasons _ rc atm ?w5]) simp_all
    qed
  qed
qed

section \<open>The invariant of the service\<close>

definition receipt_ok :: "Service \<Rightarrow> Receipt \<Rightarrow> bool" where
  "receipt_ok s r \<longleftrightarrow> \<not> rp_Duplicate r \<and>
     rp_Status r = (if rp_Reasons r = [] then Accepted else DeadLettered) \<and>
     map_of (sv_events s) (rp_EventID r) \<noteq> None \<and>
     (\<exists>a\<in>set (attempts_of s (rp_EventID r)). at_ID a = rp_AttemptID r \<and> at_EventID a = rp_EventID r \<and>
        at_Status a = rp_Status r \<and> at_Reasons a = rp_Reasons r)"

definition letter_ok :: "Service \<Rightarrow> Letter \<Rightarrow> bool" where
  "letter_ok s l \<longleftrightarrow> letter_inv l \<and> l_MaxAttempts l = 3 \<and> map_of (sv_events s) (l_EventID l) \<noteq> None"

definition maps_ok :: "Service \<Rightarrow> bool" where
  "maps_ok s \<longleftrightarrow> wf_map (sv_seen s) \<and> wf_map (sv_events s) \<and> wf_map (sv_attempts s) \<and> wf_map (sv_letters s) \<and>
     wf_map (sv_lineages s) \<and> wf_map (sv_usage s)"

definition records_ok :: "Service \<Rightarrow> bool" where
  "records_ok s \<longleftrightarrow> (\<forall>k e. map_of (sv_events s) k = Some e \<longrightarrow> ev_ID e = k \<and> attempts_of s k \<noteq> []) \<and>
     (\<forall>k r. map_of (sv_seen s) k = Some r \<longrightarrow> receipt_ok s r) \<and>
     (\<forall>k l. map_of (sv_letters s) k = Some l \<longrightarrow> l_ID l = k \<and> letter_ok s l) \<and>
     (\<forall>k lr. map_of (sv_lineages s) k = Some lr \<longrightarrow> lr_EventID lr = k \<and> map_of (sv_events s) k \<noteq> None)"

definition usage_ok :: "Service \<Rightarrow> bool" where
  "usage_ok s \<longleftrightarrow> (\<forall>k q. map_of (sv_usage s) k = Some q \<longrightarrow> 1 \<le> qt_count q \<and> qt_count q \<le> sv_maxQuota s)"

definition policy_ok :: "golib \<Rightarrow> Service \<Rightarrow> bool" where
  "policy_ok L s \<longleftrightarrow> wf_catalog L (sv_catalog s) \<and> (\<forall>cid. rules_valid L (rules_of s cid)) \<and>
     (\<forall>cid rset. Catalog_Active (sv_catalog s) cid = Inr rset \<longrightarrow> rules_of s cid = rs_Rules rset)"

definition sv_inv :: "golib \<Rightarrow> Service \<Rightarrow> bool" where
  "sv_inv L s \<longleftrightarrow> maps_ok s \<and> records_ok s \<and> usage_ok s \<and> policy_ok L s"

text \<open>No letter is left in the replaying state between operations.\<close>

definition quiet :: "Service \<Rightarrow> bool" where
  "quiet s \<longleftrightarrow> (\<forall>k l. map_of (sv_letters s) k = Some l \<longrightarrow> l_State l \<noteq> Replaying)"

lemmas inv_defs = maps_ok_def records_ok_def usage_ok_def

lemma attempts_of_put:
  "sv_attempts s' = put k xs (sv_attempts s) \<Longrightarrow> attempts_of s' j = (if j = k then xs else attempts_of s j)"
  by (simp add: attempts_of_def)

lemma sv_inv_NewService: "sv_inv L (NewService secret maxQuota)"
  using wf_NewCatalog [of L 10]
  by (simp add: sv_inv_def inv_defs policy_ok_def NewService_def rules_of_def rules_valid_def
      Catalog_Active_def sets_of_def NewCatalog_def)

lemma policy_ok_cong:
  "sv_catalog s' = sv_catalog s \<Longrightarrow> sv_rules s' = sv_rules s \<Longrightarrow> policy_ok L s' = policy_ok L s"
  by (simp add: policy_ok_def rules_of_def)

lemma ok_cong:
  assumes "sv_events s' = sv_events s" and "sv_attempts s' = sv_attempts s"
  shows "attempts_of s' = attempts_of s" "receipt_ok s' = receipt_ok s" "letter_ok s' = letter_ok s"
proof -
  show a: "attempts_of s' = attempts_of s" using assms(2) by (simp add: attempts_of_def fun_eq_iff)
  show "receipt_ok s' = receipt_ok s" unfolding receipt_ok_def a assms(1) ..
  show "letter_ok s' = letter_ok s" unfolding letter_ok_def assms(1) ..
qed

lemma records_ok_cong:
  assumes "sv_events s' = sv_events s" "sv_attempts s' = sv_attempts s" "sv_seen s' = sv_seen s"
    "sv_letters s' = sv_letters s" "sv_lineages s' = sv_lineages s"
  shows "records_ok s' = records_ok s"
  using assms ok_cong [OF assms(1,2)] by (simp add: records_ok_def)

lemma consumeQuota_inv:
  assumes "sv_inv L s" and "consumeQuota tenant t s = (res, s')"
  shows "sv_inv L s'"
proof -
  have u: "usage_ok s'"
    using assms by (auto simp: consumeQuota_def sv_inv_def usage_ok_def Let_def usage_of_def
        split: if_splits option.splits) force
  have w: "wf_map (sv_usage s')"
    using assms by (auto simp: consumeQuota_def sv_inv_def maps_ok_def Let_def split: if_splits)
  have eq: "s' = s\<lparr>sv_usage := sv_usage s'\<rparr>" by (rule consumeQuota_frame(1) [OF assms(2)])
  have "maps_ok (s\<lparr>sv_usage := sv_usage s'\<rparr>)" using assms(1) w by (simp add: sv_inv_def maps_ok_def)
  moreover have "records_ok (s\<lparr>sv_usage := sv_usage s'\<rparr>)" "policy_ok L (s\<lparr>sv_usage := sv_usage s'\<rparr>)"
    using assms(1) records_ok_cong [of "s\<lparr>sv_usage := sv_usage s'\<rparr>" s] policy_ok_cong [of "s\<lparr>sv_usage := sv_usage s'\<rparr>" s L]
    by (simp_all add: sv_inv_def)
  ultimately show ?thesis using u eq by (metis sv_inv_def)
qed

lemma publish_commit_inv:
  assumes inv: "sv_inv L s"
    and r: "rp_EventID r = ev_ID e" "rp_Reasons r = reasons" "\<not> rp_Duplicate r"
      "rp_Status r = (if reasons = [] then Accepted else DeadLettered)"
    and a: "at_ID a = rp_AttemptID r" "at_EventID a = ev_ID e" "at_Status a = rp_Status r" "at_Reasons a = reasons"
  shows "sv_inv L (fst (publish_commit e reasons r a s w))"
proof -
  define s' where "s' = fst (publish_commit e reasons r a s w)"
  obtain l w' where nl: "new_letter e reasons w = (l, w')" by fastforce
  note m = publish_commit_maps [of e reasons r a s w, folded s'_def, unfolded nl fst_conv]
  obtain lr where lin: "sv_lineages s' = put (ev_ID e) lr (sv_lineages s)" "lr_EventID lr = ev_ID e"
    using publish_commit_lineage [of e reasons r a s w, folded s'_def] by blast
  note att = attempts_of_put [OF m(3)]
  have mono: "map_of (sv_events s) k \<noteq> None \<Longrightarrow> map_of (sv_events s') k \<noteq> None" for k by (simp add: m)
  have r0: "receipt_ok s' r" using r a by (simp add: receipt_ok_def m att)
  have rs: "receipt_ok s' r'" if "receipt_ok s r'" for r'
    using that unfolding receipt_ok_def att by (auto simp: m)
  have l0: "letter_ok s' l" using new_letter_fresh [OF nl] fresh_letter_inv by (simp add: letter_ok_def m)
  have ls: "letter_ok s' l'" if "letter_ok s l'" for l' using that mono by (simp add: letter_ok_def)
  have "maps_ok s'" using inv by (simp add: sv_inv_def maps_ok_def m lin)
  moreover have "records_ok s'"
    using inv r0 rs l0 ls lin mono unfolding sv_inv_def records_ok_def by (auto simp: m att split: if_splits)
  moreover have "usage_ok s'" using inv by (simp add: sv_inv_def usage_ok_def m)
  moreover have "policy_ok L s'" using inv policy_ok_cong [of s' s L] m by (simp add: sv_inv_def)
  ultimately show ?thesis by (simp add: sv_inv_def s'_def)
qed

lemma sv_inv_rules: "sv_inv L s \<Longrightarrow> rules_valid L (rules_of s cid)"
  by (simp add: sv_inv_def policy_ok_def)

lemma Publish_inv:
  assumes "sv_inv L s" and "Publish L contracts e s w = (res, s', w')"
  shows "sv_inv L s'"
  using sv_inv_rules [OF assms(1)] assms(2)
proof (cases rule: Publish_cases)
  case (stored e' w1 s1 reasons w2 receipt attempt w5)
  have "sv_inv L s1" by (rule consumeQuota_inv [OF assms(1) stored(4)])
  from publish_commit_inv [OF this stored(8-15)] show ?thesis using stored(7) by simp
qed (use assms in simp_all)

lemma Publish_no_panic:
  assumes "sv_inv L s" and "Publish L contracts e s w = (res, s', w')"
  shows "\<not> is_panic res"
  using sv_inv_rules [OF assms(1)] assms(2)
  by (cases rule: Publish_cases) (simp_all add: is_panic_def)

text \<open>A publication that is not answered as a duplicate is accepted exactly when the event, with its
  identifier and times filled in, is admissible and inside the time window.\<close>

lemma Publish_accepted:
  assumes "sv_inv L s" and "Publish L contracts e0 s w = (Inr r, s', w')" and "\<not> rp_Duplicate r"
    and "prepare_event e0 w = (e, t, w1)"
  shows "rp_Status r = (if admissible L contracts s e \<and> in_window e (clock w (Suc (ticks w))) (clock w (Suc (Suc (ticks w))))
    then Accepted else DeadLettered)"
  using sv_inv_rules [OF assms(1)] assms(2)
proof (cases rule: Publish_cases)
  case (stored e' w1' s1 reasons w2 receipt attempt w5)
  have e: "e' = e" "w1' = w1" using stored(3) assms(4) by simp_all
  note f = prepare_event_frame [OF assms(4)]
  have rules: "rules_of s1 = rules_of s" by (rule consumeQuota_rules [OF stored(4)])
  have sec: "sv_secret s1 = sv_secret s"
    using stored(4) by (auto simp: consumeQuota_def Let_def split: if_splits)
  have "rules_valid L (rules_of s1 (ev_ContractID e))" using sv_inv_rules [OF assms(1)] rules by simp
  from validate_iff [OF this, of contracts w1] have
    "reasons = [] \<longleftrightarrow> admissible L contracts s e \<and> in_window e (clock w (Suc (ticks w))) (clock w (Suc (Suc (ticks w))))"
    using stored(5) f(12,14) e by (simp add: admissible_def rules sec)
  then show ?thesis using stored(6,11) by simp
qed (use assms(3) in simp_all)

section \<open>The other operations keep the invariant\<close>

lemma validate_each_iff: "validate_each L rules = Inr () \<longleftrightarrow> rules_valid L rules"
proof (induction rules)
  case (Cons r rules)
  then show ?case by (cases "Rule_Validate L r") simp_all
qed simp

lemma coherent_iff:
  "rule_catalog.coherent Catalog_Active live c \<longleftrightarrow>
     (\<forall>cid rset. Catalog_Active c cid = Inr rset \<longrightarrow> live cid = rs_Rules rset)"
  by (simp add: catalog.coherent_def)

lemma rules_of_put: "sv_rules s' = put cid rules (sv_rules s) \<Longrightarrow> rules_of s' = (rules_of s)(cid := rules)"
  by (auto simp: rules_of_def)

text \<open>An operation that only touches the policy keeps the rest of the invariant.\<close>

lemma policy_change_inv:
  assumes "sv_inv L s" and "policy_ok L (s\<lparr>sv_catalog := c, sv_rules := m\<rparr>)"
  shows "sv_inv L (s\<lparr>sv_catalog := c, sv_rules := m\<rparr>)"
  using assms records_ok_cong [of "s\<lparr>sv_catalog := c, sv_rules := m\<rparr>" s]
  by (simp add: sv_inv_def maps_ok_def usage_ok_def)

lemma policy_okI:
  assumes "wf_catalog L c" "\<forall>cid. rules_valid L (rules_of s cid)" "rule_catalog.coherent Catalog_Active (rules_of s) c"
    "sv_catalog s = c"
  shows "policy_ok L s"
  using assms by (simp add: policy_ok_def coherent_iff)

lemma SetRules_inv:
  assumes inv: "sv_inv L s" and op: "SetRules L p cid rules s w = (res, s', w')"
  shows "sv_inv L s'"
proof (cases "validate_each L rules")
  case (Inl e)
  with op inv show ?thesis by (simp add: SetRules_def)
next
  case (Inr u)
  let ?rs = "\<lparr>rs_ContractID = cid, rs_Version = NextVersion (sv_catalog s) cid, rs_Rules = rules,
    rs_CreatedAt = clock w (ticks w), rs_CreatedBy = ''api'', rs_Active = True\<rparr>"
  have pol: "wf_catalog L (sv_catalog s)" "\<forall>d. rules_valid L (rules_of s d)"
    "rule_catalog.coherent Catalog_Active (rules_of s) (sv_catalog s)"
    using inv by (simp_all add: sv_inv_def policy_ok_def coherent_iff)
  obtain r c' where put: "Catalog_Put L p ?rs (sv_catalog s) = (r, c')" by fastforce
  note wf' = catalog.put_inv [OF pol(1) put]
  show ?thesis
  proof (cases r)
    case Inl
    with put catalog.put_err [OF pol(1)] have "c' = sv_catalog s" by blast
    with Inl Inr op put inv show ?thesis by (simp add: SetRules_def now_def)
  next
    case r: Inr
    let ?s' = "s\<lparr>sv_catalog := c', sv_rules := put cid rules (sv_rules s)\<rparr>"
    have "s' = ?s'" using Inr op put r by (simp add: SetRules_def now_def)
    moreover have live: "rules_of ?s' = (rules_of s)(cid := rules)" by (rule rules_of_put) simp
    moreover have "policy_ok L ?s'"
    proof (rule policy_okI [OF wf'])
      show "\<forall>d. rules_valid L (rules_of ?s' d)"
        using pol(2) Inr validate_each_iff [of L rules] by (simp add: live)
      show "rule_catalog.coherent Catalog_Active (rules_of ?s') c'"
        using catalog.coherent_put [OF pol(1,3), of p ?rs c'] put r by (simp add: live)
    qed simp
    ultimately show ?thesis using policy_change_inv [OF inv] by simp
  qed
qed

lemma Activate_inv:
  assumes inv: "sv_inv L s" and op: "ActivateRuleVersion cid v s = (res, s')"
  shows "sv_inv L s'"
proof -
  have pol: "wf_catalog L (sv_catalog s)" "\<forall>d. rules_valid L (rules_of s d)"
    "rule_catalog.coherent Catalog_Active (rules_of s) (sv_catalog s)"
    using inv by (simp_all add: sv_inv_def policy_ok_def coherent_iff)
  obtain r c' where act: "Catalog_Activate cid v (sv_catalog s) = (r, c')" by fastforce
  note wf' = catalog.activate_inv [OF pol(1) act]
  have err: ?thesis if coh: "rule_catalog.coherent Catalog_Active (rules_of s) c'" and s': "s' = s\<lparr>sv_catalog := c'\<rparr>"
  proof -
    have live: "rules_of (s\<lparr>sv_catalog := c'\<rparr>) = rules_of s" by (simp add: rules_of_def fun_eq_iff)
    have "policy_ok L (s\<lparr>sv_catalog := c', sv_rules := sv_rules s\<rparr>)"
      by (rule policy_okI [OF wf']) (use pol coh live in simp_all)
    from policy_change_inv [OF inv this] show ?thesis using s' by simp
  qed
  show ?thesis
  proof (cases r)
    case (Inl e)
    with act catalog.coherent_activate_err [OF pol(1,3)] op err show ?thesis
      by (simp add: ActivateRuleVersion_def)
  next
    case (Inr u)
    with act catalog.activate_ok [OF pol(1), of cid v c'] obtain rset where rset: "Catalog_Active c' cid = Inr rset" by auto
    let ?s' = "s\<lparr>sv_catalog := c', sv_rules := put cid (rs_Rules rset) (sv_rules s)\<rparr>"
    have "s' = ?s'" using Inr op act rset by (simp add: ActivateRuleVersion_def)
    moreover have live: "rules_of ?s' = (rules_of s)(cid := rs_Rules rset)" by (rule rules_of_put) simp
    moreover have "policy_ok L ?s'"
    proof (rule policy_okI [OF wf'])
      show "\<forall>d. rules_valid L (rules_of ?s' d)"
        using pol(2) catalog.active_valid [OF wf' rset] by (simp add: live)
      show "rule_catalog.coherent Catalog_Active (rules_of ?s') c'"
        using catalog.coherent_activate [OF pol(1,3) _ rset] act Inr by (simp add: live)
    qed simp
    ultimately show ?thesis using policy_change_inv [OF inv] by simp
  qed
qed

lemma map_of_filter_Some: "wf_map m \<Longrightarrow> map_of (filter P m) k = Some v \<Longrightarrow> map_of m k = Some v"
  by (metis filter_is_subset map_of_SomeD subsetD wf_map_mem)

lemma Prune_inv:
  assumes "sv_inv L s"
  shows "sv_inv L (snd (PruneExpiredLineage t s))"
proof -
  let ?m = "sv_lineages (snd (PruneExpiredLineage t s))"
  have eq: "snd (PruneExpiredLineage t s) = s\<lparr>sv_lineages := ?m\<rparr>" by (simp add: PruneExpiredLineage_def Let_def)
  obtain P where m: "?m = filter P (sv_lineages s)" by (simp add: PruneExpiredLineage_def Let_def)
  have wf: "wf_map (sv_lineages s)" using assms by (simp add: sv_inv_def maps_ok_def)
  have "wf_map ?m" using wf by (simp add: m wf_map_def distinct_map_filter)
  moreover have sub: "map_of ?m k = Some lr \<Longrightarrow> map_of (sv_lineages s) k = Some lr" for k lr
    using map_of_filter_Some [OF wf] m by metis
  moreover have "records_ok (s\<lparr>sv_lineages := ?m\<rparr>)"
    using assms sub ok_cong [of "s\<lparr>sv_lineages := ?m\<rparr>" s] by (simp add: sv_inv_def records_ok_def)
  moreover have "policy_ok L (s\<lparr>sv_lineages := ?m\<rparr>)"
    using assms policy_ok_cong [of "s\<lparr>sv_lineages := ?m\<rparr>" s L] by (simp add: sv_inv_def)
  ultimately have "sv_inv L (s\<lparr>sv_lineages := ?m\<rparr>)"
    using assms by (simp add: sv_inv_def maps_ok_def usage_ok_def)
  then show ?thesis using eq by simp
qed

subsection \<open>Replay\<close>

lemma BeginReplay_ok:
  "letter_ok s l \<Longrightarrow> BeginReplay actor t l = (True, l') \<Longrightarrow> letter_ok s l' \<and> l_ID l' = l_ID l \<and> l_EventID l' = l_EventID l"
  using letter_step_inv [OF letter_step.begins] letter_step_frame [OF letter_step.begins] by (simp add: letter_ok_def)

lemma FinishReplay_ok: "letter_ok s l \<Longrightarrow> letter_ok s (FinishReplay ok actor t l) \<and> l_ID (FinishReplay ok actor t l) = l_ID l"
  by (auto simp: letter_ok_def letter_inv_def FinishReplay_def started_def audit_def)

lemma put_letter_inv:
  assumes "sv_inv L s" and "letter_ok s l" and "l_ID l = lid"
  shows "sv_inv L (s\<lparr>sv_letters := put lid l (sv_letters s)\<rparr>)"
  using assms ok_cong [of "s\<lparr>sv_letters := put lid l (sv_letters s)\<rparr>" s]
    policy_ok_cong [of "s\<lparr>sv_letters := put lid l (sv_letters s)\<rparr>" s L]
  by (auto simp: sv_inv_def maps_ok_def usage_ok_def records_ok_def)

lemma sv_inv_letter:
  assumes "sv_inv L s" and "map_of (sv_letters s) lid = Some l"
  shows "letter_ok s l" "l_ID l = lid"
  using assms by (auto simp: sv_inv_def records_ok_def)

text \<open>A publication keeps the letters that exist, except one whose identifier is drawn again.\<close>

lemma Publish_letters:
  assumes "sv_inv L s" and "Publish L contracts e s w = (res, s', w')" and "map_of (sv_letters s) k = Some l"
  shows "\<exists>l'. map_of (sv_letters s') k = Some l' \<and> (l' = l \<or> fresh_letter l' \<and> k \<in> range (id_source w))"
  using sv_inv_rules [OF assms(1)] assms(2)
proof (cases rule: Publish_cases)
  case (stored e' w1 s1 reasons w2 receipt attempt w5)
  have "sv_letters s1 = sv_letters s" using consumeQuota_frame(1) [OF stored(4)] by (metis Service.select_convs(6) Service.surjective Service.update_convs(10))
  moreover have "fresh_letter (fst (new_letter e' reasons w5))" "l_ID (fst (new_letter e' reasons w5)) \<in> range (id_source w)"
    using new_letter_fresh(1,7) stored(16) by (metis prod.collapse rangeI)+
  ultimately show ?thesis using assms(3) stored(7) by (auto simp: publish_commit_maps)
qed (use assms in simp_all)

lemma Replay_cases:
  assumes inv: "sv_inv L s" and rep: "Replay L contracts lid actor s w = (res, s', w')"
  obtains (missing) "map_of (sv_letters s) lid = None" "res = Inl ErrLetterNotFound" "s' = s"
  | (refused) l where "map_of (sv_letters s) lid = Some l" "l_State l = Poisoned \<or> l_Attempts l \<ge> 3"
      "res = Inl ErrLetterReplay" "s' = s"
  | (ran) l l1 e w2 s1 s2 w3 l2 t2 where "map_of (sv_letters s) lid = Some l" "l_Attempts l < 3"
      "BeginReplay actor (clock w (ticks w)) l = (True, l1)" "map_of (sv_events s) (l_EventID l) = Some e"
      "s1 = s\<lparr>sv_letters := put lid l1 (sv_letters s)\<rparr>" "sv_inv L s1"
      "Publish L contracts (e\<lparr>ev_IdempotencyKey := id_source w (drawn w)\<rparr>) s1 w2 = (res, s2, w3)"
      "id_source w2 = id_source w" "drawn w2 = Suc (drawn w)"
      "map_of (sv_letters s2) lid = Some l2" "l2 = l1 \<or> fresh_letter l2 \<and> lid \<in> range (id_source w)"
      "s' = s2\<lparr>sv_letters := put lid (FinishReplay (\<exists>r. res = Inr r \<and> rp_Status r = Accepted) actor t2 l2) (sv_letters s2)\<rparr>"
proof (cases "map_of (sv_letters s) lid")
  case None
  show thesis by (rule missing) (use rep None in \<open>simp_all add: Replay_def\<close>)
next
  case (Some l)
  note l = sv_inv_letter [OF inv Some]
  obtain b l1 where beg: "BeginReplay actor (clock w (ticks w)) l = (b, l1)" by fastforce
  show thesis
  proof (cases b)
    case False
    with beg l have "l_State l = Poisoned \<or> l_Attempts l \<ge> 3" by (auto simp: BeginReplay_def letter_ok_def split: if_splits)
    then show thesis using beg False Some rep by (intro refused [OF Some]) (simp_all add: Replay_def now_def)
  next
    case True
    then have ok: "letter_ok s l1 \<and> l_ID l1 = l_ID l \<and> l_EventID l1 = l_EventID l"
      using BeginReplay_ok [OF l(1)] beg by simp
    obtain e where e: "map_of (sv_events s) (l_EventID l) = Some e" using l by (auto simp: letter_ok_def)
    let ?s1 = "s\<lparr>sv_letters := put lid l1 (sv_letters s)\<rparr>"
    let ?w2 = "w\<lparr>ticks := Suc (ticks w), drawn := Suc (drawn w)\<rparr>"
    have inv1: "sv_inv L ?s1" using put_letter_inv [OF inv] ok l by simp
    obtain r s2 w3 where pub: "Publish L contracts (e\<lparr>ev_IdempotencyKey := id_source w (drawn w)\<rparr>) ?s1 ?w2 = (r, s2, w3)"
      by (metis prod_cases3)
    obtain l2 where l2: "map_of (sv_letters s2) lid = Some l2" "l2 = l1 \<or> fresh_letter l2 \<and> lid \<in> range (id_source w)"
      using Publish_letters [OF inv1 pub, of lid l1] by auto
    have np: "\<not> is_panic r" by (rule Publish_no_panic [OF inv1 pub])
    have ok': "(case r of Inl _ \<Rightarrow> False | Inr x \<Rightarrow> rp_Status x = Accepted) = (\<exists>x. r = Inr x \<and> rp_Status x = Accepted)"
      by (cases r) simp_all
    have att: "l_Attempts l < 3" using beg True l by (auto simp: BeginReplay_True letter_ok_def)
    have "res = r" "s' = s2\<lparr>sv_letters := put lid (FinishReplay (\<exists>x. r = Inr x \<and> rp_Status x = Accepted) actor (clock w3 (ticks w3)) l2) (sv_letters s2)\<rparr>"
      using rep Some beg True e pub l2 np ok ok' by (auto simp add: Replay_def now_def new_id_def)
    with Some att beg True e inv1 pub l2 show thesis by (intro ran [of l l1 e ?s1 ?w2 s2 w3 l2]) simp_all
  qed
qed

lemma Replay_inv:
  assumes "sv_inv L s" and "Replay L contracts lid actor s w = (res, s', w')"
  shows "sv_inv L s'"
  using assms
proof (cases rule: Replay_cases)
  case (ran l l1 e w2 s1 s2 w3 l2 t2)
  have "sv_inv L s2" by (rule Publish_inv [OF ran(6,7)])
  with put_letter_inv [OF this] FinishReplay_ok sv_inv_letter [OF this ran(10)] ran(12) show ?thesis by simp
qed (use assms in simp_all)

lemma Replay_no_panic:
  assumes "sv_inv L s" and "Replay L contracts lid actor s w = (res, s', w')"
  shows "\<not> is_panic res"
  using assms
proof (cases rule: Replay_cases)
  case (ran l l1 e w2 s1 s2 w3 l2 t2)
  show ?thesis by (rule Publish_no_panic [OF ran(6,7)])
qed (simp_all add: is_panic_def)

end
