(* ===== verification/IngestionProps.thy ===== *)
theory IngestionProps
  imports IngestionFacts
begin

text \<open>
  Properties of the ingestion service over every sequence of its operations. \<open>service_step\<close> is
  one operation that changes state, with any contract lookup, clock and identifier source, whatever
  its result; \<open>service_reach\<close> collects the states that follow from a new service.
\<close>

section \<open>Sequences of operations\<close>

inductive service_step :: "golib \<Rightarrow> Service \<Rightarrow> Service \<Rightarrow> bool" for L where
  publish: "Publish L contracts e s w = (res, s', w') \<Longrightarrow> service_step L s s'"
| replay: "Replay L contracts lid actor s w = (res2, s', w') \<Longrightarrow> service_step L s s'"
| set_rules: "SetRules L p cid rules s w = (res3, s', w') \<Longrightarrow> service_step L s s'"
| activate: "ActivateRuleVersion cid v s = (res3, s') \<Longrightarrow> service_step L s s'"
| prune: "PruneExpiredLineage t s = (n, s') \<Longrightarrow> service_step L s s'"

inductive_cases service_stepE: "service_step L s s'"

inductive service_reach :: "golib \<Rightarrow> string \<Rightarrow> int \<Rightarrow> Service \<Rightarrow> bool" for L secret maxQuota where
  start: "service_reach L secret maxQuota (NewService secret maxQuota)"
| step: "service_reach L secret maxQuota s \<Longrightarrow> service_step L s s' \<Longrightarrow> service_reach L secret maxQuota s'"

lemma service_step_inv: "service_step L s s' \<Longrightarrow> sv_inv L s \<Longrightarrow> sv_inv L s'"
  by (erule service_stepE)
    (auto intro: Publish_inv Replay_inv SetRules_inv Activate_inv dest: Prune_inv [where s = s] simp: prod_eq_iff)

lemma service_reach_inv: "service_reach L secret maxQuota s \<Longrightarrow> sv_inv L s"
  by (induction rule: service_reach.induct) (auto intro: sv_inv_NewService service_step_inv)

lemma consumeQuota_keeps:
  assumes "consumeQuota tenant t s = (res, s')"
  shows "sv_seen s' = sv_seen s" "sv_events s' = sv_events s" "sv_letters s' = sv_letters s" "sv_attempts s' = sv_attempts s"
    "sv_secret s' = sv_secret s" "sv_maxQuota s' = sv_maxQuota s" "sv_rules s' = sv_rules s" "sv_lineages s' = sv_lineages s"
  using assms by (auto simp: consumeQuota_def Let_def split: if_splits)

text \<open>A receipt once stored under a key stays.\<close>

lemma Publish_seen:
  assumes "sv_inv L s" and "Publish L contracts e s w = (res, s', w')" and "map_of (sv_seen s) k = Some r"
  shows "map_of (sv_seen s') k = Some r"
  using sv_inv_rules [OF assms(1)] assms(2)
proof (cases rule: Publish_cases)
  case (stored e' w1 s1 reasons w2 receipt attempt w5)
  have "seen_key e' = seen_key e" by (rule prepare_event_frame(8) [OF stored(3)])
  with stored(2,7) consumeQuota_keeps(1) [OF stored(4)] assms(3) show ?thesis by (auto simp: publish_commit_maps)
qed (use assms in simp_all)

lemma Replay_seen:
  assumes "sv_inv L s" and "Replay L contracts lid actor s w = (res, s', w')" and "map_of (sv_seen s) k = Some r"
  shows "map_of (sv_seen s') k = Some r"
  using assms(1,2)
proof (cases rule: Replay_cases)
  case (ran l l1 e w2 s1 s2 w3 l2 t2)
  have "map_of (sv_seen s1) k = Some r" using ran(5) assms(3) by simp
  from Publish_seen [OF ran(6,7) this] show ?thesis using ran(12) by simp
qed (use assms in simp_all)

lemma service_step_seen:
  assumes "service_step L s s'" and "sv_inv L s" and "map_of (sv_seen s) k = Some r"
  shows "map_of (sv_seen s') k = Some r"
  using assms(1)
proof (cases rule: service_step.cases)
  case publish
  then show ?thesis using Publish_seen assms(2,3) by blast
next
  case replay
  then show ?thesis using Replay_seen assms(2,3) by blast
next
  case set_rules
  then show ?thesis using assms(3) by (auto simp: SetRules_def now_def split: sum.splits prod.splits)
next
  case activate
  then show ?thesis using assms(3) by (auto simp: ActivateRuleVersion_def split: sum.splits prod.splits)
next
  case prune
  then show ?thesis using assms(3) by (auto simp: PruneExpiredLineage_def Let_def)
qed

lemma service_steps_seen:
  "(service_step L)\<^sup>*\<^sup>* s s' \<Longrightarrow> sv_inv L s \<Longrightarrow> map_of (sv_seen s) k = Some r \<Longrightarrow>
   sv_inv L s' \<and> map_of (sv_seen s') k = Some r"
proof (induction rule: rtranclp_induct)
  case (step s1 s2)
  then show ?case using service_step_inv service_step_seen by blast
qed simp

lemma Publish_duplicate:
  assumes "map_of (sv_seen s) (seen_key e) = Some r" and "ev_IdempotencyKey e \<noteq> ''''"
  shows "\<exists>w'. Publish L contracts e s w = (Inr (r\<lparr>rp_Duplicate := True\<rparr>), s, w')"
proof -
  obtain e' start w1 where prep: "prepare_event e w = (e', start, w1)" by (metis prod_cases3)
  note f = prepare_event_frame [OF prep]
  show ?thesis using assms f by (simp add: Publish_def prep publish_admit_def)
qed

text \<open>A publication that returns a receipt leaves it, not marked as a duplicate, under its key.\<close>

lemma Publish_remembers:
  assumes "sv_inv L s" and "Publish L contracts e s w = (Inr r, s', w')"
  shows "ev_IdempotencyKey e \<noteq> '''' \<and> (\<exists>r0. map_of (sv_seen s') (seen_key e) = Some r0 \<and> (r = r0 \<or> r = r0\<lparr>rp_Duplicate := True\<rparr>))"
  using sv_inv_rules [OF assms(1)] assms(2)
proof (cases rule: Publish_cases)
  case (stored e' w1 s1 reasons w2 receipt attempt w5)
  have "seen_key e' = seen_key e" by (rule prepare_event_frame(8) [OF stored(3)])
  with stored show ?thesis by (simp add: publish_commit_maps)
qed auto

section \<open>Quiet states\<close>

lemma Publish_new_letters:
  assumes "sv_inv L s" and "Publish L contracts e s w = (res, s', w')" and "map_of (sv_letters s') k = Some l"
  shows "map_of (sv_letters s) k = Some l \<or> fresh_letter l"
  using sv_inv_rules [OF assms(1)] assms(2)
proof (cases rule: Publish_cases)
  case (stored e' w1 s1 reasons w2 receipt attempt w5)
  have "fresh_letter (fst (new_letter e' reasons w5))" using new_letter_fresh(1) by (metis prod.collapse)
  with stored(7) assms(3) consumeQuota_keeps(3) [OF stored(4)] show ?thesis
    by (auto simp: publish_commit_maps split: if_splits)
qed (use assms in simp_all)

lemma Publish_quiet:
  assumes "sv_inv L s" and "Publish L contracts e s w = (res, s', w')" and "quiet s"
  shows "quiet s'"
  using Publish_new_letters [OF assms(1,2)] assms(3) by (fastforce simp: quiet_def fresh_letter_def)

lemma Replay_quiet:
  assumes "sv_inv L s" and "Replay L contracts lid actor s w = (res, s', w')" and "quiet s"
  shows "quiet s'"
  using assms(1,2)
proof (cases rule: Replay_cases)
  case (ran l l1 e w2 s1 s2 w3 l2 t2)
  have "l_State x \<noteq> Replaying" if "map_of (sv_letters s2) k = Some x" "k \<noteq> lid" for k x
    using Publish_new_letters [OF ran(6,7) that(1)] that(2) assms(3) ran(5) by (auto simp: quiet_def fresh_letter_def)
  then show ?thesis using ran(12) by (auto simp: quiet_def FinishReplay_def)
qed (use assms in simp_all)

lemma service_step_quiet: "service_step L s s' \<Longrightarrow> sv_inv L s \<Longrightarrow> quiet s \<Longrightarrow> quiet s'"
proof (erule service_stepE)
  fix contracts e w res w'
  show "sv_inv L s \<Longrightarrow> quiet s \<Longrightarrow> Publish L contracts e s w = (res, s', w') \<Longrightarrow> quiet s'" by (rule Publish_quiet)
next
  fix contracts lid actor w res w'
  show "sv_inv L s \<Longrightarrow> quiet s \<Longrightarrow> Replay L contracts lid actor s w = (res, s', w') \<Longrightarrow> quiet s'" by (rule Replay_quiet)
qed (auto simp: SetRules_def ActivateRuleVersion_def PruneExpiredLineage_def Let_def now_def quiet_def
    split: sum.splits prod.splits)

lemma service_reach_quiet: "service_reach L secret maxQuota s \<Longrightarrow> quiet s"
proof (induction rule: service_reach.induct)
  case (step s s')
  then show ?case using service_step_quiet service_reach_inv by blast
qed (simp add: NewService_def quiet_def)

section \<open>Sample service\<close>

definition demo_published :: Contract where
  "demo_published = demo_contract\<lparr>c_Versions := [\<lparr>v_Number = 1, v_Schema = demo_schema, v_Fingerprint = ''fp'',
     v_Lifecycle = Published, v_CreatedAt = 6, v_PublishedAt = Some 7, v_DeprecatesAt = None, v_ETag = ''c-3''\<rparr>],
     c_Revision := 3\<rparr>"

definition demo_lookup :: lookup where
  "demo_lookup tenant cid = (if tenant = ''acme'' \<and> cid = ''c'' then Inr demo_published else Inl ErrContractNotFound)"

definition demo_event :: Event where
  "demo_event = zero_event\<lparr>ev_ID := ''e1'', ev_TenantID := ''acme'', ev_ContractID := ''c'', ev_SchemaVersion := 1,
     ev_IdempotencyKey := ''k1'', ev_Payload := Some [(''id'', VString ''x'')]\<rparr>"

definition demo_bad_event :: Event where
  "demo_bad_event = demo_event\<lparr>ev_Payload := Some [(''b'', VBool True)]\<rparr>"

definition demo_run :: "Event \<Rightarrow> Receipt result \<times> Service \<times> world" where
  "demo_run e = Publish demo_lib demo_lookup e (NewService '''' 5) demo_world"

definition demo_receipt :: Receipt where
  "demo_receipt = \<lparr>rp_EventID = ''e1'', rp_Status = Accepted, rp_Duplicate = False, rp_AttemptID = ''id0'',
     rp_Reasons = [], rp_ProcessingDuration = 3\<rparr>"

definition demo_replay :: "Receipt result \<times> Service \<times> world" where
  "demo_replay = Replay demo_lib demo_lookup ''id1'' ''op'' (fst (snd (demo_run demo_bad_event)))
     (demo_world\<lparr>id_source := (\<lambda>n. ''r'' @ nat_str n)\<rparr>)"

definition demo_signed :: Event where
  "demo_signed = demo_bad_event\<lparr>ev_Signature := hex (''s'' @ ''e1|c|k1'')\<rparr>"

definition demo_secret :: Service where
  "demo_secret = fst (snd (Publish demo_lib demo_lookup demo_signed (NewService ''s'' 5) demo_world))"

lemma demo_run_accepted: "fst (demo_run demo_event) = Inr demo_receipt"
  by code_simp

lemma demo_run_split: "Publish demo_lib demo_lookup e (NewService '''' 5) demo_world =
    (fst (demo_run e), fst (snd (demo_run e)), snd (snd (demo_run e)))"
  by (simp add: demo_run_def)

lemma demo_run_reach: "service_reach demo_lib '''' 5 (fst (snd (demo_run e)))"
  by (rule service_reach.step [OF service_reach.start service_step.publish [OF demo_run_split]])

section \<open>Batches and evaluation\<close>

lemma Evaluate_total: "rules_valid L rules \<Longrightarrow> \<exists>out w'. Evaluate L rules payload w = (Inr out, w')"
proof -
  assume v: "rules_valid L rules"
  have "\<exists>o1 w1. evaluate_loop L payload (sort_key q_ID rules) out w0 = (Inr o1, w1)" for out w0
    using evaluate_loop_valid [of L "sort_key q_ID rules"] v by fastforce
  then have "evaluate_loop L payload (sort_key q_ID rules) out w0 \<noteq> (Inl err, w1)" for out w0 err w1
    by (metis Inl_Inr_False prod.inject)
  then show ?thesis by (auto simp: Evaluate_def now_def split: prod.splits sum.splits)
qed

lemma replay_batch_total:
  "sv_inv L s \<Longrightarrow> \<exists>rs s' w'. replay_batch L contracts tenant ids actor s w = (Inr rs, s', w') \<and>
     map rr_LetterID rs = ids \<and> (service_step L)\<^sup>*\<^sup>* s s'"
proof (induction ids arbitrary: s w)
  case (Cons lid ids)
  obtain r s1 w1 where rep: "Replay L contracts lid actor s w = (r, s1, w1)" by (metis prod_cases3)
  note inv1 = Replay_inv [OF Cons.prems rep] and np = Replay_no_panic [OF Cons.prems rep]
  have id: "rr_LetterID (mk_replay_result lid r) = lid" by (cases r) (simp_all add: mk_replay_result_def)
  have st: "(service_step L)\<^sup>*\<^sup>* s1 s' \<Longrightarrow> (service_step L)\<^sup>*\<^sup>* s s'" for s'
    by (rule converse_rtranclp_into_rtranclp) (rule service_step.replay [OF rep])
  from Cons.IH [OF Cons.prems, of w] Cons.IH [OF inv1, of w1] rep np id st
  show ?case by (auto simp: replayOne_def)
qed simp

section \<open>Quota windows\<close>

text \<open>The outcomes of a sequence of requests of one tenant at the given times.\<close>

fun consume_all :: "string \<Rightarrow> time list \<Rightarrow> Service \<Rightarrow> bool list \<times> Service" where
  "consume_all tenant [] s = ([], s)"
| "consume_all tenant (t # ts) s =
     (let (r, s1) = consumeQuota tenant t s; (rs, s2) = consume_all tenant ts s1
      in ((case r of Inl _ \<Rightarrow> False | Inr _ \<Rightarrow> True) # rs, s2))"

lemma consumeQuota_window:
  assumes "usage_of s tenant = \<lparr>qt_start = t0, qt_count = n\<rparr>" and "\<not> IsZero t0" and "t - t0 < Minute"
  shows "consumeQuota tenant t s = (if n \<ge> sv_maxQuota s then (Inl ErrQuota, s)
    else (Inr (), s\<lparr>sv_usage := put tenant \<lparr>qt_start = t0, qt_count = n + 1\<rparr> (sv_usage s)\<rparr>))"
  using assms by (auto simp: consumeQuota_def Let_def Sub_def)

lemma consume_all_window:
  assumes "usage_of s tenant = \<lparr>qt_start = t0, qt_count = n\<rparr>" and "\<not> IsZero t0" and "\<forall>t\<in>set ts. t - t0 < Minute"
    and "n \<le> sv_maxQuota s"
  shows "fst (consume_all tenant ts s) = map (\<lambda>i. n + int i < sv_maxQuota s) [0..<length ts]"
  using assms
proof (induction ts arbitrary: s n)
  case (Cons t ts)
  note step = consumeQuota_window [OF Cons.prems(1,2), of t]
  show ?case
  proof (cases "n \<ge> sv_maxQuota s")
    case True
    then have "fst (consume_all tenant ts s) = map (\<lambda>i. n + int i < sv_maxQuota s) [0..<length ts]"
      using Cons.IH [OF Cons.prems(1,2)] Cons.prems by simp
    with True step Cons.prems show ?thesis
      by (simp add: split_beta map_upt_Suc del: upt_Suc)
  next
    case False
    let ?s1 = "s\<lparr>sv_usage := put tenant \<lparr>qt_start = t0, qt_count = n + 1\<rparr> (sv_usage s)\<rparr>"
    have "fst (consume_all tenant ts ?s1) = map (\<lambda>i. n + 1 + int i < sv_maxQuota ?s1) [0..<length ts]"
      using Cons.prems False by (intro Cons.IH) (simp_all add: usage_of_def)
    with False step Cons.prems show ?thesis
      by (simp add: split_beta map_upt_Suc algebra_simps del: upt_Suc)
  qed
qed simp

lemma consume_all_others:
  "tenant' \<noteq> tenant \<Longrightarrow> map_of (sv_usage (snd (consume_all tenant ts s))) tenant' = map_of (sv_usage s) tenant'"
proof (induction ts arbitrary: s)
  case (Cons t ts)
  then show ?case by (simp add: split_beta) (auto simp: consumeQuota_def Let_def)
qed simp

section \<open>Signatures\<close>

lemma Publish_wrong_signature:
  assumes "sv_inv L s" and "Publish L contracts e0 s w = (Inr r, s', w')" and "map_of (sv_seen s) (seen_key e0) = None"
    and "ev_ID e0 \<noteq> ''''" and "sv_secret s \<noteq> ''''" and "\<not> validSignature L (sv_secret s) e0"
  shows "rp_Status r = DeadLettered \<and> \<not> rp_Duplicate r"
proof -
  obtain e t w1 where prep: "prepare_event e0 w = (e, t, w1)" by (metis prod_cases3)
  note f = prepare_event_frame [OF prep]
  have nd: "\<not> rp_Duplicate r"
    using sv_inv_rules [OF assms(1)] assms(2) by (cases rule: Publish_cases) (use assms(3) in simp_all)
  have "\<not> admissible L contracts s e" using assms(4-6) f by (simp add: admissible_def validSignature_def)
  with Publish_accepted [OF assms(1,2) nd prep] nd show ?thesis by simp
qed

section \<open>Policy versions\<close>

text \<open>A successful \<open>SetRules\<close> installs the rules and appends a version to the history.\<close>

lemma SetRules_ok:
  assumes "sv_inv L s" and "SetRules L p cid rules s w = (Inr (), s', w')"
  shows "rules_of s' = (rules_of s)(cid := rules) \<and> cat_maxKeep (sv_catalog s') = cat_maxKeep (sv_catalog s) \<and>
    (\<exists>rset. rs_Rules rset = rules \<and> rs_Version rset = NextVersion (sv_catalog s) cid \<and> rs_Active rset \<and>
       sets_of (sv_catalog s') cid = put_history (cat_maxKeep (sv_catalog s)) rset (sets_of (sv_catalog s) cid))"
proof -
  let ?rs = "\<lparr>rs_ContractID = cid, rs_Version = NextVersion (sv_catalog s) cid, rs_Rules = rules,
    rs_CreatedAt = clock w (ticks w), rs_CreatedBy = ''api'', rs_Active = True\<rparr>"
  have wf: "wf_catalog L (sv_catalog s)" using assms(1) by (simp add: sv_inv_def policy_ok_def)
  obtain r c' where put: "Catalog_Put L p ?rs (sv_catalog s) = (r, c')" by fastforce
  have s': "r = Inr ()" "s' = s\<lparr>sv_catalog := c', sv_rules := put cid rules (sv_rules s)\<rparr>"
    using assms(2) put by (auto simp: SetRules_def now_def split: sum.splits)
  have live: "rules_of s' = (rules_of s)(cid := rules)" using s'(2) by (intro rules_of_put) simp
  have cat: "c' = (sv_catalog s)\<lparr>cat_sets := put cid (put_history (cat_maxKeep (sv_catalog s)) ?rs (sets_of (sv_catalog s) cid)) (cat_sets (sv_catalog s)),
            cat_latest := put cid (rs_Version ?rs) (cat_latest (sv_catalog s))\<rparr>"
    using Put_cases [OF wf put] s'(1) by simp
  have "sets_of c' cid = put_history (cat_maxKeep (sv_catalog s)) ?rs (sets_of (sv_catalog s) cid)"
    and "cat_maxKeep c' = cat_maxKeep (sv_catalog s)"
    unfolding cat by simp_all
  then show ?thesis using live s'(2) by (intro conjI exI [of _ ?rs]) simp_all
qed

lemma put_history_mem: "1 \<le> keep \<Longrightarrow> rset \<in> set (put_history keep rset items)"
proof -
  assume "1 \<le> keep"
  then have "nat (int (Suc (length items)) - keep) \<le> length items" by simp
  then show ?thesis by (simp add: put_history_def Let_def)
qed

lemma put_history_last: "1 \<le> keep \<Longrightarrow> last (put_history keep rset items) = rset"
  by (simp add: put_history_def Let_def)

text \<open>With room for two versions the version before the newest is kept, deactivated.\<close>

lemma put_history_previous:
  assumes "2 \<le> keep" and "rs_Active r2"
  shows "deactivate r1 \<in> set (put_history keep r2 (put_history keep r1 items))"
proof -
  let ?h = "put_history keep r1 items"
  obtain ys where h: "?h = ys @ [r1]"
    using put_history_last [of keep r1 items] put_history_mem [of keep r1 items] assms(1)
    by (metis append_butlast_last_id empty_iff empty_set order_trans one_le_numeral)
  have "put_history keep r2 ?h = drop (nat (int (length ys + 2) - keep)) (map deactivate ys @ [deactivate r1, r2])"
    using assms(2) by (simp add: put_history_def [of keep r2] h Let_def)
  moreover have "nat (int (length ys + 2) - keep) \<le> length ys" using assms(1) by simp
  ultimately show ?thesis by simp
qed

section \<open>Properties\<close>

text \<open>C10: in every state that any sequence of publications, replays, policy changes, activations and
  prunings reaches, successful or not, the invariant of the service holds: each stored receipt belongs to
  a stored event and to a recorded attempt with the same status and reasons, each dead letter respects
  its budget and belongs to a stored event, quota counters stay within the limit, the live rules are
  validated and agree with the active policy version; and no letter is left replaying.\<close>

theorem service_invariant:
  assumes "service_reach L secret maxQuota s"
  shows "sv_inv L s \<and> quiet s"
  using service_reach_inv [OF assms] service_reach_quiet [OF assms] by simp

theorem service_invariant_witness:
  "sv_inv demo_lib (fst (snd (demo_run demo_bad_event))) \<and> quiet (fst (snd (demo_run demo_bad_event))) \<and>
   length (sv_letters (fst (snd (demo_run demo_bad_event)))) = 1"
proof -
  have "length (sv_letters (fst (snd (demo_run demo_bad_event)))) = 1" by code_simp
  with service_invariant [OF demo_run_reach] show ?thesis by blast
qed

text \<open>No operation of a reachable service panics: rules are compiled when a policy is set, so the
  regular expressions they use at publication compile; and a batch of replays reports one result for
  every requested letter, in the order requested.\<close>

theorem service_never_panics:
  assumes "service_reach L secret maxQuota s"
  shows "\<not> is_panic (fst (Publish L contracts e s w)) \<and> \<not> is_panic (fst (Replay L contracts lid actor s w)) \<and>
    \<not> is_panic (fst (EvaluateEvent L eid s w)) \<and>
    (\<exists>rs s' w'. ReplayManyForTenant L contracts tenant ids actor s w = (Inr rs, s', w') \<and> map rr_LetterID rs = ids) \<and>
    (\<exists>rs s' w'. ReplayMany L contracts ids actor s w = (Inr rs, s', w') \<and> map rr_LetterID rs = ids)"
proof -
  note inv = service_reach_inv [OF assms]
  have "\<not> is_panic (fst (Publish L contracts e s w))" "\<not> is_panic (fst (Replay L contracts lid actor s w))"
    using Publish_no_panic [OF inv] Replay_no_panic [OF inv] by (metis prod_cases3 fst_conv)+
  moreover have "\<not> is_panic (fst (EvaluateEvent L eid s w))"
  proof (cases "map_of (sv_events s) eid")
    case (Some ev)
    with Evaluate_total [OF sv_inv_rules [OF inv, of "ev_ContractID ev"], of "entries (ev_Payload ev)" w]
    show ?thesis by (auto simp: EvaluateEvent_def)
  qed (simp add: EvaluateEvent_def is_panic_def)
  ultimately show ?thesis using replay_batch_total [OF inv]
    unfolding ReplayMany_def ReplayManyForTenant_def by blast
qed

theorem service_never_panics_witness:
  "\<exists>rs s' w'. ReplayMany demo_lib demo_lookup [''id1'', '''', ''nope''] '''' (fst (snd (demo_run demo_bad_event)))
     demo_world = (Inr rs, s', w') \<and> map rr_LetterID rs = [''id1'', '''', ''nope'']"
  using service_never_panics [OF demo_run_reach] by blast

text \<open>C14: publication is idempotent: once a publication has returned a receipt, every later
  publication under the same tenant and idempotency key, whatever happened in between and whatever else
  the second event holds, returns that receipt marked as a duplicate and changes nothing.\<close>

theorem publish_idempotent:
  assumes "service_reach L secret maxQuota s" and "Publish L contracts e s w = (Inr r, s', w')"
    and "(service_step L)\<^sup>*\<^sup>* s' s2"
    and "ev_TenantID e2 = ev_TenantID e" and "ev_IdempotencyKey e2 = ev_IdempotencyKey e"
  shows "\<exists>w3. Publish L contracts2 e2 s2 w2 = (Inr (r\<lparr>rp_Duplicate := True\<rparr>), s2, w3)"
proof -
  note inv = service_reach_inv [OF assms(1)]
  obtain r0 where r0: "ev_IdempotencyKey e \<noteq> ''''" "map_of (sv_seen s') (seen_key e) = Some r0"
    "r = r0 \<or> r = r0\<lparr>rp_Duplicate := True\<rparr>"
    using Publish_remembers [OF inv assms(2)] by blast
  have "map_of (sv_seen s2) (seen_key e2) = Some r0"
    using service_steps_seen [OF assms(3) Publish_inv [OF inv assms(2)] r0(2)] assms(4,5) by (simp add: seen_key_def)
  from Publish_duplicate [OF this] assms(5) r0 show ?thesis by auto
qed

theorem publish_idempotent_witness:
  "\<exists>w3. Publish demo_lib demo_lookup (demo_bad_event\<lparr>ev_ID := ''other''\<rparr>) (fst (snd (demo_run demo_event))) demo_world =
     (Inr (demo_receipt\<lparr>rp_Duplicate := True\<rparr>), fst (snd (demo_run demo_event)), w3)"
  by (rule publish_idempotent [OF service_reach.start demo_run_split [of demo_event, unfolded demo_run_accepted]])
    (simp_all add: demo_bad_event_def)

text \<open>C6: what a publication that is not a duplicate does: the event, with its identifier and times
  filled in, is stored with its receipt and one more attempt; it is accepted exactly when it satisfies
  the admission policy (tenant, contract, payload, signature, published schema version, field types,
  quality rules) inside the time window, and a dead letter holding the first reason is created exactly
  when it is not accepted.\<close>

theorem publish_outcome:
  assumes "service_reach L secret maxQuota s" and "Publish L contracts e0 s w = (Inr r, s', w')" and "\<not> rp_Duplicate r"
  shows "\<exists>e start w1. prepare_event e0 w = (e, start, w1) \<and> rp_EventID r = ev_ID e \<and>
    map_of (sv_events s') (ev_ID e) = Some e \<and> map_of (sv_seen s') (seen_key e0) = Some r \<and>
    (\<exists>a. Attempts s' (ev_ID e) = Attempts s (ev_ID e) @ [a] \<and> at_ID a = rp_AttemptID r \<and> at_Status a = rp_Status r) \<and>
    Quality s' (ev_ID e) = Inr (rp_Reasons r) \<and>
    (rp_Status r = Accepted \<longleftrightarrow>
       admissible L contracts s e \<and> in_window e (clock w (Suc (ticks w))) (clock w (Suc (Suc (ticks w))))) \<and>
    (if rp_Status r = Accepted then sv_letters s' = sv_letters s
     else \<exists>l. sv_letters s' = put (l_ID l) l (sv_letters s) \<and> fresh_letter l \<and> l_EventID l = ev_ID e \<and>
       l_TenantID l = ev_TenantID e0 \<and> l_Payload l = ev_Payload e0 \<and> l_Reason l = hd (rp_Reasons r))"
proof -
  note inv = service_reach_inv [OF assms(1)]
  show ?thesis
    using sv_inv_rules [OF inv] assms(2)
  proof (cases rule: Publish_cases)
    case (stored e w1 s1 reasons w2 receipt attempt w5)
    note f = prepare_event_frame [OF stored(3)] and k = consumeQuota_keeps [OF stored(4)]
    have r: "r = receipt" using stored(6) by simp
    have rules: "rules_of s1 = rules_of s" by (rule consumeQuota_rules [OF stored(4)])
    have "rules_valid L (rules_of s1 (ev_ContractID e))" using sv_inv_rules [OF inv] rules by simp
    from validate_iff [OF this, of contracts w1] have
      "reasons = [] \<longleftrightarrow> admissible L contracts s e \<and> in_window e (clock w (Suc (ticks w))) (clock w (Suc (Suc (ticks w))))"
      using stored(5) f(12,14) by (simp add: admissible_def rules k)
    then have st: "rp_Status r = Accepted \<longleftrightarrow> admissible L contracts s e \<and>
        in_window e (clock w (Suc (ticks w))) (clock w (Suc (Suc (ticks w))))"
      using stored(11) r by simp
    obtain l w' where nl: "new_letter e reasons w5 = (l, w')" by fastforce
    note m = publish_commit_maps [of e reasons receipt attempt s1 w5, folded stored(7), unfolded nl fst_conv]
    have att: "attempts_of s1 = attempts_of s" using k(2,4) ok_cong(1) by blast
    have attp: "attempts_of s' (ev_ID e) = attempts_of s (ev_ID e) @ [attempt]"
      using attempts_of_put [OF m(3)] att by simp
    have letters: "if rp_Status r = Accepted then sv_letters s' = sv_letters s
     else \<exists>l. sv_letters s' = put (l_ID l) l (sv_letters s) \<and> fresh_letter l \<and> l_EventID l = ev_ID e \<and>
       l_TenantID l = ev_TenantID e0 \<and> l_Payload l = ev_Payload e0 \<and> l_Reason l = hd (rp_Reasons r)"
      using m(4) k(3) new_letter_fresh(1-5) [OF nl] f(1,5) stored(9,11) r by auto
    show ?thesis
      by (intro exI [of _ e] exI [of _ "clock w (ticks w)"] exI [of _ w1] conjI exI [of _ attempt] st letters)
        (use stored(3,8,9,12,13,14,15) r m(1-3) f(8) attp in \<open>simp_all add: Attempts_def Quality_def\<close>)
  qed (use assms(3) in simp_all)
qed

theorem publish_outcome_witness:
  "fst (demo_run demo_event) = Inr demo_receipt \<and> map_of (sv_seen (fst (snd (demo_run demo_event)))) ''acme/k1'' = Some demo_receipt"
  using publish_outcome [OF service_reach.start demo_run_split [of demo_event, unfolded demo_run_accepted]] demo_run_accepted
  by (auto simp: demo_receipt_def seen_key_def demo_event_def zero_event_def)

text \<open>C26: the quota admits exactly the first \<^verbatim>\<open>maxQuota\<close> requests of a tenant in the minute that
  starts with its first one, and no request of one tenant counts against another.\<close>

theorem quota_window:
  assumes "map_of (sv_usage s) tenant = None" and "\<not> IsZero t0" and "\<forall>t\<in>set ts. t - t0 < Minute" and "0 \<le> sv_maxQuota s"
  shows "fst (consume_all tenant (t0 # ts) s) = map (\<lambda>i. int i < sv_maxQuota s) [0..<Suc (length ts)] \<and>
    (\<forall>tenant'. tenant' \<noteq> tenant \<longrightarrow>
       map_of (sv_usage (snd (consume_all tenant (t0 # ts) s))) tenant' = map_of (sv_usage s) tenant')"
proof -
  have first: "consumeQuota tenant t0 s = consumeQuota tenant t0 (s\<lparr>sv_usage := sv_usage s\<rparr>)" by simp
  have "fst (consume_all tenant (t0 # ts) s) = map (\<lambda>i. int i < sv_maxQuota s) [0..<Suc (length ts)]"
  proof (cases "sv_maxQuota s = 0")
    case True
    have none: "map_of (sv_usage s) tenant = None \<Longrightarrow> sv_maxQuota s = 0 \<Longrightarrow> fst (consume_all tenant xs s) = map (\<lambda>_. False) xs" for xs
      by (induction xs) (simp_all add: consumeQuota_def usage_of_def split_beta)
    from none [OF assms(1) True, of "t0 # ts"] True show ?thesis by (simp add: map_replicate_const del: upt_Suc consume_all.simps)
  next
    case False
    let ?s1 = "s\<lparr>sv_usage := put tenant \<lparr>qt_start = t0, qt_count = 1\<rparr> (sv_usage s)\<rparr>"
    have "consumeQuota tenant t0 s = (Inr (), ?s1)"
      using assms False by (simp add: consumeQuota_def usage_of_def IsZero_def)
    moreover have "fst (consume_all tenant ts ?s1) = map (\<lambda>i. 1 + int i < sv_maxQuota ?s1) [0..<length ts]"
      using assms False by (intro consume_all_window) (simp_all add: usage_of_def)
    ultimately show ?thesis using assms(4) False by (simp add: split_beta map_upt_Suc del: upt_Suc)
  qed
  with consume_all_others show ?thesis by blast
qed

theorem quota_window_witness:
  "fst (consume_all ''acme'' [100, 101, 102] (NewService '''' 2)) = [True, True, False]"
  using quota_window [of "NewService '''' 2" "''acme''" 100 "[101, 102]"]
  by (simp add: NewService_def IsZero_def upt_rec numeral_2_eq_2)

text \<open>A publication that is refused with an error changes nothing, and it is refused exactly
  when it has no idempotency key, or when it is not a duplicate and its tenant has used up its quota of the
  current minute.\<close>

theorem publish_refused:
  assumes "service_reach L secret maxQuota s"
  shows "((\<exists>err s' w'. Publish L contracts e s w = (Inl err, s', w')) \<longleftrightarrow>
      ev_IdempotencyKey e = '''' \<or> (map_of (sv_seen s) (seen_key e) = None \<and>
        (sv_maxQuota s \<le> 0 \<or> (\<exists>q. map_of (sv_usage s) (ev_TenantID e) = Some q \<and> sv_maxQuota s \<le> qt_count q \<and>
           \<not> IsZero (qt_start q) \<and> clock w (ticks w) - qt_start q < Minute)))) \<and>
    (\<forall>err s' w'. Publish L contracts e s w = (Inl err, s', w') \<longrightarrow>
      s' = s \<and> err = (if ev_IdempotencyKey e = '''' then ErrIdempotencyKey else ErrQuota))"
proof -
  note inv = service_reach_inv [OF assms]
  have q: "fst (consumeQuota (ev_TenantID e) t s) = Inl ErrQuota \<longleftrightarrow>
      sv_maxQuota s \<le> 0 \<or> (\<exists>q. map_of (sv_usage s) (ev_TenantID e) = Some q \<and> sv_maxQuota s \<le> qt_count q \<and>
           \<not> IsZero (qt_start q) \<and> t - qt_start q < Minute)" for t
    using inv by (auto simp: consumeQuota_def Let_def usage_of_def IsZero_def Sub_def sv_inv_def usage_ok_def
        split: option.splits) force+
  obtain res s2 w2 where pub: "Publish L contracts e s w = (res, s2, w2)" by (metis prod_cases3)
  have "(\<exists>err. res = Inl err) \<longleftrightarrow> ev_IdempotencyKey e = '''' \<or> (map_of (sv_seen s) (seen_key e) = None \<and>
      fst (consumeQuota (ev_TenantID e) (clock w (ticks w)) s) = Inl ErrQuota)"
    using sv_inv_rules [OF inv] pub by (cases rule: Publish_cases) auto
  moreover have "s2 = s \<and> err = (if ev_IdempotencyKey e = '''' then ErrIdempotencyKey else ErrQuota)" if "res = Inl err" for err
    using sv_inv_rules [OF inv] pub by (cases rule: Publish_cases) (use that in auto)
  ultimately show ?thesis using pub q by auto
qed

theorem publish_refused_witness:
  "\<exists>err s' w'. Publish demo_lib demo_lookup (demo_event\<lparr>ev_IdempotencyKey := ''''\<rparr>) (NewService '''' 5) demo_world = (Inl err, s', w')"
  using publish_refused [OF service_reach.start, of demo_lib demo_lookup "demo_event\<lparr>ev_IdempotencyKey := ''''\<rparr>"] by simp

text \<open>C23: a replay of a dead letter within its budget counts one attempt and two audit entries; the
  letter ends replayed when the event is now accepted, poisoned when that was the last attempt, pending
  otherwise. A letter whose budget is spent is refused and nothing changes. (Identifiers drawn are
  different from the letter's.)\<close>

theorem replay_effect:
  assumes "service_reach L secret maxQuota s" and "map_of (sv_letters s) lid = Some l"
    and "Replay L contracts lid actor s w = (res, s', w')" and "\<forall>n. id_source w n \<noteq> lid"
  shows "if l_State l = Poisoned \<or> l_Attempts l \<ge> 3 then res = Inl ErrLetterReplay \<and> s' = s
    else \<exists>l'. map_of (sv_letters s') lid = Some l' \<and> l_Attempts l' = l_Attempts l + 1 \<and>
      length (l_Audit l') = length (l_Audit l) + 2 \<and>
      l_State l' = (if \<exists>r. res = Inr r \<and> rp_Status r = Accepted then Replayed
                    else if l_Attempts l = 2 then Poisoned else Pending)"
  using service_reach_inv [OF assms(1)] assms(3)
proof (cases rule: Replay_cases)
  case missing
  then show ?thesis using assms(2) by simp
next
  case (refused l0)
  then show ?thesis using assms(2) by simp
next
  case (ran l0 l1 e w2 s1 s2 w3 l2 t2)
  have l: "l0 = l" using ran(1) assms(2) by simp
  have l2: "l2 = l1" using ran(11) assms(4) by auto
  have max: "l_MaxAttempts l = 3" using sv_inv_letter(1) [OF service_reach_inv [OF assms(1)] assms(2)] by (simp add: letter_ok_def)
  show ?thesis using ran(2,3,12) l max unfolding l2 by (auto simp: BeginReplay_True FinishReplay_def)
qed

lemma demo_replay_split: "Replay demo_lib demo_lookup ''id1'' ''op'' (fst (snd (demo_run demo_bad_event)))
    (demo_world\<lparr>id_source := (\<lambda>n. ''r'' @ nat_str n)\<rparr>) = (fst demo_replay, fst (snd demo_replay), snd (snd demo_replay))"
  by (simp add: demo_replay_def)

theorem replay_effect_witness:
  "\<exists>l'. map_of (sv_letters (fst (snd demo_replay))) ''id1'' = Some l' \<and> l_Attempts l' = 1 \<and> l_State l' = Pending"
proof -
  obtain l where l: "map_of (sv_letters (fst (snd (demo_run demo_bad_event)))) ''id1'' = Some l"
    and "l_State l = Pending" "l_Attempts l = 0"
  proof -
    have "map_option (\<lambda>l. (l_State l, l_Attempts l)) (map_of (sv_letters (fst (snd (demo_run demo_bad_event)))) ''id1'') = Some (Pending, 0)"
      by code_simp
    then show thesis using that by auto
  qed
  moreover have "map_option rp_Status (case fst demo_replay of Inl _ \<Rightarrow> None | Inr r \<Rightarrow> Some r) = Some DeadLettered" by code_simp
  then have "\<not> (\<exists>r. fst demo_replay = Inr r \<and> rp_Status r = Accepted)" by auto
  ultimately show ?thesis using replay_effect [OF demo_run_reach l demo_replay_split] by force
qed

text \<open>C30: where a signing secret is configured, a replay never succeeds for an event that was signed
  correctly: the signature covers the idempotency key, the replay replaces the key by a new one, and the
  code of the new message differs from the one that was signed.\<close>

theorem replay_breaks_signature:
  assumes "service_reach L secret maxQuota s" and "map_of (sv_letters s) lid = Some l"
    and "map_of (sv_events s) (l_EventID l) = Some e" and "ev_ID e \<noteq> ''''"
    and "sv_secret s \<noteq> ''''" and "validSignature L (sv_secret s) e"
    and "hmac_sha256 L (sv_secret s) (ev_ID e @ ''|'' @ ev_ContractID e @ ''|'' @ id_source w (drawn w)) \<noteq>
         hmac_sha256 L (sv_secret s) (ev_ID e @ ''|'' @ ev_ContractID e @ ''|'' @ ev_IdempotencyKey e)"
    and "map_of (sv_seen s) (ev_TenantID e @ ''/'' @ id_source w (drawn w)) = None"
    and "Replay L contracts lid actor s w = (res, s', w')"
  shows "\<forall>r. res = Inr r \<longrightarrow> rp_Status r = DeadLettered"
  using service_reach_inv [OF assms(1)] assms(9)
proof (cases rule: Replay_cases)
  case (ran l0 l1 e0 w2 s1 s2 w3 l2 t2)
  let ?e = "e\<lparr>ev_IdempotencyKey := id_source w (drawn w)\<rparr>"
  have e: "e0 = e" using ran(1,4) assms(2,3) by simp
  have "\<not> validSignature L (sv_secret s1) ?e"
    using assms(6,7) hex_inject unfolding validSignature_def ran(5) by force
  moreover have "map_of (sv_seen s1) (seen_key ?e) = None" using assms(8) ran(5) by (simp add: seen_key_def)
  moreover have "ev_ID ?e \<noteq> ''''" "sv_secret s1 \<noteq> ''''" using assms(4,5) ran(5) by simp_all
  ultimately show ?thesis using Publish_wrong_signature [OF ran(6)] ran(7) unfolding e by blast
qed simp_all

theorem replay_breaks_signature_witness:
  "\<exists>r. fst (Replay demo_lib demo_lookup ''id1'' ''op'' demo_secret demo_world) = Inr r \<and> rp_Status r = DeadLettered"
proof -
  have "Publish demo_lib demo_lookup demo_signed (NewService ''s'' 5) demo_world = (fst (Publish demo_lib demo_lookup demo_signed (NewService ''s'' 5) demo_world),
      demo_secret, snd (snd (Publish demo_lib demo_lookup demo_signed (NewService ''s'' 5) demo_world)))"
    by (simp add: demo_secret_def)
  from service_reach.step [OF service_reach.start service_step.publish [OF this]]
  have reach: "service_reach demo_lib ''s'' 5 demo_secret" .
  obtain l where l: "map_of (sv_letters demo_secret) ''id1'' = Some l" "l_EventID l = ''e1''"
  proof -
    have "map_option l_EventID (map_of (sv_letters demo_secret) ''id1'') = Some ''e1''" by code_simp
    then show thesis using that by auto
  qed
  obtain e where e: "map_of (sv_events demo_secret) ''e1'' = Some e"
    "ev_ID e = ''e1''" "ev_TenantID e = ''acme''" "ev_ContractID e = ''c''" "ev_IdempotencyKey e = ''k1''"
    "ev_Signature e = hex (''s'' @ ''e1|c|k1'')"
  proof -
    have "map_option (\<lambda>e. (ev_ID e, ev_TenantID e, ev_ContractID e, ev_IdempotencyKey e, ev_Signature e))
        (map_of (sv_events demo_secret) ''e1'') = Some (''e1'', ''acme'', ''c'', ''k1'', hex (''s'' @ ''e1|c|k1''))" by code_simp
    then show thesis using that by auto
  qed
  have sec: "sv_secret demo_secret = ''s''" by code_simp
  have k: "id_source demo_world (drawn demo_world) = ''id0''" by code_simp
  have seen: "map_of (sv_seen demo_secret) ''acme/id0'' = None" by code_simp
  have "\<forall>r. fst (Replay demo_lib demo_lookup ''id1'' ''op'' demo_secret demo_world) = Inr r \<longrightarrow> rp_Status r = DeadLettered"
    by (rule replay_breaks_signature [OF reach l(1), unfolded l(2) sec k, OF e(1), unfolded e])
      (use seen in \<open>simp_all add: validSignature_def e demo_lib_def prod_eq_iff k\<close>)
  moreover have "\<not> isl (fst (Replay demo_lib demo_lookup ''id1'' ''op'' demo_secret demo_world))" by code_simp
  ultimately show ?thesis by (cases "fst (Replay demo_lib demo_lookup ''id1'' ''op'' demo_secret demo_world)") auto
qed



end
