(* ===== verification/EventQuery.thy ===== *)
theory EventQuery
  imports Paging IngestionProps "HOL-Library.Product_Lexorder"
begin

text \<open>
  The read side of the ingestion service: \<^verbatim>\<open>ingestion/domain/query.go\<close> and the queries of
  \<^verbatim>\<open>ingestion/application/query.go\<close>. A \<^verbatim>\<open>range\<close> over a map visits it in an order of its own
  at every execution, so each loop takes its order argument: \<open>\<pi> 0\<close> for the outer loop, \<open>\<pi> 1\<close> for
  \<^verbatim>\<open>sort.Slice\<close> and \<open>\<pi> (n + 2)\<close> for the search of the receipts made in the \<open>n\<close>-th
  iteration. \<open>Summary\<close> adds latencies in 64-bit floating point.
\<close>

section \<open>Data\<close>

record EventFilter =
  ef_TenantID :: string
  ef_ContractID :: string
  ef_Status :: string
  ef_PartitionKey :: string
  ef_OccurredAfter :: time
  ef_OccurredBefore :: time
  ef_ReceivedAfter :: time
  ef_ReceivedBefore :: time
  ef_Search :: string

record EventPage =
  ep_Items :: "Event list"
  ep_NextCursor :: string
  ep_Total :: int
  ep_Limit :: int

record EventSummary =
  sm_TenantID :: string
  sm_ContractID :: string
  sm_Total :: int
  sm_Accepted :: int
  sm_DeadLettered :: int
  sm_Duplicate :: int
  sm_AverageLatency :: f64
  sm_FirstReceived :: time
  sm_LastReceived :: time

section \<open>Copies\<close>

text \<open>A deep copy: maps and slices are rebuilt, everything else is shared.\<close>

fun cloneValue :: "val \<Rightarrow> val" where
  "cloneValue (VMap kvs) = VMap (map (\<lambda>(k, v). (k, cloneValue v)) kvs)"
| "cloneValue (VSlice vs) = VSlice (map cloneValue vs)"
| "cloneValue v = v"

definition cloneFields :: "fields option \<Rightarrow> fields option" where
  "cloneFields payload = map_option (map (\<lambda>(k, v). (k, cloneValue v))) payload"

definition cloneEvent :: "Event \<Rightarrow> Event" where
  "cloneEvent event = event\<lparr>ev_Payload := cloneFields (ev_Payload event)\<rparr>"

section \<open>Receipts of an event\<close>

text \<open>The first receipt of the event that the loop over \<^verbatim>\<open>seen\<close> meets.\<close>

definition find_receipt :: "order \<Rightarrow> string \<Rightarrow> Receipt gomap \<Rightarrow> Receipt option" where
  "find_receipt p eid seen = find (\<lambda>r. rp_EventID r = eid) (map snd (shuffle p seen))"

definition zero_receipt :: Receipt where
  "zero_receipt = \<lparr>rp_EventID = '''', rp_Status = NoStatus, rp_Duplicate = False, rp_AttemptID = '''',
     rp_Reasons = [], rp_ProcessingDuration = 0\<rparr>"

definition sEventStatus :: "order \<Rightarrow> string \<Rightarrow> Receipt gomap \<Rightarrow> Status" where
  "sEventStatus p eid seen = (case find_receipt p eid seen of None \<Rightarrow> NoStatus | Some r \<Rightarrow> rp_Status r)"

definition receiptFor :: "order \<Rightarrow> string \<Rightarrow> Receipt gomap \<Rightarrow> Receipt" where
  "receiptFor p eid seen = (case find_receipt p eid seen of None \<Rightarrow> zero_receipt | Some r \<Rightarrow> r)"

section \<open>Search\<close>

definition matchesEvent :: "golib \<Rightarrow> order \<Rightarrow> Service \<Rightarrow> Event \<Rightarrow> EventFilter \<Rightarrow> bool" where
  "matchesEvent L p s event f \<longleftrightarrow>
     (if ef_TenantID f \<noteq> '''' \<and> ev_TenantID event \<noteq> ef_TenantID f then False
      else if ef_ContractID f \<noteq> '''' \<and> ev_ContractID event \<noteq> ef_ContractID f then False
      else if ef_PartitionKey f \<noteq> '''' \<and> ev_PartitionKey event \<noteq> ef_PartitionKey f then False
      else if \<not> IsZero (ef_OccurredAfter f) \<and> \<not> ev_OccurredAt event > ef_OccurredAfter f then False
      else if \<not> IsZero (ef_OccurredBefore f) \<and> \<not> ev_OccurredAt event < ef_OccurredBefore f then False
      else if \<not> IsZero (ef_ReceivedAfter f) \<and> \<not> ev_ReceivedAt event > ef_ReceivedAfter f then False
      else if \<not> IsZero (ef_ReceivedBefore f) \<and> \<not> ev_ReceivedAt event < ef_ReceivedBefore f then False
      else if ef_Search f \<noteq> '''' \<and>
              (let needle = ToLower L (ef_Search f)
               in \<not> Contains (ToLower L (ev_ID event)) needle \<and> \<not> Contains (ToLower L (ev_ContractID event)) needle)
      then False
      else if ef_Status f \<noteq> '''' \<and> status_name (sEventStatus p (ev_ID event) (sv_seen s)) \<noteq> ef_Status f then False
      else True)"

text \<open>The loop and the sort of \<^verbatim>\<open>FindEvents\<close>.\<close>

definition matching_events :: "golib \<Rightarrow> orders \<Rightarrow> Service \<Rightarrow> EventFilter \<Rightarrow> Event list" where
  "matching_events L \<pi> s f = sort_slice (\<pi> 1) (\<lambda>e. (ev_ReceivedAt e, ev_ID e))
     (map (\<lambda>(n, e). cloneEvent e)
        (filter (\<lambda>(n, e). matchesEvent L (\<pi> (n + 2)) s e f) (List.enumerate 0 (map snd (shuffle (\<pi> 0) (sv_events s))))))"

definition cursorIndex :: "Event list \<Rightarrow> string \<Rightarrow> nat" where
  "cursorIndex items cursor =
     (if cursor = '''' then 0 else case index_after ev_ID items cursor of None \<Rightarrow> 0 | Some i \<Rightarrow> i)"

definition events_page :: "Event list \<Rightarrow> int \<Rightarrow> string \<Rightarrow> (Event list \<times> string) result" where
  "events_page items limit cursor =
     (let len = int (length items);
          start0 = int (cursorIndex items cursor);
          start = (if start0 > len then len else start0);
          end0 = wrap64 (start + limit);
          end1 = (if end0 > len then len else end0)
      in if end1 < start then Inl (Panic ''slice bounds out of range'')
         else Inr (take (nat (end1 - start)) (drop (nat start) items),
                   if end1 < len then ev_ID (items ! nat (end1 - 1)) else ''''))"

definition clamp_limit :: "int \<Rightarrow> int" where
  "clamp_limit limit = (let l = (if limit < 1 then 50 else limit) in if l > 500 then 500 else l)"

definition FindEvents :: "golib \<Rightarrow> orders \<Rightarrow> Service \<Rightarrow> EventFilter \<Rightarrow> int \<Rightarrow> string \<Rightarrow> EventPage result" where
  "FindEvents L \<pi> s f limit0 cursor =
     (if ef_Status f \<noteq> '''' \<and> ef_Status f \<noteq> status_name Accepted \<and> ef_Status f \<noteq> status_name Rejected \<and>
         ef_Status f \<noteq> status_name DeadLettered
      then Inl (ErrStatus (ef_Status f))
      else let limit = clamp_limit limit0;
               items = matching_events L \<pi> s f
           in case events_page items limit cursor of
                Inl e \<Rightarrow> Inl e
              | Inr (page, next) \<Rightarrow>
                  Inr \<lparr>ep_Items = page, ep_NextCursor = next, ep_Total = int (length items), ep_Limit = limit\<rparr>)"

definition GetEvent :: "order \<Rightarrow> Service \<Rightarrow> string \<Rightarrow> string \<Rightarrow> (Event \<times> Receipt) result" where
  "GetEvent p s tenant eid =
     (case map_of (sv_events s) eid of
        None \<Rightarrow> Inl ErrEventNotFound
      | Some event \<Rightarrow>
          if ev_TenantID event \<noteq> tenant then Inl ErrEventNotFound
          else case find_receipt p eid (sv_seen s) of
                 Some r \<Rightarrow> Inr (cloneEvent event, r)
               | None \<Rightarrow> Inr (cloneEvent event, zero_receipt\<lparr>rp_EventID := eid\<rparr>))"

section \<open>Summary\<close>

fun f64_add :: "f64 \<Rightarrow> f64 \<Rightarrow> f64" where
  "f64_add NaN _ = NaN"
| "f64_add _ NaN = NaN"
| "f64_add PInf NInf = NaN"
| "f64_add NInf PInf = NaN"
| "f64_add PInf _ = PInf"
| "f64_add _ PInf = PInf"
| "f64_add NInf _ = NInf"
| "f64_add _ NInf = NInf"
| "f64_add NZero NZero = NZero"
| "f64_add NZero (Fin y) = Fin y"
| "f64_add (Fin x) NZero = Fin x"
| "f64_add (Fin x) (Fin y) = round_f64 (x + y)"

text \<open>Division by a positive number.\<close>

fun f64_div_pos :: "f64 \<Rightarrow> rat \<Rightarrow> f64" where
  "f64_div_pos (Fin x) n = round_f64 (x / n)"
| "f64_div_pos v n = v"

fun f64_rat :: "f64 \<Rightarrow> rat" where
  "f64_rat (Fin x) = x"
| "f64_rat _ = 0"

definition latency_ms :: "Attempt \<Rightarrow> f64" where
  "latency_ms a = f64_div_pos (round_f64 (of_int (trunc_rat (of_int (at_Duration a) / 1000)))) 1000"

definition summary_step :: "orders \<Rightarrow> Service \<Rightarrow> string \<Rightarrow> string \<Rightarrow> EventSummary \<Rightarrow> nat \<times> Event \<Rightarrow> EventSummary" where
  "summary_step \<pi> s tenant cid sm ne =
     (let (n, event) = ne in
      if ev_TenantID event \<noteq> tenant \<or> (cid \<noteq> '''' \<and> ev_ContractID event \<noteq> cid) then sm
      else let receipt = receiptFor (\<pi> (n + 2)) (ev_ID event) (sv_seen s)
           in sm\<lparr>sm_Total := sm_Total sm + 1,
                 sm_FirstReceived := (if IsZero (sm_FirstReceived sm) \<or> ev_ReceivedAt event < sm_FirstReceived sm
                                      then ev_ReceivedAt event else sm_FirstReceived sm),
                 sm_LastReceived := (if ev_ReceivedAt event > sm_LastReceived sm then ev_ReceivedAt event
                                     else sm_LastReceived sm),
                 sm_Accepted := sm_Accepted sm + (if rp_Status receipt = Accepted then 1 else 0),
                 sm_DeadLettered := sm_DeadLettered sm + (if rp_Status receipt = DeadLettered then 1 else 0),
                 sm_Duplicate := sm_Duplicate sm + (if rp_Duplicate receipt then 1 else 0),
                 sm_AverageLatency := foldl (\<lambda>acc a. f64_add acc (latency_ms a)) (sm_AverageLatency sm)
                                        (attempts_of s (ev_ID event))\<rparr>)"

definition Summary :: "orders \<Rightarrow> Service \<Rightarrow> string \<Rightarrow> string \<Rightarrow> EventSummary" where
  "Summary \<pi> s tenant cid =
     (let zero = \<lparr>sm_TenantID = tenant, sm_ContractID = cid, sm_Total = 0, sm_Accepted = 0, sm_DeadLettered = 0,
                  sm_Duplicate = 0, sm_AverageLatency = Fin 0, sm_FirstReceived = 0, sm_LastReceived = 0\<rparr>;
          sm = foldl (summary_step \<pi> s tenant cid) zero (List.enumerate 0 (map snd (shuffle (\<pi> 0) (sv_events s))))
      in if sm_Total sm > 0
         then sm\<lparr>sm_AverageLatency := f64_div_pos (sm_AverageLatency sm) (f64_rat (round_f64 (of_int (sm_Total sm))))\<rparr>
         else sm)"

section \<open>Letters and lineage\<close>

definition ListLetters :: "orders \<Rightarrow> Service \<Rightarrow> string \<Rightarrow> string \<Rightarrow> Letter list" where
  "ListLetters \<pi> s f tenant = sort_slice (\<pi> 1) l_UpdatedAt
     (map (\<lambda>l. l\<lparr>l_Payload := cloneFields (l_Payload l), l_Audit := map (\<lambda>a. a) (l_Audit l)\<rparr>)
        (filter (\<lambda>l. \<not> (tenant \<noteq> '''' \<and> l_TenantID l \<noteq> tenant) \<and> \<not> (f \<noteq> '''' \<and> state_name (l_State l) \<noteq> f))
           (map snd (shuffle (\<pi> 0) (sv_letters s)))))"

definition LineageSnapshot :: "Service \<Rightarrow> string \<Rightarrow> LineageRecord result" where
  "LineageSnapshot s eid =
     (case map_of (sv_lineages s) eid of
        None \<Rightarrow> Inl ErrLineage
      | Some r \<Rightarrow> Inr (r\<lparr>lr_ConsumerIDs := map (\<lambda>x. x) (lr_ConsumerIDs r),
                        lr_ParentEventIDs := map (\<lambda>x. x) (lr_ParentEventIDs r), lr_Attempts := map (\<lambda>x. x) (lr_Attempts r)\<rparr>))"

section \<open>Copies are equal to their originals\<close>

lemma cloneValue_id [simp]: "cloneValue v = v"
proof (induction v rule: cloneValue.induct)
  case (1 kvs)
  then show ?case by (auto intro!: map_idI simp: case_prod_unfold)
next
  case (2 vs)
  then show ?case by (auto intro!: map_idI)
qed simp_all

lemma cloneFields_id [simp]: "cloneFields p = p"
  by (cases p) (simp_all add: cloneFields_def)

lemma cloneEvent_id [simp]: "cloneEvent e = e"
  by (simp add: cloneEvent_def)

section \<open>Every stored event has a receipt\<close>

definition receipted :: "Service \<Rightarrow> bool" where
  "receipted s \<longleftrightarrow> (\<forall>eid. map_of (sv_events s) eid \<noteq> None \<longrightarrow>
     (\<exists>k r. map_of (sv_seen s) k = Some r \<and> rp_EventID r = eid))"

lemma Publish_receipted:
  assumes inv: "sv_inv L s" and pub: "Publish L contracts e s w = (res, s', w')" and r: "receipted s"
  shows "receipted s'"
  using sv_inv_rules [OF inv] pub
proof (cases rule: Publish_cases)
  case (stored e' w1 s1 reasons w2 receipt attempt w5)
  note k = consumeQuota_keeps [OF stored(4)]
  have old: "\<exists>j rc. map_of (sv_seen s') j = Some rc \<and> rp_EventID rc = eid" if "map_of (sv_events s) eid \<noteq> None" for eid
    using r that Publish_seen [OF inv pub] unfolding receipted_def by blast
  show ?thesis unfolding receipted_def
  proof (intro allI impI)
    fix eid
    assume "map_of (sv_events s') eid \<noteq> None"
    then consider "eid = ev_ID e'" | "map_of (sv_events s) eid \<noteq> None"
      using stored(7) k(2) by (auto simp: publish_commit_maps split: if_splits)
    then show "\<exists>k r. map_of (sv_seen s') k = Some r \<and> rp_EventID r = eid"
    proof cases
      case 1
      then show ?thesis using stored(7,8) by (intro exI [of _ "seen_key e'"]) (simp add: publish_commit_maps)
    qed (rule old)
  qed
qed (use r in simp_all)

lemma Replay_receipted:
  assumes inv: "sv_inv L s" and rep: "Replay L contracts lid actor s w = (res, s', w')" and r: "receipted s"
  shows "receipted s'"
  using inv rep
proof (cases rule: Replay_cases)
  case (ran l l1 e w2 s1 s2 w3 l2 t2)
  have "receipted s1" using r ran(5) by (simp add: receipted_def)
  from Publish_receipted [OF ran(6,7) this] show ?thesis using ran(12) by (simp add: receipted_def)
qed (use r in simp_all)

lemma service_step_receipted: "service_step L s s' \<Longrightarrow> sv_inv L s \<Longrightarrow> receipted s \<Longrightarrow> receipted s'"
proof (erule service_stepE)
  fix contracts e w res w'
  show "sv_inv L s \<Longrightarrow> receipted s \<Longrightarrow> Publish L contracts e s w = (res, s', w') \<Longrightarrow> receipted s'" by (rule Publish_receipted)
next
  fix contracts lid actor w res w'
  show "sv_inv L s \<Longrightarrow> receipted s \<Longrightarrow> Replay L contracts lid actor s w = (res, s', w') \<Longrightarrow> receipted s'" by (rule Replay_receipted)
qed (auto simp: SetRules_def ActivateRuleVersion_def PruneExpiredLineage_def Let_def now_def receipted_def
    split: sum.splits prod.splits)

lemma service_reach_receipted: "service_reach L secret maxQuota s \<Longrightarrow> receipted s"
proof (induction rule: service_reach.induct)
  case (step s s')
  then show ?case using service_step_receipted service_reach_inv by blast
qed (simp add: NewService_def receipted_def)

lemma find_receipt_Some:
  assumes "sv_inv L s" and "find_receipt p eid (sv_seen s) = Some r"
  shows "rp_EventID r = eid \<and> receipt_ok s r \<and> (\<exists>k. map_of (sv_seen s) k = Some r)"
proof -
  have wf: "wf_map (sv_seen s)" using assms(1) by (simp add: sv_inv_def maps_ok_def)
  have "r \<in> set (map snd (shuffle p (sv_seen s)))" "rp_EventID r = eid"
    using find_SomeD assms(2) unfolding find_receipt_def by fast+
  then obtain k where "map_of (sv_seen s) k = Some r" using wf by (auto simp: wf_map_mem)
  with assms(1) \<open>rp_EventID r = eid\<close> show ?thesis by (auto simp: sv_inv_def records_ok_def)
qed

lemma find_receipt_total:
  assumes "service_reach L secret maxQuota s" and "map_of (sv_events s) eid \<noteq> None"
  shows "\<exists>r. find_receipt p eid (sv_seen s) = Some r"
proof (cases "find_receipt p eid (sv_seen s)")
  case None
  obtain k r where "map_of (sv_seen s) k = Some r" "rp_EventID r = eid"
    using service_reach_receipted [OF assms(1)] assms(2) unfolding receipted_def by blast
  then have "r \<in> set (map snd (shuffle p (sv_seen s)))" by (force dest: map_of_SomeD)
  with None \<open>rp_EventID r = eid\<close> show ?thesis by (auto simp: find_receipt_def find_None_iff)
qed simp

lemma receiptFor_ok:
  assumes "service_reach L secret maxQuota s" and "map_of (sv_events s) eid \<noteq> None"
  shows "receipt_ok s (receiptFor p eid (sv_seen s))"
  using find_receipt_total [OF assms, of p] find_receipt_Some [OF service_reach_inv [OF assms(1)]]
  by (auto simp: receiptFor_def)

section \<open>Counts of the summary\<close>

definition in_summary :: "string \<Rightarrow> string \<Rightarrow> Event \<Rightarrow> bool" where
  "in_summary tenant cid e \<longleftrightarrow> ev_TenantID e = tenant \<and> (cid = '''' \<or> ev_ContractID e = cid)"

lemma summary_fold:
  assumes "\<forall>e\<in>set es. \<forall>n. receipt_ok s (receiptFor (\<pi> n) (ev_ID e) (sv_seen s))"
  shows "sm_Total (foldl (summary_step \<pi> s tenant cid) sm (List.enumerate k es)) =
      sm_Total sm + int (length (filter (in_summary tenant cid) es)) \<and>
    sm_Accepted (foldl (summary_step \<pi> s tenant cid) sm (List.enumerate k es)) +
      sm_DeadLettered (foldl (summary_step \<pi> s tenant cid) sm (List.enumerate k es)) =
      sm_Accepted sm + sm_DeadLettered sm + int (length (filter (in_summary tenant cid) es)) \<and>
    sm_Duplicate (foldl (summary_step \<pi> s tenant cid) sm (List.enumerate k es)) = sm_Duplicate sm"
  using assms
proof (induction es arbitrary: sm k)
  case (Cons e es)
  let ?sm = "summary_step \<pi> s tenant cid sm (k, e)"
  have ok: "receipt_ok s (receiptFor (\<pi> (k + 2)) (ev_ID e) (sv_seen s))" using Cons.prems by simp
  have "sm_Total ?sm = sm_Total sm + (if in_summary tenant cid e then 1 else 0)"
    "sm_Accepted ?sm + sm_DeadLettered ?sm = sm_Accepted sm + sm_DeadLettered sm + (if in_summary tenant cid e then 1 else 0)"
    "sm_Duplicate ?sm = sm_Duplicate sm"
    using ok by (auto simp: summary_step_def in_summary_def receipt_ok_def Let_def)
  with Cons.IH [of ?sm "Suc k"] Cons.prems show ?case by simp
qed simp

section \<open>Pages of events\<close>

text \<open>Receipts of the same event agree on the status.\<close>

definition status_stable :: "Service \<Rightarrow> bool" where
  "status_stable s \<longleftrightarrow> (\<forall>x\<in>set (sv_seen s). \<forall>y\<in>set (sv_seen s).
     rp_EventID (snd x) = rp_EventID (snd y) \<longrightarrow> rp_Status (snd x) = rp_Status (snd y))"

lemma find_receipt_cases:
  "find_receipt p eid seen = None \<and> eid \<notin> rp_EventID ` snd ` set seen \<or>
   (\<exists>x\<in>set seen. find_receipt p eid seen = Some (snd x) \<and> rp_EventID (snd x) = eid)"
proof (cases "find_receipt p eid seen")
  case None
  then show ?thesis by (auto simp: find_receipt_def find_None_iff)
next
  case (Some r)
  then have "r \<in> set (map snd (shuffle p seen)) \<and> rp_EventID r = eid" unfolding find_receipt_def by (rule find_SomeD)
  with Some show ?thesis by auto
qed

lemma sEventStatus_stable:
  assumes "status_stable s" and "x \<in> set (sv_seen s)"
  shows "sEventStatus p (rp_EventID (snd x)) (sv_seen s) = rp_Status (snd x)"
proof -
  have "rp_EventID (snd x) \<in> rp_EventID ` snd ` set (sv_seen s)" using assms(2) by blast
  then obtain y where y: "y \<in> set (sv_seen s)" "find_receipt p (rp_EventID (snd x)) (sv_seen s) = Some (snd y)"
    "rp_EventID (snd y) = rp_EventID (snd x)"
    using find_receipt_cases [of p "rp_EventID (snd x)" "sv_seen s"] by blast
  then have "rp_Status (snd y) = rp_Status (snd x)" using assms unfolding status_stable_def by blast
  then show ?thesis unfolding sEventStatus_def y(2) by simp
qed

lemma sEventStatus_order:
  assumes "status_stable s"
  shows "sEventStatus p eid (sv_seen s) = sEventStatus q eid (sv_seen s)"
proof (cases "\<exists>x\<in>set (sv_seen s). eid = rp_EventID (snd x)")
  case True
  then show ?thesis using sEventStatus_stable [OF assms] by auto
next
  case False
  then have "find_receipt o' eid (sv_seen s) = None" for o' using find_receipt_cases [of o' eid "sv_seen s"] by blast
  then show ?thesis by (simp add: sEventStatus_def)
qed

lemma matchesEvent_order:
  assumes "ef_Status f = '''' \<or> status_stable s"
  shows "matchesEvent L p s e f = matchesEvent L q s e f"
proof (cases "ef_Status f = ''''")
  case True
  then show ?thesis by (simp only: matchesEvent_def simp_thms)
next
  case False
  with assms have eq: "sEventStatus p (ev_ID e) (sv_seen s) = sEventStatus q (ev_ID e) (sv_seen s)"
    by (blast intro: sEventStatus_order)
  show ?thesis unfolding matchesEvent_def eq ..
qed

lemma filter_enumerate:
  "\<forall>n e. P n e = Q e \<Longrightarrow> map (\<lambda>(n, e). e) (filter (\<lambda>(n, e). P n e) (List.enumerate k xs)) = filter Q xs"
  by (induction xs arbitrary: k) auto

lemma matching_events_alt:
  assumes "ef_Status f = '''' \<or> status_stable s"
  shows "matching_events L \<pi> s f = sort_slice (\<pi> 1) (\<lambda>e. (ev_ReceivedAt e, ev_ID e))
    (filter (\<lambda>e. matchesEvent L id_order s e f) (map snd (shuffle (\<pi> 0) (sv_events s))))"
  using filter_enumerate [of "\<lambda>n e. matchesEvent L (\<pi> (n + 2)) s e f" "\<lambda>e. matchesEvent L id_order s e f" 0]
    matchesEvent_order [OF assms] by (simp add: matching_events_def)

lemma events_distinct:
  assumes "sv_inv L s"
  shows "distinct (map ev_ID (map snd (sv_events s)))"
proof -
  have wf: "wf_map (sv_events s)" using assms by (simp add: sv_inv_def maps_ok_def)
  have "\<forall>x\<in>set (sv_events s). ev_ID (snd x) = fst x"
    using assms wf_map_mem [OF wf] unfolding sv_inv_def records_ok_def by (metis prod.collapse)
  then have "map ev_ID (map snd (sv_events s)) = map fst (sv_events s)" by simp
  then show ?thesis using wf unfolding wf_map_def by metis
qed

lemma matching_events_mset:
  assumes "ef_Status f = '''' \<or> status_stable s"
  shows "mset (matching_events L \<pi> s f) = mset (filter (\<lambda>e. matchesEvent L id_order s e f) (map snd (sv_events s)))"
  by (simp add: matching_events_alt [OF assms])

text \<open>The answer does not depend on the orders the run-time chooses.\<close>

lemma matching_events_order:
  assumes "sv_inv L s" and "ef_Status f = '''' \<or> status_stable s"
  shows "matching_events L \<pi> s f = matching_events L \<rho> s f"
proof -
  let ?k = "\<lambda>e. (ev_ReceivedAt e, ev_ID e)"
  have "distinct (map ev_ID (filter (\<lambda>e. matchesEvent L id_order s e f) (map snd (sv_events s))))"
    using events_distinct [OF assms(1)] by (rule distinct_map_filter)
  then have d: "distinct (map ev_ID (matching_events L \<pi> s f))"
    using distinct_map_mset [OF matching_events_mset [OF assms(2)]] by blast
  then have "distinct (map snd (map ?k (matching_events L \<pi> s f)))" by (simp add: comp_def)
  then have "distinct (map ?k (matching_events L \<pi> s f))" unfolding distinct_map by blast
  moreover have "sorted (map ?k (matching_events L \<phi> s f))" for \<phi> by (simp add: matching_events_def)
  ultimately show ?thesis
    using matching_events_mset [OF assms(2)] by (intro sorted_distinct_key_unique [where f = ?k]) simp_all
qed

lemma events_page_start:
  "pageable ev_ID out n \<Longrightarrow> events_page out (int n) '''' =
     Inr (take n out, if n < length out then ev_ID (out ! (n - 1)) else '''')"
proof -
  assume ok: "pageable ev_ID out n"
  have "wrap64 (int n) = int n" using ok by (intro wrap64_id) (auto simp: pageable_def)
  moreover have "nat (int n - 1) = n - 1" by simp
  ultimately show ?thesis using ok by (simp add: events_page_def Let_def pageable_def cursorIndex_def)
qed

lemma events_page_after:
  "pageable ev_ID out n \<Longrightarrow> i < length out \<Longrightarrow> events_page out (int n) (ev_ID (out ! i)) =
     Inr (take n (drop (Suc i) out), if Suc i + n < length out then ev_ID (out ! (i + n)) else '''')"
proof -
  assume ok: "pageable ev_ID out n" and i: "i < length out"
  have "ev_ID (out ! i) \<noteq> ''''" using ok i unfolding pageable_def by (metis image_eqI nth_mem)
  then have "cursorIndex out (ev_ID (out ! i)) = Suc i"
    using ok i by (simp add: index_after_nth pageable_def cursorIndex_def)
  moreover have "wrap64 (int (Suc i) + int n) = int (Suc i) + int n"
    using ok i by (intro wrap64_id) (auto simp: pageable_def)
  moreover have "nat (1 + int i) = Suc i" "nat (int i + int n) = i + n" by simp_all
  ultimately show ?thesis using ok i by (simp add: events_page_def Let_def pageable_def)
qed

interpretation event_pages: cursor_pages ev_ID "\<lambda>out n. events_page out (int n)"
  by unfold_locales (rule events_page_start events_page_after, assumption+)+

section \<open>Sample states\<close>

definition any_filter :: "string \<Rightarrow> EventFilter" where
  "any_filter tenant = \<lparr>ef_TenantID = tenant, ef_ContractID = '''', ef_Status = '''', ef_PartitionKey = '''',
     ef_OccurredAfter = 0, ef_OccurredBefore = 0, ef_ReceivedAfter = 0, ef_ReceivedBefore = 0, ef_Search = ''''\<rparr>"

text \<open>An event published before its contract exists and replayed after.\<close>

definition demo_late :: "Receipt result \<times> Service \<times> world" where
  "demo_late = Publish demo_lib (\<lambda>_ _. Inl ErrContractNotFound) demo_event (NewService '''' 5) demo_world"

definition demo_recovered :: "Receipt result \<times> Service \<times> world" where
  "demo_recovered = Replay demo_lib demo_lookup ''id1'' ''op'' (fst (snd demo_late)) (snd (snd demo_late))"

lemma demo_late_reach: "service_reach demo_lib '''' 5 (fst (snd demo_late))"
  by (rule service_reach.step [OF service_reach.start service_step.publish
        [of _ "\<lambda>_ _. Inl ErrContractNotFound" demo_event _ demo_world "fst demo_late" _ "snd (snd demo_late)"]])
    (simp add: demo_late_def)

lemma demo_recovered_reach: "service_reach demo_lib '''' 5 (fst (snd demo_recovered))"
  by (rule service_reach.step [OF demo_late_reach service_step.replay
        [of _ demo_lookup "''id1''" "''op''" _ "snd (snd demo_late)" "fst demo_recovered" _ "snd (snd demo_recovered)"]])
    (simp add: demo_recovered_def)

section \<open>Properties\<close>

text \<open>C22: following the cursors of \<^verbatim>\<open>FindEvents\<close> returns every event that the filter selects, each
  once, in the order of reception and identifier, whatever orders the run-time chooses at each request. (A
  filter on the status needs that the receipts of an event agree on it.)\<close>

theorem find_events_walk:
  assumes "service_reach L secret maxQuota s" and "map_of (sv_events s) '''' = None"
    and "ef_Status f = '''' \<or> status_stable s \<and> ef_Status f \<in> {''accepted'', ''rejected'', ''dead_lettered''}"
    and "1 \<le> n" and "n \<le> 500" and "int (length (sv_events s)) + 500 \<le> MaxInt64" and "length (sv_events s) < fuel"
  shows "\<exists>es. walk_pages (\<lambda>cursor. map_sum (\<lambda>e. e) (\<lambda>page. (ep_Items page, ep_NextCursor page))
        (FindEvents L (\<pi> cursor) s f (int n) cursor)) fuel '''' = Some es \<and>
    set es = {e. map_of (sv_events s) (ev_ID e) = Some e \<and> matchesEvent L id_order s e f} \<and>
    distinct (map ev_ID es) \<and> sorted (map (\<lambda>e. (ev_ReceivedAt e, ev_ID e)) es)"
proof -
  note inv = service_reach_inv [OF assms(1)]
  have st: "ef_Status f = '''' \<or> status_stable s" using assms(3) by blast
  let ?es = "matching_events L (\<lambda>_. id_order) s f"
  have all: "matching_events L (\<pi> c) s f = ?es" for c by (rule matching_events_order [OF inv st])
  note ms = matching_events_mset [OF st, of L "\<lambda>_. id_order"]
  have wf: "wf_map (sv_events s)" using inv by (simp add: sv_inv_def maps_ok_def)
  have keyed: "(k, e) \<in> set (sv_events s) \<longleftrightarrow> k = ev_ID e \<and> map_of (sv_events s) (ev_ID e) = Some e" for k e
    using inv wf_map_mem [OF wf] unfolding sv_inv_def records_ok_def by metis
  have sel: "set ?es = {e. map_of (sv_events s) (ev_ID e) = Some e \<and> matchesEvent L id_order s e f}"
  proof -
    have "snd ` set (sv_events s) = {e. map_of (sv_events s) (ev_ID e) = Some e}"
      using keyed by (auto simp: image_iff) (metis snd_conv)
    with arg_cong [OF ms, of set_mset] show ?thesis by auto
  qed
  have dist: "distinct (map ev_ID ?es)"
    using distinct_map_mset [OF ms, of ev_ID] distinct_map_filter [OF events_distinct [OF inv]] by blast
  have "length ?es = length (filter (\<lambda>e. matchesEvent L id_order s e f) (map snd (sv_events s)))"
    using arg_cong [OF ms, of size] by (simp only: size_mset)
  then have "length ?es \<le> length (sv_events s)" by (metis length_filter_le length_map)
  then have ok: "pageable ev_ID ?es n" and len: "length ?es < fuel"
    using dist sel assms(2,4-7) by (auto simp: pageable_def)
  have "clamp_limit (int n) = int n" using assms(4,5) by (simp add: clamp_limit_def)
  then have "(\<lambda>cursor. map_sum (\<lambda>e. e) (\<lambda>page. (ep_Items page, ep_NextCursor page)) (FindEvents L (\<pi> cursor) s f (int n) cursor)) =
      events_page ?es (int n)"
    using assms(3) by (intro ext) (auto simp: FindEvents_def all Let_def split: sum.splits)
  moreover have "sorted (map (\<lambda>e. (ev_ReceivedAt e, ev_ID e)) ?es)" by (simp add: matching_events_def)
  ultimately show ?thesis using event_pages.walk_all [OF ok len] sel dist by auto
qed

theorem find_events_walk_witness:
  "\<exists>es. walk_pages (\<lambda>cursor. map_sum (\<lambda>e. e) (\<lambda>page. (ep_Items page, ep_NextCursor page))
        (FindEvents demo_lib demo_orders (fst (snd (demo_run demo_event))) (any_filter ''acme'') (int 1) cursor)) 2 '''' = Some es \<and>
     distinct (map ev_ID es)"
proof -
  have "map_of (sv_events (fst (snd (demo_run demo_event)))) '''' = None" "length (sv_events (fst (snd (demo_run demo_event)))) = 1"
    by code_simp+
  then show ?thesis
    using find_events_walk [OF demo_run_reach, of demo_event "any_filter ''acme''" 1 2 "\<lambda>_. demo_orders"] by (auto simp: any_filter_def)
qed

text \<open>C38: \<^verbatim>\<open>GetEvent\<close> gives an event only to its tenant, with a receipt of that event that states its outcome
  and names one of its recorded attempts.\<close>

theorem get_event_boundary:
  assumes "service_reach L secret maxQuota s" and "GetEvent p s tenant eid = Inr (e, r)"
  shows "ev_TenantID e = tenant \<and> ev_ID e = eid \<and> map_of (sv_events s) eid = Some e \<and> rp_EventID r = eid \<and>
    rp_Status r = (if rp_Reasons r = [] then Accepted else DeadLettered) \<and>
    (\<exists>a\<in>set (Attempts s eid). at_ID a = rp_AttemptID r \<and> at_Status a = rp_Status r)"
proof -
  note inv = service_reach_inv [OF assms(1)]
  obtain r' where ev: "map_of (sv_events s) eid = Some e" "ev_TenantID e = tenant"
    and r: "find_receipt p eid (sv_seen s) = Some r' \<and> r = r' \<or> find_receipt p eid (sv_seen s) = None"
    using assms(2) by (auto simp: GetEvent_def split: option.splits if_splits)
  have "find_receipt p eid (sv_seen s) = Some r" using find_receipt_total [OF assms(1), of eid p] ev r by auto
  from find_receipt_Some [OF inv this] ev inv show ?thesis
    by (auto simp: receipt_ok_def Attempts_def sv_inv_def records_ok_def)
qed

theorem get_event_boundary_witness:
  "\<exists>e. GetEvent id_order (fst (snd (demo_run demo_event))) ''acme'' ''e1'' = Inr (e, demo_receipt) \<and> ev_ID e = ''e1''"
proof -
  let ?g = "GetEvent id_order (fst (snd (demo_run demo_event))) ''acme'' ''e1''"
  have "map_sum id snd ?g = Inr demo_receipt" by code_simp
  then obtain e where e: "?g = Inr (e, demo_receipt)" by (cases ?g) auto
  with get_event_boundary [OF demo_run_reach e] show ?thesis by blast
qed



text \<open>After a successful replay an event has two receipts, the one that dead-lettered it and the one that
  accepted it; which of them decides its status in searches, reads and summaries depends on the order in
  which the run-time visits the map.\<close>

theorem status_after_replay_ambiguous:
  "\<exists>s p q. service_reach demo_lib '''' 5 s \<and> sEventStatus p ''e1'' (sv_seen s) = Accepted \<and>
     sEventStatus q ''e1'' (sv_seen s) = DeadLettered"
proof -
  have "sEventStatus (\<lambda>n. rev [0..<n]) ''e1'' (sv_seen (fst (snd demo_recovered))) = Accepted"
    "sEventStatus id_order ''e1'' (sv_seen (fst (snd demo_recovered))) = DeadLettered"
    by code_simp+
  with demo_recovered_reach show ?thesis by blast
qed

end
