(* ===== verification/Gateway.thy ===== *)
theory Gateway
  imports ContractService EventQuery
begin

text \<open>
  Facts that span the registry and the ingestion service: the store of the registry is the contract
  lookup of the service, as \<^verbatim>\<open>cmd/gateway/main.go\<close> wires them, and a compatibility verdict of
  the registry is related to the payload check of the service.
\<close>

section \<open>Compatibility and payloads\<close>

text \<open>
  What a compatible change needs, beyond the verdict, so that payloads of the old schema pass the
  new one: no new required field relies on a default (defaults are never applied to a payload), and no
  field that had no enumeration gets one.
\<close>

definition no_hidden_break :: "Field list \<Rightarrow> Field list \<Rightarrow> bool" where
  "no_hidden_break old neu \<longleftrightarrow> list_all (\<lambda>nf. f_Required nf \<longrightarrow> f_Default nf = VNil) neu \<and>
     list_all (\<lambda>f. list_all (\<lambda>nf. f_Name f = f_Name nf \<and> f_Enum f = [] \<longrightarrow> f_Enum nf = []) neu) old"

lemma conforms_mono:
  assumes "conforms L payload f" and "f_Name f = f_Name nf" and "field_compatible f nf"
    and "f_Required nf \<longrightarrow> f_Default nf = VNil" and "f_Enum f = [] \<longrightarrow> f_Enum nf = []"
  shows "conforms L payload nf"
  using assms by (auto simp: conforms_def field_compatible_def split: option.splits if_splits)

lemma schema_compatible_conforms:
  assumes comp: "schema_compatible mode old neu" and mode: "mode \<noteq> Forward" and safe: "no_hidden_break old neu"
    and d: "distinct (map f_Name neu)" and pay: "\<forall>f\<in>set old. conforms L payload f"
    and keys: "\<forall>k\<in>fst ` set payload. k \<in> f_Name ` set old" and nf: "nf \<in> set neu"
  shows "conforms L payload nf"
proof -
  have idx: "map_of (index_fields neu) (f_Name nf) = Some nf" using index_distinct [OF d] nf by simp
  have req: "f_Required nf \<longrightarrow> f_Default nf = VNil" using safe nf by (simp add: no_hidden_break_def list_all_iff)
  show ?thesis
  proof (cases "map_of (index_fields old) (f_Name nf)")
    case None
    then have "map_of payload (f_Name nf) = None" using keys by (metis index_None map_of_eq_None_iff)
    moreover have "\<not> f_Required nf"
      using comp mode None req wf_map_mem [OF wf_map_index, of "f_Name nf" nf neu] idx
      unfolding schema_compatible_def by fastforce
    ultimately show ?thesis by (simp add: conforms_def)
  next
    case (Some f)
    note f = index_Some [OF Some]
    have mem: "(f_Name nf, f) \<in> set (index_fields old)" using Some by (simp add: wf_map_mem)
    have "\<forall>(n, f)\<in>set (index_fields old).
        case map_of (index_fields neu) n of None \<Rightarrow> mode = Forward | Some nf \<Rightarrow> field_compatible f nf"
      using comp unfolding schema_compatible_def by (rule conjunct1)
    from bspec [OF this mem] have "field_compatible f nf" by (simp add: idx)
    moreover have "f_Enum f = [] \<longrightarrow> f_Enum nf = []"
      using safe f nf unfolding no_hidden_break_def list_all_iff by blast
    ultimately show ?thesis using conforms_mono [of L payload f nf] f pay req by blast
  qed
qed

section \<open>The registry as lookup\<close>

lemma registry_lookup:
  assumes "registry_reach L st" and "Find st tenant cid = Inr c"
  shows "contract_reach L c" "store_key (c_OrganizationID c) (c_ID c) = store_key tenant cid"
proof -
  note inv = registry_reach_inv [OF assms(1)]
  have look: "map_of (mc_values st) (store_key tenant cid) = Some c"
    using mem.find_Inr [of st tenant cid c] inv assms(2) by simp
  with inv show "contract_reach L c" by blast
  show "store_key (c_OrganizationID c) (c_ID c) = store_key tenant cid" using mem.stored [of st] inv look by blast
qed

text \<open>What an admissible event has behind it.\<close>

lemma admissible_version:
  assumes "admissible L contracts s e"
  shows "\<exists>c v. contracts (ev_TenantID e) (ev_ContractID e) = Inr c \<and> v \<in> set (c_Versions c) \<and>
    v_Number v = ev_SchemaVersion e \<and> v_Lifecycle v = Published \<and>
    ValidatePayload L (entries (ev_Payload e)) (s_Fields (v_Schema v)) = []"
proof -
  obtain c i where "contracts (ev_TenantID e) (ev_ContractID e) = Inr c"
    and i: "version_index (ev_SchemaVersion e) (c_Versions c) = Some i"
    and "v_Lifecycle (c_Versions c ! i) = Published"
    and "list_all (conforms L (entries (ev_Payload e))) (s_Fields (v_Schema (c_Versions c ! i)))"
    using assms by (auto simp: admissible_def split: sum.splits option.splits)
  moreover from i have "i < length (c_Versions c)" "v_Number (c_Versions c ! i) = ev_SchemaVersion e"
    by (simp_all add: version_index_Some)
  ultimately show ?thesis
    by (intro exI [of _ c] exI [of _ "c_Versions c ! i"]) (simp add: ValidatePayload_Nil list_all_iff)
qed

section \<open>Sample gateway\<close>

definition demo_pipeline :: MemoryContracts where
  "demo_pipeline =
     (let (r1, st1, w1) = Register memory_repository ''acme'' \<lparr>rc_Name = ''orders'', rc_Description = '''', rc_Compatibility = ''''\<rparr>
            NewMemoryContracts demo_world;
          (r2, st2, w2) = AddVersion demo_lib demo_orders memory_repository ''acme'' ''id0'' demo_schema st1 w1;
          (r3, st3, w3) = Publish_version memory_repository ''acme'' ''id0'' 1 ''id0-2'' st2 w2
      in st3)"

lemma demo_pipeline_reach: "registry_reach demo_lib demo_pipeline"
  by (simp add: demo_pipeline_def split_beta Let_def)
    (rule registry_reach.publish [OF registry_reach.add [OF registry_reach.register [OF registry_reach.start]]],
     (rule prod.collapse [symmetric] | simp add: prod_eq_iff)+)

definition demo_order :: Event where
  "demo_order = demo_event\<lparr>ev_ContractID := ''id0''\<rparr>"

definition demo_gateway :: "Receipt result \<times> Service \<times> world" where
  "demo_gateway = Publish demo_lib (Find demo_pipeline) demo_order (NewService '''' 5) demo_world"

lemma demo_gateway_accepted: "fst demo_gateway = Inr demo_receipt"
  by code_simp

definition demo_narrow :: Schema where
  "demo_narrow = demo_schema\<lparr>s_Fields := s_Fields demo_schema @ [demo_field ''note'' ''string'' False]\<rparr>"

definition demo_default :: Schema where
  "demo_default = demo_schema\<lparr>s_Fields := s_Fields demo_schema @ [(demo_field ''note'' ''string'' True)\<lparr>f_Default := VString ''n''\<rparr>]\<rparr>"

text \<open>The condition on defaults is needed: a new required field with a default is reported as compatible, and
  a payload of the old schema then fails the check of the new one.\<close>

lemma default_hides_break:
  "r_Compatible (Compare demo_lib demo_orders demo_schema demo_default Backward) \<and>
   ValidatePayload demo_lib [(''id'', VString ''x'')] (s_Fields demo_schema) = [] \<and>
   ValidatePayload demo_lib [(''id'', VString ''x'')] (s_Fields demo_default) \<noteq> []"
  by code_simp

end
