(* ===== verification/GoConv.thy ===== *)
theory GoConv
  imports GoLib
begin

text \<open>
  Conversions of the standard library that the configuration uses: \<^verbatim>\<open>strconv.ParseBool\<close>,
  \<^verbatim>\<open>time.ParseDuration\<close> and \<^verbatim>\<open>Duration.String\<close>. A duration is read as a sequence of decimal numbers
  with units; the value of a fraction is computed in 64-bit floating point, as the library does.
\<close>

section \<open>Booleans\<close>

definition ParseBool :: "string \<Rightarrow> bool option" where
  "ParseBool s =
     (if s \<in> set [''1'', ''t'', ''T'', ''TRUE'', ''true'', ''True''] then Some True
      else if s \<in> set [''0'', ''f'', ''F'', ''FALSE'', ''false'', ''False''] then Some False
      else None)"

lemma ParseBool_str [simp]: "ParseBool (bool_str b) = Some b"
  by (simp add: ParseBool_def bool_str_def)

section \<open>Reading durations\<close>

definition is_digit :: "char \<Rightarrow> bool" where
  "is_digit c \<longleftrightarrow> 48 \<le> (of_char c :: nat) \<and> of_char c \<le> (57 :: nat)"

definition digit_val :: "char \<Rightarrow> nat" where
  "digit_val c = of_char c - 48"

text \<open>\<^verbatim>\<open>leadingInt\<close>: the leading digits as a number of at most \<open>2 ^ 63\<close>, and the rest.\<close>

fun leadingInt :: "string \<Rightarrow> nat \<Rightarrow> (nat \<times> string) option" where
  "leadingInt [] x = Some (x, [])"
| "leadingInt (c # cs) x =
     (if \<not> is_digit c then Some (x, c # cs)
      else if x > 2 ^ 63 div 10 then None
      else let y = x * 10 + digit_val c in if y > 2 ^ 63 then None else leadingInt cs y)"

text \<open>\<^verbatim>\<open>leadingFraction\<close>: digits beyond the precision are dropped.\<close>

fun leadingFraction :: "string \<Rightarrow> nat \<Rightarrow> nat \<Rightarrow> bool \<Rightarrow> nat \<times> nat \<times> string" where
  "leadingFraction [] x scale overflow = (x, scale, [])"
| "leadingFraction (c # cs) x scale overflow =
     (if \<not> is_digit c then (x, scale, c # cs)
      else if overflow \<or> x > (2 ^ 63 - 1) div 10 then leadingFraction cs x scale True
      else let y = x * 10 + digit_val c
           in if y > 2 ^ 63 then leadingFraction cs x scale True else leadingFraction cs y (scale * 10) False)"

definition unit_val :: "string \<Rightarrow> nat option" where
  "unit_val u = map_of
     [(''ns'', 1), (''us'', 1000), ([CHR 0xC2, CHR 0xB5, CHR ''s''], 1000), ([CHR 0xCE, CHR 0xBC, CHR ''s''], 1000),
      (''ms'', 1000000), (''s'', 1000000000), (''m'', 60000000000), (''h'', 3600000000000)] u"

fun f64_trunc :: "f64 \<Rightarrow> nat" where
  "f64_trunc (Fin x) = nat (trunc_rat x)"
| "f64_trunc _ = 0"

fun f64_times :: "f64 \<Rightarrow> f64 \<Rightarrow> f64" where
  "f64_times (Fin x) (Fin y) = round_f64 (x * y)"
| "f64_times _ _ = NaN"

text \<open>\<^verbatim>\<open>uint64(float64(f) * (float64(unit) / scale))\<close>; the operands are positive and finite.\<close>

definition fraction_val :: "nat \<Rightarrow> nat \<Rightarrow> nat \<Rightarrow> nat" where
  "fraction_val f unit scale =
     f64_trunc (f64_times (round_f64 (of_nat f)) (round_f64 (of_nat unit / of_nat scale)))"

definition unit_end :: "char \<Rightarrow> bool" where
  "unit_end c \<longleftrightarrow> c = CHR ''.'' \<or> is_digit c"

text \<open>One number with its unit: its value and the rest of the text. The sum of the values is a 64-bit
  unsigned number.\<close>

definition duration_item :: "string \<Rightarrow> (nat \<times> string) option" where
  "duration_item s =
     (if s = [] \<or> \<not> unit_end (hd s) then None
      else case leadingInt s 0 of
        None \<Rightarrow> None
      | Some (v, s1) \<Rightarrow>
          let pre = (length s1 \<noteq> length s);
              dot = (s1 \<noteq> [] \<and> hd s1 = CHR ''.'');
              (f, scale, s2) = (if dot then leadingFraction (tl s1) 0 1 False else (0, 1, s1));
              post = (dot \<and> length s2 \<noteq> length (tl s1));
              u = takeWhile (\<lambda>c. \<not> unit_end c) s2;
              s3 = dropWhile (\<lambda>c. \<not> unit_end c) s2
          in if \<not> pre \<and> \<not> post \<or> u = [] then None
             else case unit_val u of
                    None \<Rightarrow> None
                  | Some unit \<Rightarrow>
                      if v > 2 ^ 63 div unit then None
                      else let n = v * unit + (if f > 0 then fraction_val f unit scale else 0)
                           in if n > 2 ^ 63 then None else Some (n, s3))"

lemma leadingInt_length: "leadingInt s x = Some (y, r) \<Longrightarrow> length r \<le> length s"
  by (induction s arbitrary: x) (auto simp: Let_def split: if_splits intro: le_SucI)

lemma leadingFraction_length: "length (snd (snd (leadingFraction s x k b))) \<le> length s"
  by (induction s arbitrary: x k b) (auto simp: Let_def intro: le_SucI)

lemma duration_item_length:
  assumes "duration_item s = Some (n, r)"
  shows "length r < length s"
proof -
  obtain v s1 where v: "leadingInt s 0 = Some (v, s1)"
    using assms by (auto simp: duration_item_def split: if_splits option.splits)
  obtain f k s2 where f: "(if s1 \<noteq> [] \<and> hd s1 = CHR ''.'' then leadingFraction (tl s1) 0 1 False else (0, 1, s1)) = (f, k, s2)"
    by (metis prod_cases3)
  have "length s2 \<le> length s1"
    using f leadingFraction_length [of "tl s1" 0 1 False] by (auto split: if_splits)
  moreover have "r = dropWhile (\<lambda>c. \<not> unit_end c) s2" "takeWhile (\<lambda>c. \<not> unit_end c) s2 \<noteq> []"
    using assms v f by (auto simp: duration_item_def Let_def split: if_splits option.splits)
  moreover from this(2) have "length (dropWhile (\<lambda>c. \<not> unit_end c) s2) < length s2"
    by (metis add_less_same_cancel2 length_append length_greater_0_conv not_add_less2 takeWhile_dropWhile_id linorder_neqE_nat less_add_same_cancel2)
  ultimately show ?thesis using leadingInt_length [OF v] by simp
qed

function duration_items :: "string \<Rightarrow> nat \<Rightarrow> nat option" where
  "duration_items s d =
     (if s = [] then Some d
      else case duration_item s of
        None \<Rightarrow> None
      | Some (v, r) \<Rightarrow> let d' = (d + v) mod 2 ^ 64 in if d' > 2 ^ 63 then None else duration_items r d')"
  by pat_completeness auto
termination
  by (relation "measure (\<lambda>(s, d). length s)") (auto dest: duration_item_length)

declare duration_items.simps [simp del]

definition ParseDuration :: "string \<Rightarrow> duration option" where
  "ParseDuration s0 =
     (let neg = (s0 \<noteq> [] \<and> hd s0 = CHR ''-'');
          s = (if s0 \<noteq> [] \<and> (hd s0 = CHR ''-'' \<or> hd s0 = CHR ''+'') then tl s0 else s0)
      in if s = ''0'' then Some 0
         else if s = [] then None
         else case duration_items s 0 of
           None \<Rightarrow> None
         | Some d \<Rightarrow> if neg then Some (- int d) else if d > 2 ^ 63 - 1 then None else Some (int d))"

section \<open>Writing durations\<close>

text \<open>\<^verbatim>\<open>fmtFrac\<close>: the fraction of \<open>v / 10 ^ prec\<close> without trailing zeros, and the integral part.\<close>

fun fmtFrac :: "nat \<Rightarrow> nat \<Rightarrow> bool \<Rightarrow> string \<Rightarrow> string \<times> nat" where
  "fmtFrac v 0 started acc = (if started then CHR ''.'' # acc else acc, v)"
| "fmtFrac v (Suc prec) started acc =
     (let d = v mod 10; p = (started \<or> d \<noteq> 0)
      in fmtFrac (v div 10) prec p (if p then digit d # acc else acc))"

definition Duration_String :: "duration \<Rightarrow> string" where
  "Duration_String d =
     (let u = nat \<bar>d\<bar>;
          body =
            (if u < 1000000000 then
               (if u = 0 then ''0s''
                else let (prec, unit) = (if u < 1000 then (0, ''ns'')
                                         else if u < 1000000 then (3, [CHR 0xC2, CHR 0xB5, CHR ''s''])
                                         else (6, ''ms''));
                         (frac, v) = fmtFrac u prec False []
                     in nat_str v @ frac @ unit)
             else let (frac, secs) = fmtFrac u 9 False [];
                      s = nat_str (secs mod 60) @ frac @ ''s'';
                      mins = secs div 60
                  in if mins = 0 then s
                     else let m = nat_str (mins mod 60) @ ''m'' @ s; hours = mins div 60
                          in if hours = 0 then m else nat_str hours @ ''h'' @ m)
      in if d < 0 then CHR ''-'' # body else body)"

section \<open>Whole seconds survive the round trip\<close>

lemma digit_code: "d < 10 \<Longrightarrow> of_char (digit d) = 48 + (d :: nat)"
  by (simp add: digit_def)

lemma is_digit_digit [simp]: "d < 10 \<Longrightarrow> is_digit (digit d)"
  by (simp add: is_digit_def digit_code)

lemma digit_val_digit [simp]: "d < 10 \<Longrightarrow> digit_val (digit d) = d"
  by (simp add: digit_val_def digit_code)

lemma nat_str_hd: "is_digit (hd (nat_str n))"
proof (induction n rule: nat_str.induct)
  case (1 n)
  then show ?case by (subst nat_str.simps) (auto simp: hd_append)
qed

lemma leadingInt_nat_str: "n \<le> 2 ^ 63 \<Longrightarrow> leadingInt (nat_str n @ t) 0 = leadingInt t n"
proof (induction n arbitrary: t rule: nat_str.induct)
  case (1 n)
  show ?case
  proof (cases "n < 10")
    case True
    then show ?thesis by (subst nat_str.simps) (simp add: Let_def)
  next
    case False
    have "leadingInt (nat_str (n div 10) @ digit (n mod 10) # t) 0 = leadingInt (digit (n mod 10) # t) (n div 10)"
      using 1 False by simp
    moreover have "n div 10 \<le> 2 ^ 63 div 10" using 1(2) by (rule div_le_mono)
    ultimately show ?thesis using 1(2) False by (subst nat_str.simps) (simp add: Let_def)
  qed
qed

text \<open>A whole number with a unit, followed by nothing or by another number.\<close>

lemma duration_item_nat:
  assumes unit: "unit_val u = Some k" "u \<noteq> []" "list_all (\<lambda>c. \<not> unit_end c) u"
    and n: "n * k \<le> 2 ^ 63" and k: "0 < k" and r: "r = [] \<or> unit_end (hd r)"
  shows "duration_item (nat_str n @ u @ r) = Some (n * k, r)"
proof -
  let ?s = "nat_str n @ u @ r"
  have u0: "\<not> unit_end (hd u)" using unit(2,3) by (cases u) simp_all
  have "n \<le> 2 ^ 63" using n k by (metis Suc_leI le_trans mult_le_mono2 mult.right_neutral One_nat_def)
  then have li: "leadingInt ?s 0 = Some (n, u @ r)"
    using unit(2) u0 by (cases u) (simp_all add: leadingInt_nat_str unit_end_def)
  have "takeWhile (\<lambda>c. \<not> unit_end c) (u @ r) = u" "dropWhile (\<lambda>c. \<not> unit_end c) (u @ r) = r"
    using unit(3) r by (cases r; simp add: takeWhile_append2 dropWhile_append2 list_all_iff)+
  moreover have "hd (u @ r) \<noteq> CHR ''.''" using u0 unit(2) by (simp add: unit_end_def)
  moreover have "?s \<noteq> []" "unit_end (hd ?s)" using nat_str_hd [of n] by (simp_all add: unit_end_def)
  moreover have "\<not> n > 2 ^ 63 div k" using n k by (simp add: less_eq_div_iff_mult_less_eq not_less)
  ultimately show ?thesis
    using unit(1,2) n unfolding duration_item_def li Let_def by (simp add: split_beta)
qed

lemma unit_s: "unit_val ''s'' = Some 1000000000" "list_all (\<lambda>c. \<not> unit_end c) ''s''"
  and unit_m: "unit_val ''m'' = Some 60000000000" "list_all (\<lambda>c. \<not> unit_end c) ''m''"
  and unit_h: "unit_val ''h'' = Some 3600000000000" "list_all (\<lambda>c. \<not> unit_end c) ''h''"
  by (simp_all add: unit_val_def unit_end_def is_digit_def)

lemma unit_end_nat_str: "unit_end (hd (nat_str n @ t))"
  using nat_str_hd [of n] by (simp add: unit_end_def)

lemma items_step:
  assumes "duration_item s = Some (v, r)" and "s \<noteq> []" and "d + v \<le> 2 ^ 63"
  shows "duration_items s d = duration_items r (d + v)"
  using assms by (subst duration_items.simps) (simp add: Let_def)

lemma items_Nil [simp]: "duration_items [] d = Some d"
  by (subst duration_items.simps) simp

lemma fmtFrac_whole: "fmtFrac (n * 10 ^ p) p False acc = (acc, n)"
  by (induction p arbitrary: n) (simp_all add: Let_def)

lemma Duration_String_whole:
  "0 < n \<Longrightarrow> Duration_String (int n * Second) =
     (let s = nat_str (n mod 60) @ ''s''
      in if n < 60 then s
         else let m = nat_str (n div 60 mod 60) @ ''m'' @ s
              in if n < 3600 then m else nat_str (n div 3600) @ ''h'' @ m)"
proof -
  assume n: "0 < n"
  have u: "nat (int n * 1000000000) = n * 1000000000" by (simp add: nat_mult_distrib)
  have "\<not> n * 1000000000 < 1000000000" using n by simp
  moreover have "n div 60 div 60 = n div 3600" by (simp add: div_mult2_eq [symmetric])
  ultimately show ?thesis
    using fmtFrac_whole [of n 9 "[]"] by (auto simp: Duration_String_def Let_def u)
qed

lemma ParseDuration_digits:
  assumes "s \<noteq> []" and "is_digit (hd s)" and "s \<noteq> ''0''" and "duration_items s 0 = Some d" and "d < 2 ^ 63"
  shows "ParseDuration s = Some (int d)"
  using assms by (auto simp: ParseDuration_def is_digit_def)

text \<open>The library reads what it writes, for every number of whole seconds.\<close>

lemma ParseDuration_String_whole:
  assumes "int n * Second \<le> MaxInt64"
  shows "ParseDuration (Duration_String (int n * Second)) = Some (int n * Second)"
proof (cases "n = 0")
  case True
  have z: "nat_str 0 = ''0''" by code_simp
  have "duration_item (nat_str 0 @ ''s'' @ []) = Some (0 * 1000000000, [])"
    by (rule duration_item_nat [OF unit_s(1) _ unit_s(2)]) simp_all
  then have "duration_items ''0s'' 0 = Some 0" using items_step [of "''0s''" 0 "[]" 0] by (simp add: z)
  then show ?thesis using True by (simp add: ParseDuration_def Duration_String_def)
next
  case False
  define S M H where "S = n mod 60" and "M = n div 60 mod 60" and "H = n div 3600"
  have n: "n = H * 3600 + M * 60 + S"
  proof -
    have "n div 60 = H * 60 + M" using div_mult2_eq [of n 60 60] by (simp add: H_def M_def)
    moreover have "n = n div 60 * 60 + S" by (simp add: S_def)
    ultimately show ?thesis by linarith
  qed
  have bound: "n * 1000000000 < 2 ^ 63" using assms by simp
  let ?s = "nat_str S @ ''s'' @ []" and ?m = "nat_str M @ ''m'' @ (nat_str S @ ''s'' @ [])"
  let ?h = "nat_str H @ ''h'' @ ?m"
  have s: "duration_item ?s = Some (S * 1000000000, [])"
    by (rule duration_item_nat [OF unit_s(1) _ unit_s(2)]) (use bound n in simp_all)
  have m: "duration_item ?m = Some (M * 60000000000, ?s)"
    by (rule duration_item_nat [OF unit_m(1) _ unit_m(2)]) (use bound n unit_end_nat_str in simp_all)
  have h: "duration_item ?h = Some (H * 3600000000000, ?m)"
    by (rule duration_item_nat [OF unit_h(1) _ unit_h(2)]) (use bound n unit_end_nat_str in simp_all)
  have isec: "d + S * 1000000000 \<le> 2 ^ 63 \<Longrightarrow> duration_items ?s d = Some (d + S * 1000000000)" for d
    using items_step [OF s] by simp
  have im: "d + M * 60000000000 + S * 1000000000 \<le> 2 ^ 63 \<Longrightarrow>
      duration_items ?m d = Some (d + M * 60000000000 + S * 1000000000)" for d
    using items_step [OF m, of d] isec [of "d + M * 60000000000"] by simp
  have ih: "duration_items ?h 0 = Some (n * 1000000000)"
    using items_step [OF h, of 0] im [of "H * 3600000000000"] bound n by simp
  let ?t = "if n < 60 then ?s else if n < 3600 then ?m else ?h"
  have str: "Duration_String (int n * Second) = ?t"
    using Duration_String_whole [of n] False by (simp add: Let_def S_def M_def H_def)
  have "duration_items ?t 0 = Some (n * 1000000000)"
    using isec [of 0] im [of 0] ih bound n by auto
  moreover have "is_digit (hd ?t)" using nat_str_hd [of S] nat_str_hd [of M] nat_str_hd [of H] by simp
  moreover have "?t \<noteq> []" "?t \<noteq> ''0''" using nat_str_nonempty by (auto simp: append_eq_Cons_conv)
  ultimately have "ParseDuration ?t = Some (int (n * 1000000000))"
    using bound by (intro ParseDuration_digits) simp_all
  then show ?thesis unfolding str by simp
qed

end
