(* ===== verification/Config.thy ===== *)
theory Config
  imports GoConv
begin

text \<open>
  The configuration, \<^verbatim>\<open>platform/config/config.go\<close>. The environment of the process is a function from
  names to values that gives the empty string for a variable that is not set, as \<^verbatim>\<open>os.Getenv\<close> does.
\<close>

type_synonym environment = "string \<Rightarrow> string"

record Config =
  cf_Address :: string
  cf_ShutdownTimeout :: duration
  cf_MaxBodyBytes :: int
  cf_WorkerCount :: int
  cf_DefaultQuota :: int
  cf_HMACSecret :: string
  cf_Environment :: string
  cf_ReadinessEnabled :: bool

definition env :: "environment \<Rightarrow> string \<Rightarrow> string \<Rightarrow> string" where
  "env E k d = (let v = TrimSpace (E k) in if v \<noteq> '''' then v else d)"

definition integer :: "environment \<Rightarrow> string \<Rightarrow> int \<Rightarrow> int" where
  "integer E k d = (case Atoi (env E k (Itoa d)) of None \<Rightarrow> d | Some v \<Rightarrow> v)"

text \<open>In base 10 and with 64 bits \<^verbatim>\<open>ParseInt\<close> and \<^verbatim>\<open>FormatInt\<close> are \<open>Atoi\<close> and \<open>Itoa\<close>.\<close>

definition integer64 :: "environment \<Rightarrow> string \<Rightarrow> int \<Rightarrow> int" where
  "integer64 E k d = (case Atoi (env E k (Itoa d)) of None \<Rightarrow> d | Some v \<Rightarrow> v)"

definition duration :: "environment \<Rightarrow> string \<Rightarrow> duration \<Rightarrow> duration" where
  "duration E k d = (case ParseDuration (env E k (Duration_String d)) of None \<Rightarrow> d | Some v \<Rightarrow> v)"

definition boolean :: "environment \<Rightarrow> string \<Rightarrow> bool \<Rightarrow> bool" where
  "boolean E k d = (case ParseBool (env E k (bool_str d)) of None \<Rightarrow> d | Some v \<Rightarrow> v)"

definition read_config :: "environment \<Rightarrow> Config" where
  "read_config E = \<lparr>cf_Address = env E ''ECQG_ADDRESS'' '':8080'',
     cf_ShutdownTimeout = duration E ''ECQG_SHUTDOWN_TIMEOUT'' (15 * Second),
     cf_MaxBodyBytes = integer64 E ''ECQG_MAX_BODY_BYTES'' (2 ^ 20),
     cf_WorkerCount = integer E ''ECQG_WORKER_COUNT'' 4,
     cf_DefaultQuota = integer E ''ECQG_DEFAULT_QUOTA'' 1000,
     cf_HMACSecret = E ''ECQG_HMAC_SECRET'',
     cf_Environment = env E ''ECQG_ENV'' ''development'',
     cf_ReadinessEnabled = boolean E ''ECQG_READINESS_ENABLED'' True\<rparr>"

definition Load :: "environment \<Rightarrow> Config result" where
  "Load E =
     (let c = read_config E
      in if cf_MaxBodyBytes c < 1024 then Inl ErrMaxBodyBytes
         else if cf_WorkerCount c < 1 \<or> cf_WorkerCount c > 128 then Inl ErrWorkerCount
         else if cf_DefaultQuota c < 1 then Inl ErrDefaultQuota
         else Inr c)"

section \<open>What the variables mean\<close>

lemma Atoi_range: "Atoi s = Some n \<Longrightarrow> MinInt64 \<le> n \<and> n \<le> MaxInt64"
  by (auto simp: Atoi_def in_int64_def split: list.splits if_splits Option.bind_splits)

lemma integer64_same: "integer64 = integer"
  by (simp add: fun_eq_iff integer64_def integer_def)

lemma integer_range: "MinInt64 \<le> d \<Longrightarrow> d \<le> MaxInt64 \<Longrightarrow> MinInt64 \<le> integer E k d \<and> integer E k d \<le> MaxInt64"
  by (auto simp: integer_def dest: Atoi_range split: option.splits)

text \<open>A variable that is not set, or blank, leaves the default, and so does a value that is not a number.\<close>

lemma env_blank: "TrimSpace (E k) = '''' \<Longrightarrow> env E k d = d"
  by (simp add: env_def)

lemma integer_blank: "TrimSpace (E k) = '''' \<Longrightarrow> MinInt64 \<le> d \<Longrightarrow> d \<le> MaxInt64 \<Longrightarrow> integer E k d = d"
  using Atoi_Itoa [of d] by (auto simp: integer_def env_blank split: option.splits)

lemma integer_malformed: "TrimSpace (E k) \<noteq> '''' \<Longrightarrow> Atoi (TrimSpace (E k)) = None \<Longrightarrow> integer E k d = d"
  by (simp add: integer_def env_def)

lemma integer_set: "Atoi (TrimSpace (E k)) = Some n \<Longrightarrow> integer E k d = n"
proof -
  assume a: "Atoi (TrimSpace (E k)) = Some n"
  then have "TrimSpace (E k) \<noteq> ''''" by (auto simp: Atoi_def)
  with a show ?thesis by (simp add: integer_def env_def)
qed

lemma boolean_blank: "TrimSpace (E k) = '''' \<Longrightarrow> boolean E k d = d"
  by (simp add: boolean_def env_blank)

lemma duration_blank: "TrimSpace (E k) = '''' \<Longrightarrow> int n * Second \<le> MaxInt64 \<Longrightarrow> duration E k (int n * Second) = int n * Second"
  using ParseDuration_String_whole [of n] by (simp add: duration_def env_blank)

definition default_config :: "string \<Rightarrow> Config" where
  "default_config secret = \<lparr>cf_Address = '':8080'', cf_ShutdownTimeout = 15 * Second, cf_MaxBodyBytes = 2 ^ 20,
     cf_WorkerCount = 4, cf_DefaultQuota = 1000, cf_HMACSecret = secret, cf_Environment = ''development'',
     cf_ReadinessEnabled = True\<rparr>"

text \<open>The bounds a configuration must satisfy.\<close>

definition config_ok :: "Config \<Rightarrow> bool" where
  "config_ok c \<longleftrightarrow> 1024 \<le> cf_MaxBodyBytes c \<and> cf_MaxBodyBytes c \<le> MaxInt64 \<and> 1 \<le> cf_WorkerCount c \<and>
     cf_WorkerCount c \<le> 128 \<and> 1 \<le> cf_DefaultQuota c \<and> cf_DefaultQuota c \<le> MaxInt64"

lemma Load_Inr: "Load E = Inr c \<longleftrightarrow> c = read_config E \<and> config_ok (read_config E)"
proof -
  have "cf_MaxBodyBytes (read_config E) \<le> MaxInt64" "cf_DefaultQuota (read_config E) \<le> MaxInt64"
    using integer_range [of "2 ^ 20" E "''ECQG_MAX_BODY_BYTES''"] integer_range [of 1000 E "''ECQG_DEFAULT_QUOTA''"]
    by (simp_all add: read_config_def integer64_same)
  then show ?thesis by (auto simp: Load_def config_ok_def Let_def)
qed

lemma read_config_blank:
  assumes "\<forall>k. k \<noteq> ''ECQG_HMAC_SECRET'' \<longrightarrow> TrimSpace (E k) = ''''"
  shows "read_config E = default_config (E ''ECQG_HMAC_SECRET'')"
  using assms duration_blank [of E "''ECQG_SHUTDOWN_TIMEOUT''" 15]
  by (simp add: read_config_def default_config_def env_blank integer64_same integer_blank boolean_blank)

section \<open>Properties\<close>



text \<open>The default of the shutdown timeout survives being written and read: for every number of whole seconds
  that a duration can hold, \<^verbatim>\<open>ParseDuration\<close> gives back what \<^verbatim>\<open>Duration.String\<close> wrote, so an unset
  variable leaves the default and a variable set to that text sets it.\<close>

theorem duration_roundtrip:
  assumes "int n * Second \<le> MaxInt64" and "TrimSpace (E k) = '''' \<or> TrimSpace (E k) = Duration_String (int n * Second)"
  shows "duration E k (int n * Second) = int n * Second"
  using assms ParseDuration_String_whole [of n] by (auto simp: duration_def env_def Let_def)

theorem duration_roundtrip_witness: "duration (\<lambda>_. '''') ''ECQG_SHUTDOWN_TIMEOUT'' (int 3725 * Second) = 3725 * Second"
  using duration_roundtrip [of 3725 "\<lambda>_. ''''"] by simp

end
