(* ===== verification/Routing.thy ===== *)
theory Routing
  imports GoLib
begin

text \<open>
  The routes of \<^verbatim>\<open>platform/httpapi/server.go\<close> and how \<^verbatim>\<open>http.ServeMux\<close> picks one. A pattern is
  a method and a sequence of segments, literal or a named wildcard, and may end in a slash, which
  matches everything below it. The multiplexer walks a tree of segments: at each one it follows the
  literal first, then the wildcard, then a pattern that ends there in a slash. A \<^verbatim>\<open>GET\<close> pattern also
  serves \<^verbatim>\<open>HEAD\<close>. The path of a request is the list of its decoded segments, with an empty last
  segment for a trailing slash; the library redirects any other spelling of a path before it is matched.
\<close>

section \<open>Patterns\<close>

datatype seg = Lit string | Wild string

datatype endpoint =
    Healthz | Readyz | MetricsPage | PprofIndex | PprofProfile
  | CreateContract | GetContract | AddVersionEP | PublishEP | CompatibilityEP
  | IngestEP | ListEvents | GetEventEP | EventSummaryEP
  | SetRulesEP | GetRules | ActivateRules
  | LineageEP | QualityEP | QualityDetailed | AttemptsEP
  | ListLettersEP | ReplayEP | ReplayManyEP

record route =
  ro_Method :: string
  ro_Segs :: "seg list"
  ro_Subtree :: bool
  ro_Endpoint :: endpoint

definition mk_route :: "string \<Rightarrow> seg list \<Rightarrow> endpoint \<Rightarrow> route" where
  "mk_route m segs ep = \<lparr>ro_Method = m, ro_Segs = segs, ro_Subtree = False, ro_Endpoint = ep\<rparr>"

abbreviation api :: "seg list \<Rightarrow> seg list" where
  "api segs \<equiv> Lit ''api'' # Lit ''v1'' # segs"

definition routes :: "route list" where
  "routes =
     [mk_route ''GET'' [Lit ''healthz''] Healthz,
      mk_route ''GET'' [Lit ''readyz''] Readyz,
      mk_route ''GET'' [Lit ''metrics''] MetricsPage,
      (mk_route ''GET'' [Lit ''debug'', Lit ''pprof''] PprofIndex)\<lparr>ro_Subtree := True\<rparr>,
      mk_route ''GET'' [Lit ''debug'', Lit ''pprof'', Lit ''profile''] PprofProfile,
      mk_route ''POST'' (api [Lit ''contracts'']) CreateContract,
      mk_route ''GET'' (api [Lit ''contracts'', Wild ''id'']) GetContract,
      mk_route ''POST'' (api [Lit ''contracts'', Wild ''id'', Lit ''versions'']) AddVersionEP,
      mk_route ''POST'' (api [Lit ''contracts'', Wild ''id'', Lit ''versions'', Wild ''version'', Lit ''publish'']) PublishEP,
      mk_route ''POST'' (api [Lit ''contracts'', Wild ''id'', Lit ''compatibility-check'']) CompatibilityEP,
      mk_route ''POST'' (api [Lit ''ingest'', Lit ''events'']) IngestEP,
      mk_route ''GET'' (api [Lit ''events'']) ListEvents,
      mk_route ''GET'' (api [Lit ''events'', Wild ''id'']) GetEventEP,
      mk_route ''GET'' (api [Lit ''events'', Lit ''summary'']) EventSummaryEP,
      mk_route ''POST'' (api [Lit ''contracts'', Wild ''id'', Lit ''quality-rules'']) SetRulesEP,
      mk_route ''GET'' (api [Lit ''contracts'', Wild ''id'', Lit ''quality-rules'']) GetRules,
      mk_route ''POST'' (api [Lit ''contracts'', Wild ''id'', Lit ''quality-rules'', Wild ''version'', Lit ''activate'']) ActivateRules,
      mk_route ''GET'' (api [Lit ''events'', Wild ''id'', Lit ''lineage'']) LineageEP,
      mk_route ''GET'' (api [Lit ''events'', Wild ''id'', Lit ''quality-results'']) QualityEP,
      mk_route ''GET'' (api [Lit ''events'', Wild ''id'', Lit ''quality-results'', Lit ''detailed'']) QualityDetailed,
      mk_route ''GET'' (api [Lit ''events'', Wild ''id'', Lit ''processing-attempts'']) AttemptsEP,
      mk_route ''GET'' (api [Lit ''dead-letters'']) ListLettersEP,
      mk_route ''POST'' (api [Lit ''dead-letters'', Wild ''id'', Lit ''replay'']) ReplayEP,
      mk_route ''POST'' (api [Lit ''dead-letters'', Lit ''replay'']) ReplayManyEP]"

section \<open>Matching\<close>

type_synonym binding = "(string \<times> string) list"

text \<open>The routes that go on with a given literal, or with a wildcard, and what is left of their patterns.\<close>

definition after_lit :: "string \<Rightarrow> (seg list \<times> binding \<times> route) list \<Rightarrow> (seg list \<times> binding \<times> route) list" where
  "after_lit s cs = map (\<lambda>(ps, b, r). (tl ps, b, r)) (filter (\<lambda>(ps, b, r). ps \<noteq> [] \<and> hd ps = Lit s) cs)"

fun wild_name :: "seg \<Rightarrow> string option" where
  "wild_name (Wild n) = Some n"
| "wild_name (Lit _) = None"

definition after_wild :: "string \<Rightarrow> (seg list \<times> binding \<times> route) list \<Rightarrow> (seg list \<times> binding \<times> route) list" where
  "after_wild s cs = map (\<lambda>(ps, b, r). (tl ps, b @ [(the (wild_name (hd ps)), s)], r))
     (filter (\<lambda>(ps, b, r). ps \<noteq> [] \<and> wild_name (hd ps) \<noteq> None) cs)"

fun match_path :: "(seg list \<times> binding \<times> route) list \<Rightarrow> string list \<Rightarrow> (route \<times> binding) option" where
  "match_path cs [] = map_option (\<lambda>(ps, b, r). (r, b)) (find (\<lambda>(ps, b, r). ps = [] \<and> \<not> ro_Subtree r) cs)"
| "match_path cs (s # path) =
     (case match_path (after_lit s cs) path of
        Some x \<Rightarrow> Some x
      | None \<Rightarrow>
          (case (if s = '''' then None else match_path (after_wild s cs) path) of
             Some x \<Rightarrow> Some x
           | None \<Rightarrow> map_option (\<lambda>(ps, b, r). (r, b)) (find (\<lambda>(ps, b, r). ps = [] \<and> ro_Subtree r) cs)))"

definition routes_for :: "string \<Rightarrow> (seg list \<times> binding \<times> route) list" where
  "routes_for method = map (\<lambda>r. (ro_Segs r, [], r)) (filter (\<lambda>r. ro_Method r = method) routes)"

definition match_route :: "string \<Rightarrow> string list \<Rightarrow> (route \<times> binding) option" where
  "match_route method path =
     (case match_path (routes_for method) path of
        Some x \<Rightarrow> Some x
      | None \<Rightarrow> if method = ''HEAD'' then match_path (routes_for ''GET'') path else None)"

datatype routing = Matched endpoint binding | MovedPermanently | MethodNotAllowed | NotFound

definition route_request :: "string \<Rightarrow> string list \<Rightarrow> routing" where
  "route_request method path =
     (case match_route method path of
        Some (r, b) \<Rightarrow> Matched (ro_Endpoint r) b
      | None \<Rightarrow>
          if path \<noteq> [] \<and> last path \<noteq> '''' \<and> match_route method (path @ ['''']) \<noteq> None then MovedPermanently
          else if list_ex (\<lambda>m. match_route m path \<noteq> None) (map ro_Method routes) then MethodNotAllowed
          else NotFound)"

text \<open>\<^verbatim>\<open>r.PathValue\<close>: the empty string when the pattern has no such wildcard.\<close>

definition PathValue :: "binding \<Rightarrow> string \<Rightarrow> string" where
  "PathValue b n = (case map_of b n of None \<Rightarrow> '''' | Some s \<Rightarrow> s)"

section \<open>A match is a match\<close>

text \<open>The declarative meaning of a pattern: segment by segment, the rest free below a trailing slash.\<close>

fun seg_matches :: "seg \<Rightarrow> string \<Rightarrow> bool" where
  "seg_matches (Lit l) s \<longleftrightarrow> s = l"
| "seg_matches (Wild _) s \<longleftrightarrow> s \<noteq> ''''"

definition pattern_matches :: "seg list \<Rightarrow> bool \<Rightarrow> string list \<Rightarrow> bool" where
  "pattern_matches ps subtree path \<longleftrightarrow>
     (if subtree then length ps < length path \<and> list_all2 seg_matches ps (take (length ps) path)
      else list_all2 seg_matches ps path)"

fun binding_of :: "seg list \<Rightarrow> string list \<Rightarrow> binding" where
  "binding_of (Wild n # ps) (s # path) = (n, s) # binding_of ps path"
| "binding_of (Lit _ # ps) (s # path) = binding_of ps path"
| "binding_of _ _ = []"

lemma pattern_matches_Cons:
  "pattern_matches (p # ps) b (s # path) \<longleftrightarrow> seg_matches p s \<and> pattern_matches ps b path"
  by (auto simp: pattern_matches_def)

lemma after_lit_mem:
  "(ps, b, r) \<in> set (after_lit s cs) \<longleftrightarrow> (Lit s # ps, b, r) \<in> set cs"
  by (force simp: after_lit_def image_iff neq_Nil_conv)

lemma wild_name_Some: "wild_name p = Some n \<longleftrightarrow> p = Wild n"
  by (cases p) auto

lemma after_wild_mem:
  "(ps, b', r) \<in> set (after_wild s cs) \<longleftrightarrow> (\<exists>n b. (Wild n # ps, b, r) \<in> set cs \<and> b' = b @ [(n, s)])"
proof
  assume "(ps, b', r) \<in> set (after_wild s cs)"
  then obtain qs b where "(qs, b, r) \<in> set cs" "qs \<noteq> []" "wild_name (hd qs) \<noteq> None" "ps = tl qs"
    "b' = b @ [(the (wild_name (hd qs)), s)]"
    by (auto simp: after_wild_def)
  moreover then obtain n where "hd qs = Wild n" by (auto simp: wild_name_Some)
  ultimately show "\<exists>n b. (Wild n # ps, b, r) \<in> set cs \<and> b' = b @ [(n, s)]"
    by (intro exI [of _ n] exI [of _ b]) (cases qs; simp)
next
  assume "\<exists>n b. (Wild n # ps, b, r) \<in> set cs \<and> b' = b @ [(n, s)]"
  then show "(ps, b', r) \<in> set (after_wild s cs)" by (force simp: after_wild_def image_iff)
qed

lemma match_path_sound:
  assumes "match_path cs path = Some (r, b')"
  shows "\<exists>ps b. (ps, b, r) \<in> set cs \<and> pattern_matches ps (ro_Subtree r) path \<and> b' = b @ binding_of ps path"
  using assms
proof (induction cs path arbitrary: b' rule: match_path.induct)
  case (1 cs)
  then show ?case by (fastforce dest!: find_SomeD simp: pattern_matches_def)
next
  case (2 cs s path)
  consider (lit) "match_path (after_lit s cs) path = Some (r, b')"
    | (wild) "match_path (after_lit s cs) path = None" "s \<noteq> ''''" "match_path (after_wild s cs) path = Some (r, b')"
    | (sub) "([], b', r) \<in> set cs" "ro_Subtree r"
    using "2.prems" by (auto dest!: find_SomeD split: option.splits if_splits)
  then show ?case
  proof cases
    case lit
    from "2.IH"(1) [OF this] obtain ps b where h: "(Lit s # ps, b, r) \<in> set cs" "pattern_matches ps (ro_Subtree r) path"
      "b' = b @ binding_of ps path" by (auto simp: after_lit_mem)
    then show ?thesis by (intro exI [of _ "Lit s # ps"] exI [of _ b]) (simp add: pattern_matches_Cons)
  next
    case wild
    from "2.IH"(2) [OF wild(1) wild(2) wild(3)] obtain n ps b where "(Wild n # ps, b, r) \<in> set cs"
      "pattern_matches ps (ro_Subtree r) path" "b' = b @ [(n, s)] @ binding_of ps path"
      by (auto simp: after_wild_mem)
    with wild(2) show ?thesis by (intro exI [of _ "Wild n # ps"] exI [of _ b]) (simp add: pattern_matches_Cons)
  next
    case sub
    then show ?thesis
      by (intro exI [of _ "[]"] exI [of _ b']) (simp add: pattern_matches_def)
  qed
qed

lemma match_path_complete:
  assumes "(ps, b, r) \<in> set cs" and "pattern_matches ps (ro_Subtree r) path"
  shows "match_path cs path \<noteq> None"
  using assms
proof (induction cs path arbitrary: ps b rule: match_path.induct)
  case (1 cs)
  then show ?case by (auto simp: find_None_iff pattern_matches_def split: if_splits)
next
  case (2 cs s path)
  show ?case
  proof (cases ps)
    case Nil
    then have "ro_Subtree r" using "2.prems"(2) by (auto simp: pattern_matches_def split: if_splits)
    then have "find (\<lambda>(ps, b, r). ps = [] \<and> ro_Subtree r) cs \<noteq> None"
      using "2.prems"(1) Nil by (auto simp: find_None_iff)
    then show ?thesis by (auto split: option.splits)
  next
    case (Cons p qs)
    with "2.prems"(2) have m: "seg_matches p s" "pattern_matches qs (ro_Subtree r) path"
      by (simp_all add: pattern_matches_Cons)
    show ?thesis
    proof (cases p)
      case (Lit l)
      then have "(qs, b, r) \<in> set (after_lit s cs)" using m(1) "2.prems"(1) Cons by (simp add: after_lit_mem)
      from "2.IH"(1) [OF this m(2)] show ?thesis by (auto split: option.splits)
    next
      case (Wild n)
      then have "(qs, b @ [(n, s)], r) \<in> set (after_wild s cs)" using "2.prems"(1) Cons by (auto simp: after_wild_mem)
      moreover have "s \<noteq> ''''" using m(1) Wild by simp
      ultimately show ?thesis
        using "2.IH"(2) [OF _ _ _ m(2)]
        by (cases "match_path (after_lit s cs) path"; cases "match_path (after_wild s cs) path") auto
    qed
  qed
qed

section \<open>Every route is reached\<close>

text \<open>Two patterns that can match one path.\<close>

fun seg_overlap :: "seg \<Rightarrow> seg \<Rightarrow> bool" where
  "seg_overlap (Lit a) (Lit b) = (a = b)"
| "seg_overlap _ _ = True"

fun overlap :: "seg list \<Rightarrow> bool \<Rightarrow> seg list \<Rightarrow> bool \<Rightarrow> bool" where
  "overlap (p # ps) a (q # qs) b = (seg_overlap p q \<and> overlap ps a qs b)"
| "overlap [] a (q # qs) b = a"
| "overlap (p # ps) a [] b = b"
| "overlap [] a [] b = True"

lemma seg_overlapI: "seg_matches p s \<Longrightarrow> seg_matches q s \<Longrightarrow> seg_overlap p q"
  by (cases p; cases q) auto

lemma pattern_matches_ne: "pattern_matches (p # ps) b path \<Longrightarrow> \<exists>s q. path = s # q"
  by (cases path) (auto simp: pattern_matches_def split: if_splits)

lemma overlapI: "pattern_matches ps a path \<Longrightarrow> pattern_matches qs b path \<Longrightarrow> overlap ps a qs b"
proof (induction ps a qs b arbitrary: path rule: overlap.induct)
  case (1 p ps a q qs b)
  then obtain s rest where "path = s # rest" using pattern_matches_ne by blast
  with 1 show ?case using seg_overlapI by (auto simp: pattern_matches_Cons)
next
  case (2 a q qs b)
  then obtain s rest where "path = s # rest" using pattern_matches_ne by blast
  with 2 show ?case by (auto simp: pattern_matches_def split: if_splits)
next
  case (3 p ps a b)
  then obtain s rest where "path = s # rest" using pattern_matches_ne by blast
  with 3 show ?case by (auto simp: pattern_matches_def split: if_splits)
qed simp

definition special :: "endpoint list" where
  "special = [GetEventEP, EventSummaryEP, PprofIndex, PprofProfile]"

text \<open>Among the routes only one literal competes with a wildcard, and the profiler's pages with its index.\<close>

lemma routes_disjoint:
  "list_all (\<lambda>r. list_all (\<lambda>r'. ro_Method r = ro_Method r' \<and>
      overlap (ro_Segs r) (ro_Subtree r) (ro_Segs r') (ro_Subtree r') \<longrightarrow>
      r = r' \<or> ro_Endpoint r \<in> set special \<and> ro_Endpoint r' \<in> set special) routes) routes"
  by code_simp

lemma special_routes:
  "list_all (\<lambda>r. (ro_Endpoint r = EventSummaryEP \<longrightarrow> ro_Segs r = api [Lit ''events'', Lit ''summary''] \<and> \<not> ro_Subtree r) \<and>
     (ro_Endpoint r = GetEventEP \<longrightarrow> ro_Segs r = api [Lit ''events'', Wild ''id''] \<and> \<not> ro_Subtree r) \<and>
     (ro_Endpoint r \<in> set [PprofIndex, PprofProfile] \<longrightarrow> take 2 (ro_Segs r) = [Lit ''debug'', Lit ''pprof''])) routes"
  by code_simp

lemma same_endpoint:
  "list_all (\<lambda>r. list_all (\<lambda>r'. ro_Endpoint r = ro_Endpoint r' \<longrightarrow> r = r') routes) routes"
  by code_simp

definition shadowed :: "string list \<Rightarrow> bool" where
  "shadowed path \<longleftrightarrow> path = [''api'', ''v1'', ''events'', ''summary''] \<or> take 2 path = [''debug'', ''pprof'']"

lemma match_unique:
  assumes r: "r \<in> set routes" "pattern_matches (ro_Segs r) (ro_Subtree r) path"
    and r': "r' \<in> set routes" "pattern_matches (ro_Segs r') (ro_Subtree r') path"
    and m: "ro_Method r = ro_Method r'" and ns: "\<not> shadowed path"
  shows "r = r'"
proof (rule ccontr)
  assume ne: "r \<noteq> r'"
  have "overlap (ro_Segs r) (ro_Subtree r) (ro_Segs r') (ro_Subtree r')" by (rule overlapI [OF r(2) r'(2)])
  then have sp: "ro_Endpoint r \<in> set special" "ro_Endpoint r' \<in> set special"
    using routes_disjoint r(1) r'(1) m ne unfolding list_all_iff by blast+
  have diff: "ro_Endpoint r \<noteq> ro_Endpoint r'" using same_endpoint r(1) r'(1) ne unfolding list_all_iff by blast
  have pprof: "take 2 path = [''debug'', ''pprof'']"
    if "x \<in> set routes" "pattern_matches (ro_Segs x) (ro_Subtree x) path" "ro_Endpoint x \<in> set [PprofIndex, PprofProfile]" for x
  proof -
    have "take 2 (ro_Segs x) = [Lit ''debug'', Lit ''pprof'']" using special_routes that(1,3) unfolding list_all_iff by blast
    then obtain ps where "ro_Segs x = Lit ''debug'' # Lit ''pprof'' # ps"
      by (metis append_Cons append_Nil append_take_drop_id)
    with that(2) show ?thesis
      by (cases path; cases "tl path") (auto simp: pattern_matches_def split: if_splits)
  qed
  have "ro_Endpoint r \<notin> set [PprofIndex, PprofProfile]" "ro_Endpoint r' \<notin> set [PprofIndex, PprofProfile]"
    using pprof [OF r] pprof [OF r'] ns unfolding shadowed_def by blast+
  with sp diff have "ro_Endpoint r = EventSummaryEP \<or> ro_Endpoint r' = EventSummaryEP" by (auto simp: special_def)
  then have "pattern_matches (api [Lit ''events'', Lit ''summary'']) False path"
    using special_routes r r' unfolding list_all_iff by (metis (full_types))
  then have "path = [''api'', ''v1'', ''events'', ''summary'']" by (auto simp: pattern_matches_def list_all2_Cons1)
  with ns show False by (simp add: shadowed_def)
qed

lemma routes_for_mem: "(ps, b, r) \<in> set (routes_for m) \<longleftrightarrow> r \<in> set routes \<and> ro_Method r = m \<and> ps = ro_Segs r \<and> b = []"
  by (auto simp: routes_for_def)

lemma match_route_sound:
  assumes "match_route m path = Some (r, b)"
  shows "r \<in> set routes \<and> (ro_Method r = m \<or> m = ''HEAD'' \<and> ro_Method r = ''GET'') \<and>
    pattern_matches (ro_Segs r) (ro_Subtree r) path \<and> b = binding_of (ro_Segs r) path"
  using assms match_path_sound [of "routes_for m" path r b] match_path_sound [of "routes_for ''GET''" path r b]
  by (auto simp: match_route_def routes_for_mem split: option.splits if_splits)

lemma match_route_own:
  assumes "r \<in> set routes" and "pattern_matches (ro_Segs r) (ro_Subtree r) path" and "\<not> shadowed path"
  shows "match_route (ro_Method r) path = Some (r, binding_of (ro_Segs r) path)"
proof -
  have "match_path (routes_for (ro_Method r)) path \<noteq> None"
    using match_path_complete [of "ro_Segs r" "[]" r] assms(1,2) by (simp add: routes_for_mem)
  then obtain r' b where m: "match_path (routes_for (ro_Method r)) path = Some (r', b)" by auto
  from match_path_sound [OF m] have r': "r' \<in> set routes" "pattern_matches (ro_Segs r') (ro_Subtree r') path"
    "ro_Method r = ro_Method r'" "b = binding_of (ro_Segs r') path"
    by (auto simp: routes_for_mem)
  have "r = r'" by (rule match_unique [OF assms(1,2) r'(1-3) assms(3)])
  with m r'(4) show ?thesis by (simp add: match_route_def)
qed

section \<open>Properties\<close>

text \<open>C33: a request is served by a route exactly when one of its method (\<^verbatim>\<open>GET\<close> serves \<^verbatim>\<open>HEAD\<close> too) matches
  its path, and the path values are the segments at the wildcards; every route of the table is reached by the
  paths of its pattern, with the only exception that the literal paths of the summary and of the profiler win
  over the patterns that also match them.\<close>

theorem routing_correct:
  "(\<forall>ep b. route_request m path = Matched ep b \<longrightarrow>
      (\<exists>r\<in>set routes. ro_Endpoint r = ep \<and> (ro_Method r = m \<or> m = ''HEAD'' \<and> ro_Method r = ''GET'') \<and>
        pattern_matches (ro_Segs r) (ro_Subtree r) path \<and> b = binding_of (ro_Segs r) path)) \<and>
   (\<forall>r\<in>set routes. ro_Method r = m \<and> pattern_matches (ro_Segs r) (ro_Subtree r) path \<and> \<not> shadowed path \<longrightarrow>
      route_request m path = Matched (ro_Endpoint r) (binding_of (ro_Segs r) path)) \<and>
   route_request ''GET'' [''api'', ''v1'', ''events'', ''summary''] = Matched EventSummaryEP []"
proof (intro conjI)
  show "\<forall>ep b. route_request m path = Matched ep b \<longrightarrow>
      (\<exists>r\<in>set routes. ro_Endpoint r = ep \<and> (ro_Method r = m \<or> m = ''HEAD'' \<and> ro_Method r = ''GET'') \<and>
        pattern_matches (ro_Segs r) (ro_Subtree r) path \<and> b = binding_of (ro_Segs r) path)"
    using match_route_sound [of m path] by (fastforce simp: route_request_def split: option.splits if_splits)
  show "\<forall>r\<in>set routes. ro_Method r = m \<and> pattern_matches (ro_Segs r) (ro_Subtree r) path \<and> \<not> shadowed path \<longrightarrow>
      route_request m path = Matched (ro_Endpoint r) (binding_of (ro_Segs r) path)"
    using match_route_own by (auto simp: route_request_def)
  show "route_request ''GET'' [''api'', ''v1'', ''events'', ''summary''] = Matched EventSummaryEP []" by code_simp
qed

theorem routing_correct_witness:
  "route_request ''POST'' [''api'', ''v1'', ''dead-letters'', ''l1'', ''replay''] = Matched ReplayEP [(''id'', ''l1'')]"
proof -
  let ?r = "mk_route ''POST'' (api [Lit ''dead-letters'', Wild ''id'', Lit ''replay'']) ReplayEP"
  let ?p = "[''api'', ''v1'', ''dead-letters'', ''l1'', ''replay'']"
  have "?r \<in> set routes" by (simp add: routes_def)
  moreover have "pattern_matches (ro_Segs ?r) (ro_Subtree ?r) ?p" "\<not> shadowed ?p"
    by (simp_all add: mk_route_def pattern_matches_def shadowed_def)
  ultimately have "route_request ''POST'' ?p = Matched (ro_Endpoint ?r) (binding_of (ro_Segs ?r) ?p)"
    using routing_correct [of "''POST''" ?p] by (simp add: mk_route_def)
  then show ?thesis by (simp add: mk_route_def)
qed

end
