(* ===== verification/Http.thy ===== *)
theory Http
  imports Gateway Config Routing
begin

text \<open>
  The HTTP interface, \<^verbatim>\<open>platform/httpapi\<close> with \<^verbatim>\<open>platform/telemetry\<close> and the wiring of
  \<^verbatim>\<open>cmd/gateway/main.go\<close>. \<open>Server\<close> is the struct; the store is shared by the registry and by
  the ingestion service, whose lookup it is. Each handler reads the request, calls a service and
  answers; a panic is an \<open>Inl (Panic _)\<close> that the recovery wrapper of \<open>Handler\<close> turns into a
  response. A body is the envelope before it is written as JSON.

  The record \<open>httplib\<close> holds what the handlers use of the standard library that is driven by
  reflection or large tables: decoding of a JSON document into each request type, quoting, the texts
  of regular-expression errors, parsing of time stamps and the pages of the profiler.
\<close>

section \<open>Requests and responses\<close>

record Request =
  rq_Method :: string
  rq_Path :: "string list"
  rq_Header :: "string \<Rightarrow> string"    \<comment> \<open>\<^verbatim>\<open>r.Header.Get\<close>: empty when absent\<close>
  rq_Query :: "string \<Rightarrow> string"     \<comment> \<open>\<^verbatim>\<open>r.URL.Query().Get\<close>: empty when absent\<close>
  rq_Body :: string

record ReplayRequest =
  rp_LetterIDs :: "string list"
  rp_Actor :: string

text \<open>
  A decoder reads one document from the bytes it gets; the flag says that the reader fails at their end
  because the body was cut at its limit. It gives a message, or the value and the bytes after it.
\<close>

type_synonym 'a decoder = "string \<Rightarrow> bool \<Rightarrow> string + 'a \<times> string"

record httplib =
  hl_quote :: "string \<Rightarrow> string"            \<comment> \<open>the %q verb\<close>
  hl_regexp_error :: "string \<Rightarrow> string"     \<comment> \<open>the text of the error of \<^verbatim>\<open>regexp.Compile\<close>\<close>
  hl_rfc3339 :: "string \<Rightarrow> time option"     \<comment> \<open>\<^verbatim>\<open>time.Parse(time.RFC3339Nano, s)\<close>\<close>
  hl_command :: "RegisterCommand decoder"
  hl_schema :: "Schema decoder"             \<comment> \<open>the field \<^verbatim>\<open>schema\<close> of an object\<close>
  hl_event :: "Event decoder"
  hl_rules :: "Rule list decoder"           \<comment> \<open>the field \<^verbatim>\<open>rules\<close> of an object\<close>
  hl_replay :: "ReplayRequest decoder"
  hl_pprof :: "string list \<Rightarrow> string"

datatype data =
    DStatus string | DContract Contract | DVersion Version | DReport Report | DReceipt Receipt
  | DCount int | DRules string "Rule list" "RuleSet list" | DActivated string int "Rule list"
  | DLineage LineageRecord | DReasons "string list" bool | DEvaluation EvaluationSummary
  | DAttempts "Attempt list" | DPage EventPage | DEvent Event Receipt "Attempt list"
  | DSummary EventSummary | DLetters "Letter list" | DReplays string "ReplayResult list"

record Error =
  er_Code :: string
  er_Message :: string
  er_RequestID :: string
  er_Details :: "string option"

record Meta =
  me_RequestID :: string
  me_At :: time

record Envelope =
  en_Data :: "data option"
  en_Error :: "Error option"
  en_Meta :: Meta

datatype body = JsonBody Envelope | TextBody string

record Response =
  hr_Status :: int
  hr_ContentType :: string
  hr_RequestID :: string
  hr_Body :: body

definition JSON :: "int \<Rightarrow> string \<Rightarrow> data \<Rightarrow> world \<Rightarrow> Response \<times> world" where
  "JSON status requestID d w =
     (let (t, w1) = now w
      in (\<lparr>hr_Status = status, hr_ContentType = ''application/json'', hr_RequestID = requestID,
           hr_Body = JsonBody \<lparr>en_Data = Some d, en_Error = None,
             en_Meta = \<lparr>me_RequestID = requestID, me_At = t\<rparr>\<rparr>\<rparr>, w1))"

definition Fail :: "int \<Rightarrow> string \<Rightarrow> string \<Rightarrow> string \<Rightarrow> string option \<Rightarrow> world \<Rightarrow> Response \<times> world" where
  "Fail status requestID code message details w =
     (let (t, w1) = now w
      in (\<lparr>hr_Status = status, hr_ContentType = ''application/json'', hr_RequestID = requestID,
           hr_Body = JsonBody \<lparr>en_Data = None,
             en_Error = Some \<lparr>er_Code = code, er_Message = message, er_RequestID = requestID, er_Details = details\<rparr>,
             en_Meta = \<lparr>me_RequestID = requestID, me_At = t\<rparr>\<rparr>\<rparr>, w1))"

text \<open>A request identifier that the client does not give is drawn from the random source.\<close>

definition RequestID :: "Request \<Rightarrow> world \<Rightarrow> string \<times> world" where
  "RequestID rq w =
     (let rid = TrimSpace (rq_Header rq ''X-Request-ID'') in if rid \<noteq> '''' then (rid, w) else new_id w)"

definition json_space :: "char \<Rightarrow> bool" where
  "json_space c \<longleftrightarrow> c \<in> {CHR '' '', CHR 0x09, CHR 0x0A, CHR 0x0D}"

text \<open>
  After the first document the reader must be at its end: a second attempt to decode gives
  \<^verbatim>\<open>io.EOF\<close> exactly when only white space is left and the body was not cut.
\<close>

definition Decode :: "'a decoder \<Rightarrow> string \<Rightarrow> int \<Rightarrow> 'a result" where
  "Decode dec bytes limit =
     (let cut = (int (length bytes) > limit)
      in case dec (take (nat limit) bytes) cut of
           Inl msg \<Rightarrow> Inl (ErrDecode msg)
         | Inr (v, rest) \<Rightarrow> if cut \<or> \<not> list_all json_space rest then Inl ErrOneDocument else Inr v)"

definition Tenant :: "Request \<Rightarrow> string result" where
  "Tenant rq =
     (let tenant = TrimSpace (rq_Header rq ''X-Tenant-ID'')
      in if tenant = '''' then Inl ErrTenantRequired
         else if length tenant > 120 then Inl ErrTenantTooLong
         else Inr tenant)"

section \<open>The texts of errors\<close>

fun error_text :: "httplib \<Rightarrow> error \<Rightarrow> string" where
  "error_text H ErrSchemaKind = ''schema kind must be json-schema or protobuf''"
| "error_text H ErrNoFields = ''schema needs at least one field''"
| "error_text H ErrFieldNameType = ''fields require name and type''"
| "error_text H (ErrDuplicateField n) = ''duplicate field '' @ hl_quote H n"
| "error_text H ErrContractRequired = ''id, organization and name are required''"
| "error_text H (ErrCompatibility sm) = ''compatibility failed: '' @ sm"
| "error_text H ErrIfMatchRequired = ''If-Match is required''"
| "error_text H ErrETagMismatch = ''etag mismatch''"
| "error_text H ErrOnlyDraft = ''only draft versions can be published''"
| "error_text H ErrVersionNotFound = ''version not found''"
| "error_text H ErrNoVersions = ''contract has no versions''"
| "error_text H ErrContractExists = ''contract already exists''"
| "error_text H ErrContractNotFound = ''contract not found''"
| "error_text H ErrRuleIDField = ''rule id and field required''"
| "error_text H ErrRuleOperator = ''unsupported rule operator''"
| "error_text H (ErrInvalidRegex p) = ''invalid regex: '' @ hl_regexp_error H p"
| "error_text H ErrRuleSetContract = ''contract id is required''"
| "error_text H ErrRuleSetVersion = ''rule set version must be positive''"
| "error_text H (ErrDuplicateRule n) = ''duplicate rule id '' @ hl_quote H n"
| "error_text H ErrRuleSetNotGreater = ''rule set version must be greater than current version''"
| "error_text H ErrRuleSetExists = ''rule set version already exists''"
| "error_text H ErrRuleSetNotFound = ''rule set version not found''"
| "error_text H ErrNoActiveRuleSet = ''active rule set not found''"
| "error_text H ErrIdempotencyKey = ''Idempotency-Key is required''"
| "error_text H ErrQuota = ''tenant quota exceeded''"
| "error_text H ErrEventLineage = ''event lineage not found''"
| "error_text H ErrLineage = ''lineage not found''"
| "error_text H ErrEventNotFound = ''event not found''"
| "error_text H ErrLetterNotFound = ''dead letter not found''"
| "error_text H ErrLetterReplay = ''dead letter cannot be replayed''"
| "error_text H ErrLetterIDRequired = ''letter id is required''"
| "error_text H (ErrStatus st) = ''unsupported event status '' @ hl_quote H st"
| "error_text H ErrMaxBodyBytes = ''max body bytes must be at least 1024''"
| "error_text H ErrWorkerCount = ''worker count must be between 1 and 128''"
| "error_text H ErrDefaultQuota = ''default quota must be positive''"
| "error_text H ErrTenantRequired = ''X-Tenant-ID is required''"
| "error_text H ErrTenantTooLong = ''tenant id is too long''"
| "error_text H (ErrDecode msg) = msg"
| "error_text H ErrOneDocument = ''request body must contain one JSON document''"
| "error_text H (Panic msg) = msg"

section \<open>The server\<close>

record Metrics =
  mt_Accepted :: int
  mt_Rejected :: int
  mt_DeadLettered :: int
  mt_ReplaySucceeded :: int
  mt_Started :: time

definition NewMetrics :: "world \<Rightarrow> Metrics \<times> world" where
  "NewMetrics w =
     (let (t, w1) = now w
      in (\<lparr>mt_Accepted = 0, mt_Rejected = 0, mt_DeadLettered = 0, mt_ReplaySucceeded = 0, mt_Started = t\<rparr>, w1))"

record Server =
  sr_config :: Config
  sr_repo :: MemoryContracts
  sr_ingestion :: Service
  sr_metrics :: Metrics

definition NewServer :: "Config \<Rightarrow> MemoryContracts \<Rightarrow> Service \<Rightarrow> Metrics \<Rightarrow> Server" where
  "NewServer c repo ingestion metrics =
     \<lparr>sr_config = c, sr_repo = repo, sr_ingestion = ingestion, sr_metrics = metrics\<rparr>"

text \<open>The wiring of the gateway process: the error ends it.\<close>

definition gateway_boot :: "environment \<Rightarrow> world \<Rightarrow> Server result \<times> world" where
  "gateway_boot E w =
     (case Load E of
        Inl e \<Rightarrow> (Inl e, w)
      | Inr cfg \<Rightarrow>
          let repo = NewMemoryContracts;
              ingestion = NewService (cf_HMACSecret cfg) (cf_DefaultQuota cfg);
              (metrics, w1) = NewMetrics w
          in (Inr (NewServer cfg repo ingestion metrics), w1))"

type_synonym outcome = "Response result \<times> Server \<times> world"

text \<open>An answer that changes no state.\<close>

definition respond :: "Response \<times> world \<Rightarrow> Server \<Rightarrow> outcome" where
  "respond xw s = (Inr (fst xw), s, snd xw)"

definition with_tenant :: "httplib \<Rightarrow> Request \<Rightarrow> string \<Rightarrow> Server \<Rightarrow> world \<Rightarrow> (string \<Rightarrow> outcome) \<Rightarrow> outcome" where
  "with_tenant H rq rid s w k =
     (case Tenant rq of
        Inl e \<Rightarrow> respond (Fail 400 rid ''invalid_tenant'' (error_text H e) None w) s
      | Inr t \<Rightarrow> k t)"

text \<open>A decoded body, or the answer 400.\<close>

definition with_body :: "httplib \<Rightarrow> 'a decoder \<Rightarrow> Request \<Rightarrow> string \<Rightarrow> Server \<Rightarrow> world \<Rightarrow> ('a \<Rightarrow> outcome) \<Rightarrow> outcome" where
  "with_body H dec rq rid s w k =
     (case Decode dec (rq_Body rq) (cf_MaxBodyBytes (sr_config s)) of
        Inl e \<Rightarrow> respond (Fail 400 rid ''invalid_request'' (error_text H e) None w) s
      | Inr v \<Rightarrow> k v)"

text \<open>The answer to the result of a service: a panic unwinds the handler.\<close>

definition finish ::
  "httplib \<Rightarrow> 'a result \<Rightarrow> (error \<Rightarrow> int) \<Rightarrow> string \<Rightarrow> string \<Rightarrow> ('a \<Rightarrow> world \<Rightarrow> Response \<times> world) \<Rightarrow> Server \<Rightarrow> world \<Rightarrow> outcome" where
  "finish H r status rid code ok s w =
     (if is_panic r then (Inl (projl r), s, w)
      else case r of
        Inl e \<Rightarrow> respond (Fail (status e) rid code (error_text H e) None w) s
      | Inr v \<Rightarrow> respond (ok v w) s)"

section \<open>Handlers of the registry\<close>

definition createContract :: "httplib \<Rightarrow> Request \<Rightarrow> binding \<Rightarrow> Server \<Rightarrow> world \<Rightarrow> outcome" where
  "createContract H rq b s w =
     (let (rid, w1) = RequestID rq w
      in with_tenant H rq rid s w1 (\<lambda>t.
           with_body H (hl_command H) rq rid s w1 (\<lambda>cmd.
             let (r, repo', w2) = Register memory_repository t cmd (sr_repo s) w1
             in finish H r (\<lambda>_. 422) rid ''contract_rejected'' (\<lambda>v. JSON 201 rid (DContract v)) (s\<lparr>sr_repo := repo'\<rparr>) w2)))"

definition getContract :: "httplib \<Rightarrow> Request \<Rightarrow> binding \<Rightarrow> Server \<Rightarrow> world \<Rightarrow> outcome" where
  "getContract H rq b s w =
     (let (rid, w1) = RequestID rq w
      in with_tenant H rq rid s w1 (\<lambda>t.
           finish H (Get memory_repository t (PathValue b ''id'') (sr_repo s)) (\<lambda>_. 404) rid ''not_found''
             (\<lambda>v. JSON 200 rid (DContract v)) s w1))"

definition addVersion :: "golib \<Rightarrow> httplib \<Rightarrow> orders \<Rightarrow> Request \<Rightarrow> binding \<Rightarrow> Server \<Rightarrow> world \<Rightarrow> outcome" where
  "addVersion L H \<pi> rq b s w =
     (let (rid, w1) = RequestID rq w
      in with_tenant H rq rid s w1 (\<lambda>t.
           with_body H (hl_schema H) rq rid s w1 (\<lambda>schema.
             let (r, repo', w2) = AddVersion L \<pi> memory_repository t (PathValue b ''id'') schema (sr_repo s) w1
             in finish H r (\<lambda>_. 422) rid ''version_rejected'' (\<lambda>v. JSON 201 rid (DVersion v)) (s\<lparr>sr_repo := repo'\<rparr>) w2)))"

definition publish :: "httplib \<Rightarrow> Request \<Rightarrow> binding \<Rightarrow> Server \<Rightarrow> world \<Rightarrow> outcome" where
  "publish H rq b s w =
     (let (rid, w1) = RequestID rq w
      in with_tenant H rq rid s w1 (\<lambda>t.
           case Atoi (PathValue b ''version'') of
             None \<Rightarrow> respond (Fail 400 rid ''invalid_version'' ''version must be numeric'' None w1) s
           | Some n \<Rightarrow>
               let (r, repo', w2) = Publish_version memory_repository t (PathValue b ''id'') n
                     (rq_Header rq ''If-Match'') (sr_repo s) w1
               in finish H r (\<lambda>e. if Contains (error_text H e) ''etag'' then 412 else 422) rid ''publish_rejected''
                    (\<lambda>v. JSON 200 rid (DVersion v)) (s\<lparr>sr_repo := repo'\<rparr>) w2))"

definition compatibility :: "golib \<Rightarrow> httplib \<Rightarrow> orders \<Rightarrow> Request \<Rightarrow> binding \<Rightarrow> Server \<Rightarrow> world \<Rightarrow> outcome" where
  "compatibility L H \<pi> rq b s w =
     (let (rid, w1) = RequestID rq w
      in with_tenant H rq rid s w1 (\<lambda>t.
           with_body H (hl_schema H) rq rid s w1 (\<lambda>schema.
             finish H (Check L \<pi> memory_repository t (PathValue b ''id'') schema (sr_repo s)) (\<lambda>_. 422) rid
               ''compatibility_failed'' (\<lambda>v. JSON 200 rid (DReport v)) s w1)))"

section \<open>Handlers of the ingestion service\<close>

definition count_receipt :: "Receipt \<Rightarrow> Metrics \<Rightarrow> Metrics" where
  "count_receipt receipt m =
     (if rp_Status receipt = Accepted then m\<lparr>mt_Accepted := wrap64 (mt_Accepted m + 1)\<rparr>
      else m\<lparr>mt_DeadLettered := wrap64 (mt_DeadLettered m + 1)\<rparr>)"

definition ingest :: "golib \<Rightarrow> httplib \<Rightarrow> Request \<Rightarrow> binding \<Rightarrow> Server \<Rightarrow> world \<Rightarrow> outcome" where
  "ingest L H rq b s w =
     (let (rid, w1) = RequestID rq w
      in with_tenant H rq rid s w1 (\<lambda>t.
           with_body H (hl_event H) rq rid s w1 (\<lambda>e.
             let (r, ing', w2) = Publish L (Find (sr_repo s))
                   (e\<lparr>ev_TenantID := t, ev_IdempotencyKey := rq_Header rq ''Idempotency-Key''\<rparr>) (sr_ingestion s) w1;
                 metrics' = (case r of Inl _ \<Rightarrow> sr_metrics s | Inr receipt \<Rightarrow> count_receipt receipt (sr_metrics s))
             in finish H r (\<lambda>e. if Contains (error_text H e) ''quota'' then 429 else 422) rid ''ingestion_rejected''
                  (\<lambda>receipt. JSON 202 rid (DReceipt receipt)) (s\<lparr>sr_ingestion := ing', sr_metrics := metrics'\<rparr>) w2)))"

definition setRules :: "golib \<Rightarrow> httplib \<Rightarrow> orders \<Rightarrow> Request \<Rightarrow> binding \<Rightarrow> Server \<Rightarrow> world \<Rightarrow> outcome" where
  "setRules L H \<pi> rq b s w =
     (let (rid, w1) = RequestID rq w
      in with_tenant H rq rid s w1 (\<lambda>_.
           with_body H (hl_rules H) rq rid s w1 (\<lambda>rules.
             let (r, ing', w2) = SetRules L (\<pi> 0) (PathValue b ''id'') rules (sr_ingestion s) w1
             in finish H r (\<lambda>_. 422) rid ''rules_rejected'' (\<lambda>_. JSON 200 rid (DCount (int (length rules))))
                  (s\<lparr>sr_ingestion := ing'\<rparr>) w2)))"

definition getRules :: "httplib \<Rightarrow> orders \<Rightarrow> Request \<Rightarrow> binding \<Rightarrow> Server \<Rightarrow> world \<Rightarrow> outcome" where
  "getRules H \<pi> rq b s w =
     (let (rid, w1) = RequestID rq w; cid = PathValue b ''id''
      in with_tenant H rq rid s w1 (\<lambda>_.
           respond (JSON 200 rid (DRules cid (Rules (\<pi> 0) (sr_ingestion s) cid) (RuleHistory (sr_ingestion s) cid)) w1) s))"

definition activateRules :: "httplib \<Rightarrow> orders \<Rightarrow> Request \<Rightarrow> binding \<Rightarrow> Server \<Rightarrow> world \<Rightarrow> outcome" where
  "activateRules H \<pi> rq b s w =
     (let (rid, w1) = RequestID rq w; cid = PathValue b ''id''
      in with_tenant H rq rid s w1 (\<lambda>_.
           case Atoi (PathValue b ''version'') of
             None \<Rightarrow> respond (Fail 400 rid ''invalid_version'' ''rule version must be positive'' None w1) s
           | Some version \<Rightarrow>
               if version < 1 then respond (Fail 400 rid ''invalid_version'' ''rule version must be positive'' None w1) s
               else let (r, ing') = ActivateRuleVersion cid version (sr_ingestion s)
                    in finish H r (\<lambda>_. 422) rid ''activation_rejected''
                         (\<lambda>_. JSON 200 rid (DActivated cid version (Rules (\<pi> 0) ing' cid))) (s\<lparr>sr_ingestion := ing'\<rparr>) w1))"

definition lineage :: "httplib \<Rightarrow> Request \<Rightarrow> binding \<Rightarrow> Server \<Rightarrow> world \<Rightarrow> outcome" where
  "lineage H rq b s w =
     (let (rid, w1) = RequestID rq w
      in finish H (GetLineage (sr_ingestion s) (PathValue b ''id'')) (\<lambda>_. 404) rid ''not_found''
           (\<lambda>v. JSON 200 rid (DLineage v)) s w1)"

definition quality :: "httplib \<Rightarrow> Request \<Rightarrow> binding \<Rightarrow> Server \<Rightarrow> world \<Rightarrow> outcome" where
  "quality H rq b s w =
     (let (rid, w1) = RequestID rq w
      in finish H (Quality (sr_ingestion s) (PathValue b ''id'')) (\<lambda>_. 404) rid ''not_found''
           (\<lambda>v. JSON 200 rid (DReasons v (length v = 0))) s w1)"

definition qualityDetailed :: "golib \<Rightarrow> httplib \<Rightarrow> Request \<Rightarrow> binding \<Rightarrow> Server \<Rightarrow> world \<Rightarrow> outcome" where
  "qualityDetailed L H rq b s w =
     (let (rid, w1) = RequestID rq w;
          (r, w2) = EvaluateEvent L (PathValue b ''id'') (sr_ingestion s) w1
      in finish H r (\<lambda>_. 404) rid ''not_found'' (\<lambda>v. JSON 200 rid (DEvaluation v)) s w2)"

definition attempts :: "Request \<Rightarrow> binding \<Rightarrow> Server \<Rightarrow> world \<Rightarrow> outcome" where
  "attempts rq b s w =
     (let (rid, w1) = RequestID rq w
      in respond (JSON 200 rid (DAttempts (Attempts (sr_ingestion s) (PathValue b ''id''))) w1) s)"

definition parseTime :: "httplib \<Rightarrow> string \<Rightarrow> time" where
  "parseTime H v = (if v = '''' then 0 else case hl_rfc3339 H v of None \<Rightarrow> 0 | Some t \<Rightarrow> t)"

definition queryInt :: "string \<Rightarrow> int \<Rightarrow> int" where
  "queryInt v fallback =
     (if v = '''' then fallback
      else case Atoi v of None \<Rightarrow> fallback | Some n \<Rightarrow> if n < 1 then fallback else n)"

definition event_filter :: "httplib \<Rightarrow> Request \<Rightarrow> string \<Rightarrow> EventFilter" where
  "event_filter H rq tenant =
     \<lparr>ef_TenantID = tenant, ef_ContractID = rq_Query rq ''contract_id'', ef_Status = rq_Query rq ''status'',
      ef_PartitionKey = rq_Query rq ''partition_key'',
      ef_OccurredAfter = parseTime H (rq_Query rq ''occurred_after''),
      ef_OccurredBefore = parseTime H (rq_Query rq ''occurred_before''),
      ef_ReceivedAfter = parseTime H (rq_Query rq ''received_after''),
      ef_ReceivedBefore = parseTime H (rq_Query rq ''received_before''),
      ef_Search = rq_Query rq ''search''\<rparr>"

definition listEvents :: "golib \<Rightarrow> httplib \<Rightarrow> orders \<Rightarrow> Request \<Rightarrow> binding \<Rightarrow> Server \<Rightarrow> world \<Rightarrow> outcome" where
  "listEvents L H \<pi> rq b s w =
     (let (rid, w1) = RequestID rq w
      in with_tenant H rq rid s w1 (\<lambda>tenant.
           finish H (FindEvents L \<pi> (sr_ingestion s) (event_filter H rq tenant)
                       (queryInt (rq_Query rq ''limit'') 50) (rq_Query rq ''cursor''))
             (\<lambda>_. 400) rid ''invalid_query'' (\<lambda>page. JSON 200 rid (DPage page)) s w1))"

definition getEvent :: "httplib \<Rightarrow> orders \<Rightarrow> Request \<Rightarrow> binding \<Rightarrow> Server \<Rightarrow> world \<Rightarrow> outcome" where
  "getEvent H \<pi> rq b s w =
     (let (rid, w1) = RequestID rq w
      in with_tenant H rq rid s w1 (\<lambda>tenant.
           finish H (GetEvent (\<pi> 0) (sr_ingestion s) tenant (PathValue b ''id'')) (\<lambda>_. 404) rid ''not_found''
             (\<lambda>(event, receipt). JSON 200 rid (DEvent event receipt (Attempts (sr_ingestion s) (ev_ID event)))) s w1))"

definition eventSummary :: "httplib \<Rightarrow> orders \<Rightarrow> Request \<Rightarrow> binding \<Rightarrow> Server \<Rightarrow> world \<Rightarrow> outcome" where
  "eventSummary H \<pi> rq b s w =
     (let (rid, w1) = RequestID rq w
      in with_tenant H rq rid s w1 (\<lambda>tenant.
           respond (JSON 200 rid (DSummary (Summary \<pi> (sr_ingestion s) tenant (rq_Query rq ''contract_id''))) w1) s))"

definition listLetters :: "httplib \<Rightarrow> orders \<Rightarrow> Request \<Rightarrow> binding \<Rightarrow> Server \<Rightarrow> world \<Rightarrow> outcome" where
  "listLetters H \<pi> rq b s w =
     (let (rid, w1) = RequestID rq w
      in with_tenant H rq rid s w1 (\<lambda>t.
           respond (JSON 200 rid (DLetters (ListLetters \<pi> (sr_ingestion s) (rq_Query rq ''state'') t)) w1) s))"

definition replay :: "golib \<Rightarrow> httplib \<Rightarrow> Request \<Rightarrow> binding \<Rightarrow> Server \<Rightarrow> world \<Rightarrow> outcome" where
  "replay L H rq b s w =
     (let (rid, w1) = RequestID rq w;
          actor = (if rq_Header rq ''X-Actor-ID'' = '''' then ''unknown'' else rq_Header rq ''X-Actor-ID'');
          (r, ing', w2) = Replay L (Find (sr_repo s)) (PathValue b ''id'') actor (sr_ingestion s) w1
      in finish H r (\<lambda>_. 422) rid ''replay_rejected'' (\<lambda>v. JSON 202 rid (DReceipt v)) (s\<lparr>sr_ingestion := ing'\<rparr>) w2)"

definition replayMany :: "golib \<Rightarrow> httplib \<Rightarrow> Request \<Rightarrow> binding \<Rightarrow> Server \<Rightarrow> world \<Rightarrow> outcome" where
  "replayMany L H rq b s w =
     (let (rid, w1) = RequestID rq w
      in with_tenant H rq rid s w1 (\<lambda>tenant.
           with_body H (hl_replay H) rq rid s w1 (\<lambda>req.
             if length (rp_LetterIDs req) = 0
             then respond (Fail 400 rid ''invalid_request'' ''letter_ids is required'' None w1) s
             else let actor = (if rp_Actor req = '''' then rq_Header rq ''X-Actor-ID'' else rp_Actor req);
                      (r, ing', w2) = ReplayManyForTenant L (Find (sr_repo s)) tenant (rp_LetterIDs req) actor (sr_ingestion s) w1
                  in case r of
                       Inl e \<Rightarrow> (Inl e, s\<lparr>sr_ingestion := ing'\<rparr>, w2)   \<comment> \<open>a panic\<close>
                     | Inr results \<Rightarrow> respond (JSON 202 rid (DReplays tenant results) w2) (s\<lparr>sr_ingestion := ing'\<rparr>))))"

section \<open>Probes and metrics\<close>

definition healthz :: "Request \<Rightarrow> Server \<Rightarrow> world \<Rightarrow> outcome" where
  "healthz rq s w = (let (rid, w1) = RequestID rq w in respond (JSON 200 rid (DStatus ''ok'') w1) s)"

definition readyz :: "Request \<Rightarrow> Server \<Rightarrow> world \<Rightarrow> outcome" where
  "readyz rq s w =
     (let (rid, w1) = RequestID rq w
      in if \<not> cf_ReadinessEnabled (sr_config s)
         then respond (Fail 503 rid ''not_ready'' ''readiness disabled'' None w1) s
         else respond (JSON 200 rid (DStatus ''ready'') w1) s)"

definition text_response :: "int \<Rightarrow> string \<Rightarrow> string \<Rightarrow> Response" where
  "text_response status ctype t = \<lparr>hr_Status = status, hr_ContentType = ctype, hr_RequestID = '''', hr_Body = TextBody t\<rparr>"

definition metricsHandler :: "Server \<Rightarrow> world \<Rightarrow> outcome" where
  "metricsHandler s w = respond (text_response 200 ''text/plain; version=0.0.4''
     (''ecqg_events_accepted_total '' @ Itoa (mt_Accepted (sr_metrics s)) @ [CHR 0x0A] @
      ''ecqg_events_deadlettered_total '' @ Itoa (mt_DeadLettered (sr_metrics s)) @ [CHR 0x0A]), w) s"

section \<open>Dispatch\<close>

fun serve_endpoint :: "golib \<Rightarrow> httplib \<Rightarrow> orders \<Rightarrow> endpoint \<Rightarrow> Request \<Rightarrow> binding \<Rightarrow> Server \<Rightarrow> world \<Rightarrow> outcome" where
  "serve_endpoint L H \<pi> Healthz rq b s w = healthz rq s w"
| "serve_endpoint L H \<pi> Readyz rq b s w = readyz rq s w"
| "serve_endpoint L H \<pi> MetricsPage rq b s w = metricsHandler s w"
| "serve_endpoint L H \<pi> PprofIndex rq b s w = respond (text_response 200 ''text/html'' (hl_pprof H (rq_Path rq)), w) s"
| "serve_endpoint L H \<pi> PprofProfile rq b s w = respond (text_response 200 ''application/octet-stream'' (hl_pprof H (rq_Path rq)), w) s"
| "serve_endpoint L H \<pi> CreateContract rq b s w = createContract H rq b s w"
| "serve_endpoint L H \<pi> GetContract rq b s w = getContract H rq b s w"
| "serve_endpoint L H \<pi> AddVersionEP rq b s w = addVersion L H \<pi> rq b s w"
| "serve_endpoint L H \<pi> PublishEP rq b s w = publish H rq b s w"
| "serve_endpoint L H \<pi> CompatibilityEP rq b s w = compatibility L H \<pi> rq b s w"
| "serve_endpoint L H \<pi> IngestEP rq b s w = ingest L H rq b s w"
| "serve_endpoint L H \<pi> ListEvents rq b s w = listEvents L H \<pi> rq b s w"
| "serve_endpoint L H \<pi> GetEventEP rq b s w = getEvent H \<pi> rq b s w"
| "serve_endpoint L H \<pi> EventSummaryEP rq b s w = eventSummary H \<pi> rq b s w"
| "serve_endpoint L H \<pi> SetRulesEP rq b s w = setRules L H \<pi> rq b s w"
| "serve_endpoint L H \<pi> GetRules rq b s w = getRules H \<pi> rq b s w"
| "serve_endpoint L H \<pi> ActivateRules rq b s w = activateRules H \<pi> rq b s w"
| "serve_endpoint L H \<pi> LineageEP rq b s w = lineage H rq b s w"
| "serve_endpoint L H \<pi> QualityEP rq b s w = quality H rq b s w"
| "serve_endpoint L H \<pi> QualityDetailed rq b s w = qualityDetailed L H rq b s w"
| "serve_endpoint L H \<pi> AttemptsEP rq b s w = attempts rq b s w"
| "serve_endpoint L H \<pi> ListLettersEP rq b s w = listLetters H \<pi> rq b s w"
| "serve_endpoint L H \<pi> ReplayEP rq b s w = replay L H rq b s w"
| "serve_endpoint L H \<pi> ReplayManyEP rq b s w = replayMany L H rq b s w"

definition serve_mux :: "golib \<Rightarrow> httplib \<Rightarrow> orders \<Rightarrow> Request \<Rightarrow> Server \<Rightarrow> world \<Rightarrow> outcome" where
  "serve_mux L H \<pi> rq s w =
     (case route_request (rq_Method rq) (rq_Path rq) of
        Matched ep b \<Rightarrow> serve_endpoint L H \<pi> ep rq b s w
      | MovedPermanently \<Rightarrow> respond (text_response 301 ''text/html'' ''Moved Permanently'', w) s
      | MethodNotAllowed \<Rightarrow> respond (text_response 405 ''text/plain'' ''Method Not Allowed'', w) s
      | NotFound \<Rightarrow> respond (text_response 404 ''text/plain'' ''404 page not found'', w) s)"

text \<open>The handler of the server: logging adds nothing, and recovery answers for a handler that panics.\<close>

definition Handler :: "golib \<Rightarrow> httplib \<Rightarrow> orders \<Rightarrow> Request \<Rightarrow> Server \<Rightarrow> world \<Rightarrow> Response \<times> Server \<times> world" where
  "Handler L H \<pi> rq s w =
     (case serve_mux L H \<pi> rq s w of
        (Inr x, s', w') \<Rightarrow> (x, s', w')
      | (Inl e, s', w') \<Rightarrow>
          let (rid, w1) = RequestID rq w';
              (x, w2) = Fail 500 rid ''internal_error'' ''unexpected server error'' (Some (error_text H e)) w1
          in (x, s', w2))"

end
