(* ===== verification/HttpProps.thy ===== *)
theory HttpProps
  imports Http
begin

text \<open>
  Properties of the HTTP interface over every sequence of requests. \<open>holds Q\<close> says that an outcome
  is an answer, not a panic, that satisfies \<open>Q\<close> together with the state it leaves; its rules take a
  handler apart the way it is composed.
\<close>

section \<open>Outcomes\<close>

definition holds :: "(Response \<Rightarrow> Server \<Rightarrow> bool) \<Rightarrow> outcome \<Rightarrow> bool" where
  "holds Q out \<longleftrightarrow> (\<exists>x s w. out = (Inr x, s, w) \<and> Q x s)"

lemma JSON_simps [simp]: "hr_Status (fst (JSON st rid d w)) = st" "hr_RequestID (fst (JSON st rid d w)) = rid"
  "hr_Body (fst (JSON st rid d w)) = JsonBody \<lparr>en_Data = Some d, en_Error = None,
     en_Meta = \<lparr>me_RequestID = rid, me_At = clock w (ticks w)\<rparr>\<rparr>"
  by (simp_all add: JSON_def now_def)

lemma Fail_simps [simp]: "hr_Status (fst (Fail st rid code msg det w)) = st" "hr_RequestID (fst (Fail st rid code msg det w)) = rid"
  by (simp_all add: Fail_def now_def)

lemma text_response_status [simp]: "hr_Status (text_response st c t) = st"
  by (simp add: text_response_def)

lemma holds_respond: "Q (fst xw) s \<Longrightarrow> holds Q (respond xw s)"
  by (simp add: holds_def respond_def)

lemma holds_with_tenant:
  assumes "\<And>e. Tenant rq = Inl e \<Longrightarrow> Q (fst (Fail 400 rid ''invalid_tenant'' (error_text H e) None w)) s"
    and "\<And>t. Tenant rq = Inr t \<Longrightarrow> holds Q (k t)"
  shows "holds Q (with_tenant H rq rid s w k)"
  using assms by (auto simp: with_tenant_def intro: holds_respond split: sum.splits)

lemma holds_with_body:
  assumes "\<And>e. Q (fst (Fail 400 rid ''invalid_request'' (error_text H e) None w)) s"
    and "\<And>v. Decode dec (rq_Body rq) (cf_MaxBodyBytes (sr_config s)) = Inr v \<Longrightarrow> holds Q (k v)"
  shows "holds Q (with_body H dec rq rid s w k)"
  using assms by (auto simp: with_body_def intro: holds_respond split: sum.splits)

lemma holds_finish:
  assumes "\<not> is_panic r" and "\<And>e. r = Inl e \<Longrightarrow> Q (fst (Fail (st e) rid code (error_text H e) None w)) s"
    and "\<And>v. r = Inr v \<Longrightarrow> Q (fst (ok v w)) s"
  shows "holds Q (finish H r st rid code ok s w)"
  using assms by (auto simp: finish_def intro: holds_respond split: sum.splits)

lemmas holds_rules = holds_respond holds_with_tenant holds_with_body holds_finish

text \<open>\<open>yields Q\<close> is the same without the promise that there is no panic.\<close>

definition yields :: "(Response result \<Rightarrow> Server \<Rightarrow> bool) \<Rightarrow> outcome \<Rightarrow> bool" where
  "yields Q out \<longleftrightarrow> Q (fst out) (fst (snd out))"

lemma yields_respond: "Q (Inr (fst xw)) s \<Longrightarrow> yields Q (respond xw s)"
  by (simp add: yields_def respond_def)

lemma yields_with_tenant:
  assumes "\<And>e. Q (Inr (fst (Fail 400 rid ''invalid_tenant'' (error_text H e) None w))) s"
    and "\<And>t. Tenant rq = Inr t \<Longrightarrow> yields Q (k t)"
  shows "yields Q (with_tenant H rq rid s w k)"
  using assms by (auto simp: with_tenant_def intro: yields_respond split: sum.splits)

lemma yields_with_body:
  assumes "\<And>e. Q (Inr (fst (Fail 400 rid ''invalid_request'' (error_text H e) None w))) s"
    and "\<And>v. Decode dec (rq_Body rq) (cf_MaxBodyBytes (sr_config s)) = Inr v \<Longrightarrow> yields Q (k v)"
  shows "yields Q (with_body H dec rq rid s w k)"
  using assms by (auto simp: with_body_def intro: yields_respond split: sum.splits)

lemma yields_finish:
  assumes "\<And>e. r = Inl e \<Longrightarrow> is_panic r \<Longrightarrow> Q (Inl e) s"
    and "\<And>e. r = Inl e \<Longrightarrow> Q (Inr (fst (Fail (st e) rid code (error_text H e) None w))) s"
    and "\<And>v. r = Inr v \<Longrightarrow> Q (Inr (fst (ok v w))) s"
  shows "yields Q (finish H r st rid code ok s w)"
proof (cases r)
  case (Inl e)
  then show ?thesis using assms(1,2) by (auto simp: finish_def yields_def respond_def)
next
  case (Inr v)
  then show ?thesis using assms(3) by (simp add: finish_def yields_def respond_def is_panic_def)
qed

lemma yields_panic: "Q (Inl e) s \<Longrightarrow> yields Q (Inl e, s, w)"
  by (simp add: yields_def)

lemmas yields_rules = yields_panic yields_respond yields_with_tenant yields_with_body yields_finish

lemmas handler_defs = createContract_def getContract_def addVersion_def publish_def compatibility_def ingest_def
  setRules_def getRules_def activateRules_def lineage_def quality_def qualityDetailed_def attempts_def
  listEvents_def getEvent_def eventSummary_def listLetters_def replay_def replayMany_def
  healthz_def readyz_def metricsHandler_def

section \<open>The services do not panic\<close>

declare is_panic_Inl [simp]

lemma is_panic_iff: "is_panic r \<longleftrightarrow> (\<exists>m. r = Inl (Panic m))"
  by (cases r) auto

lemma Schema_Validate_np: "Schema_Validate sc \<noteq> Inl (Panic m)"
proof -
  have "validate_fields fs seen \<noteq> Inl (Panic m)" for fs seen
    by (induction fs arbitrary: seen) auto
  then show ?thesis by (auto simp: Schema_Validate_def)
qed

lemma Find_np: "Find st t cid \<noteq> Inl (Panic m)"
  by (simp add: Find_def split: option.splits)

lemma Save_np: "Save c st = (res, st') \<Longrightarrow> res \<noteq> Inl (Panic m)"
  by (auto simp: Save_def Let_def split: option.splits)

lemma Create_np: "Create c st = (res, st') \<Longrightarrow> res \<noteq> Inl (Panic m)"
  by (auto simp: Create_def Let_def split: option.splits)

lemma Contract_AddVersion_np: "Contract_AddVersion L \<pi> c sc t \<noteq> Inl (Panic m)"
  using Schema_Validate_np [of sc m] by (auto simp: Contract_AddVersion_def Let_def split: sum.splits)

lemma Contract_Publish_np: "Contract_Publish c n tag t \<noteq> Inl (Panic m)"
  by (auto simp: Contract_Publish_def Let_def split: option.splits)

lemma modify_np:
  assumes "modify memory_repository t cid change st w = (res, st', w')" and "\<And>c t m. change c t \<noteq> Inl (Panic m)"
  shows "\<not> is_panic res"
  using assms Find_np Save_np
  by (fastforce simp: modify_def memory_repository_def now_def is_panic_iff split: sum.splits prod.splits)

lemma Register_np: "Register memory_repository t cmd st w = (res, st', w') \<Longrightarrow> \<not> is_panic res"
  using Create_np
  by (fastforce simp: Register_def memory_repository_def now_def new_id_def NewContract_def is_panic_iff
      split: sum.splits prod.splits if_splits)

lemma AddVersion_np: "AddVersion L \<pi> memory_repository t cid sc st w = (res, st', w') \<Longrightarrow> \<not> is_panic res"
  unfolding AddVersion_modify by (erule modify_np) (rule Contract_AddVersion_np)

lemma Publish_version_np: "Publish_version memory_repository t cid n tag st w = (res, st', w') \<Longrightarrow> \<not> is_panic res"
  unfolding Publish_modify by (erule modify_np) (rule Contract_Publish_np)

lemma Check_np: "\<not> is_panic (Check L \<pi> memory_repository t cid sc st)"
  using Find_np [of st t cid] Schema_Validate_np [of sc]
  by (auto simp: Check_def memory_repository_def is_panic_iff split: sum.splits)

lemma validate_rules_np: "validate_rules L rules seen \<noteq> Inl (Panic m)"
  by (induction rules arbitrary: seen) (auto simp: Rule_Validate_def split: sum.splits)

lemma Catalog_Put_np: "Catalog_Put L p rset c = (res, c') \<Longrightarrow> res \<noteq> Inl (Panic m)"
  using validate_rules_np [of L "rs_Rules rset" "[]" m]
  by (auto simp: Catalog_Put_def RuleSet_Validate_def Let_def split: sum.splits if_splits)

lemma SetRules_np: "SetRules L p cid rules s w = (res, s', w') \<Longrightarrow> \<not> is_panic res"
proof -
  have "validate_each L rs \<noteq> Inl (Panic m)" for rs m
    by (induction rs) (auto simp: Rule_Validate_def split: sum.splits)
  then show "SetRules L p cid rules s w = (res, s', w') \<Longrightarrow> \<not> is_panic res"
    using Catalog_Put_np
    by (fastforce simp: SetRules_def Let_def now_def is_panic_iff split: sum.splits prod.splits)
qed

lemma Activate_np: "ActivateRuleVersion cid v s = (res, s') \<Longrightarrow> \<not> is_panic res"
  by (auto simp: ActivateRuleVersion_def Catalog_Activate_def Catalog_Active_def Let_def split: option.splits if_splits)

lemma events_page_np:
  assumes "1 \<le> limit" and "limit \<le> 500" and "int (length items) + 500 \<le> MaxInt64"
  shows "events_page items limit cursor \<noteq> Inl (Panic m)"
proof -
  define start where "start = (if int (cursorIndex items cursor) > int (length items) then int (length items) else int (cursorIndex items cursor))"
  have "0 \<le> start" "start \<le> int (length items)" by (simp_all add: start_def)
  then have "wrap64 (start + limit) = start + limit" using assms by (intro wrap64_id) simp_all
  moreover have "events_page items limit cursor =
      (let end0 = wrap64 (start + limit); end1 = (if end0 > int (length items) then int (length items) else end0)
       in if end1 < start then Inl (Panic ''slice bounds out of range'')
          else Inr (take (nat (end1 - start)) (drop (nat start) items), if end1 < int (length items) then ev_ID (items ! nat (end1 - 1)) else ''''))"
    unfolding events_page_def start_def Let_def by (rule refl)
  ultimately show ?thesis using \<open>start \<le> int (length items)\<close> assms(1) by (simp add: Let_def)
qed

lemma FindEvents_np:
  assumes "int (length (sv_events s)) + 500 \<le> MaxInt64"
  shows "\<not> is_panic (FindEvents L \<pi> s f limit cursor)"
proof -
  have "1 \<le> clamp_limit limit" "clamp_limit limit \<le> 500" by (simp_all add: clamp_limit_def Let_def)
  moreover have "length (matching_events L \<pi> s f) \<le> length (sv_events s)"
    by (simp add: matching_events_def le_trans [OF length_filter_le])
  ultimately have "events_page (matching_events L \<pi> s f) (clamp_limit limit) cursor \<noteq> Inl (Panic m)" for m
    using assms by (intro events_page_np) simp_all
  then show ?thesis by (auto simp: FindEvents_def Let_def is_panic_iff split: sum.splits)
qed

lemma EvaluateEvent_np:
  assumes "sv_inv L s" and "EvaluateEvent L eid s w = (res, w')"
  shows "\<not> is_panic res"
proof (cases "map_of (sv_events s) eid")
  case None
  then show ?thesis using assms(2) by (auto simp: EvaluateEvent_def)
next
  case (Some e)
  obtain out w1 where "Evaluate L (rules_of s (ev_ContractID e)) (entries (ev_Payload e)) w = (Inr out, w1)"
    using Evaluate_total [OF sv_inv_rules [OF assms(1)]] by blast
  then show ?thesis using assms(2) Some by (auto simp: EvaluateEvent_def)
qed

section \<open>Every sequence of requests\<close>

inductive server_reach :: "golib \<Rightarrow> httplib \<Rightarrow> Server \<Rightarrow> bool" for L H where
  boot: "gateway_boot E w = (Inr s, w') \<Longrightarrow> server_reach L H s"
| request: "server_reach L H s \<Longrightarrow> Handler L H \<pi> rq s w = (x, s', w') \<Longrightarrow> server_reach L H s'"

definition server_inv :: "golib \<Rightarrow> Server \<Rightarrow> bool" where
  "server_inv L s \<longleftrightarrow> config_ok (sr_config s) \<and> registry_reach L (sr_repo s) \<and>
     service_reach L (cf_HMACSecret (sr_config s)) (cf_DefaultQuota (sr_config s)) (sr_ingestion s)"

text \<open>The clean answers of a request: no recovery from a panic, and the invariant is kept.\<close>

definition clean :: "golib \<Rightarrow> Response \<Rightarrow> Server \<Rightarrow> bool" where
  "clean L x s \<longleftrightarrow> hr_Status x \<noteq> 500 \<and> server_inv L s"

lemma server_inv_sv: "server_inv L s \<Longrightarrow> sv_inv L (sr_ingestion s)"
  unfolding server_inv_def using service_reach_inv by blast

lemma server_inv_step:
  "server_inv L s \<Longrightarrow> service_step L (sr_ingestion s) ing \<Longrightarrow> server_inv L (s\<lparr>sr_ingestion := ing\<rparr>)"
  unfolding server_inv_def by (auto intro: service_reach.step)

lemma server_inv_steps:
  "(service_step L)\<^sup>*\<^sup>* (sr_ingestion s) ing \<Longrightarrow> server_inv L s \<Longrightarrow> server_inv L (s\<lparr>sr_ingestion := ing\<rparr>)"
proof (induction rule: rtranclp_induct)
  case (step y z)
  then show ?case using server_inv_step [of L "s\<lparr>sr_ingestion := y\<rparr>" z] by simp
qed simp

lemma server_inv_repo: "server_inv L s \<Longrightarrow> registry_reach L repo \<Longrightarrow> server_inv L (s\<lparr>sr_repo := repo\<rparr>)"
  by (simp add: server_inv_def)

lemma server_inv_metrics: "server_inv L (s\<lparr>sr_metrics := m\<rparr>) = server_inv L s"
  by (simp add: server_inv_def)

lemma server_inv_reg: "server_inv L s \<Longrightarrow> registry_reach L (sr_repo s)"
  by (simp add: server_inv_def)

lemma server_inv_registry:
  assumes "server_inv L s"
  shows "Register memory_repository t cmd (sr_repo s) w = (res1, repo, w') \<Longrightarrow> server_inv L (s\<lparr>sr_repo := repo\<rparr>)"
    and "AddVersion L \<pi> memory_repository t cid sc (sr_repo s) w = (res2, repo, w') \<Longrightarrow> server_inv L (s\<lparr>sr_repo := repo\<rparr>)"
    and "Publish_version memory_repository t cid n tag (sr_repo s) w = (res2, repo, w') \<Longrightarrow> server_inv L (s\<lparr>sr_repo := repo\<rparr>)"
  using server_inv_reg [OF assms] by (auto intro!: server_inv_repo [OF assms] intro: registry_reach.intros)

lemma server_inv_ingestion:
  assumes "server_inv L s"
  shows "Publish L contracts e (sr_ingestion s) w = (res1, ing, w') \<Longrightarrow> server_inv L (s\<lparr>sr_ingestion := ing\<rparr>)"
    and "Replay L contracts lid actor (sr_ingestion s) w = (res1, ing, w') \<Longrightarrow> server_inv L (s\<lparr>sr_ingestion := ing\<rparr>)"
    and "SetRules L p cid rules (sr_ingestion s) w = (res2, ing, w') \<Longrightarrow> server_inv L (s\<lparr>sr_ingestion := ing\<rparr>)"
    and "ActivateRuleVersion cid v (sr_ingestion s) = (res2, ing) \<Longrightarrow> server_inv L (s\<lparr>sr_ingestion := ing\<rparr>)"
  by (auto intro!: server_inv_step [OF assms] intro: service_step.intros)

lemma server_np:
  assumes "server_inv L s"
  shows "Publish L contracts e (sr_ingestion s) w = (res1, ing, w') \<Longrightarrow> \<not> is_panic res1"
    and "Replay L contracts lid actor (sr_ingestion s) w = (res1, ing, w') \<Longrightarrow> \<not> is_panic res1"
    and "EvaluateEvent L eid (sr_ingestion s) w = (res3, w') \<Longrightarrow> \<not> is_panic res3"
  by (erule Publish_no_panic [OF server_inv_sv [OF assms]] Replay_no_panic [OF server_inv_sv [OF assms]]
      EvaluateEvent_np [OF server_inv_sv [OF assms]])+

lemma clean_JSON: "clean L (fst (JSON st rid d w)) s \<longleftrightarrow> st \<noteq> 500 \<and> server_inv L s"
  and clean_Fail: "clean L (fst (Fail st rid c m det w)) s \<longleftrightarrow> st \<noteq> 500 \<and> server_inv L s"
  by (simp_all add: clean_def)

lemmas clean_simps = clean_JSON clean_Fail

lemma createContract_clean: "server_inv L s \<Longrightarrow> holds (clean L) (createContract H rq b s w)"
  unfolding createContract_def
  by (auto intro!: holds_rules simp: clean_simps split: prod.splits)
    (auto intro: server_inv_registry dest: Register_np)

lemma getContract_clean: "server_inv L s \<Longrightarrow> holds (clean L) (getContract H rq b s w)"
  unfolding getContract_def Get_def using Find_np
  by (auto intro!: holds_rules simp: clean_simps is_panic_iff split: prod.splits)

lemma addVersion_clean: "server_inv L s \<Longrightarrow> holds (clean L) (addVersion L H \<pi> rq b s w)"
  unfolding addVersion_def
  by (auto intro!: holds_rules simp: clean_simps split: prod.splits)
    (auto intro: server_inv_registry dest: AddVersion_np)

lemma publish_clean: "server_inv L s \<Longrightarrow> holds (clean L) (publish H rq b s w)"
  unfolding publish_def
  by (auto intro!: holds_rules simp: clean_simps split: prod.splits option.splits)
    (auto intro: server_inv_registry dest: Publish_version_np)

lemma compatibility_clean: "server_inv L s \<Longrightarrow> holds (clean L) (compatibility L H \<pi> rq b s w)"
  unfolding compatibility_def
  by (auto intro!: holds_rules simp: clean_simps Check_np split: prod.splits)

lemma ingest_clean: "server_inv L s \<Longrightarrow> holds (clean L) (ingest L H rq b s w)"
  unfolding ingest_def
  by (auto intro!: holds_rules simp: clean_simps server_inv_metrics split: prod.splits)
    (auto intro: server_inv_ingestion dest: server_np)

lemma setRules_clean: "server_inv L s \<Longrightarrow> holds (clean L) (setRules L H \<pi> rq b s w)"
  unfolding setRules_def
  by (auto intro!: holds_rules simp: clean_simps split: prod.splits)
    (auto intro: server_inv_ingestion dest: SetRules_np)

lemma activateRules_clean: "server_inv L s \<Longrightarrow> holds (clean L) (activateRules H \<pi> rq b s w)"
  unfolding activateRules_def
  by (auto intro!: holds_rules simp: clean_simps Let_def split: prod.splits option.splits)
    (auto intro: server_inv_ingestion dest: Activate_np)

lemma qualityDetailed_clean: "server_inv L s \<Longrightarrow> holds (clean L) (qualityDetailed L H rq b s w)"
  unfolding qualityDetailed_def
  by (auto intro!: holds_rules simp: clean_simps split: prod.splits)
    (auto dest: server_np)

lemma listEvents_clean:
  "server_inv L s \<Longrightarrow> int (length (sv_events (sr_ingestion s))) + 500 \<le> MaxInt64 \<Longrightarrow>
   holds (clean L) (listEvents L H \<pi> rq b s w)"
  unfolding listEvents_def
  by (auto intro!: holds_rules simp: clean_simps FindEvents_np split: prod.splits)

lemma replay_clean: "server_inv L s \<Longrightarrow> holds (clean L) (replay L H rq b s w)"
  unfolding replay_def
  by (auto intro!: holds_rules simp: clean_simps Let_def split: prod.splits)
    (auto intro: server_inv_ingestion dest: server_np)

lemma replayMany_clean: "server_inv L s \<Longrightarrow> holds (clean L) (replayMany L H rq b s w)"
proof -
  assume inv: "server_inv L s"
  have *: "\<exists>rs ing w'. ReplayManyForTenant L (Find (sr_repo s)) t ids actor (sr_ingestion s) w1 = (Inr rs, ing, w') \<and>
      server_inv L (s\<lparr>sr_ingestion := ing\<rparr>)" for t ids actor w1
    unfolding ReplayManyForTenant_def
    using replay_batch_total [OF server_inv_sv [OF inv]] server_inv_steps [OF _ inv] by metis
  have "holds (clean L) (case ReplayManyForTenant L (Find (sr_repo s)) t ids actor (sr_ingestion s) w1 of
      (r, ing', w2) \<Rightarrow> case r of Inl e \<Rightarrow> (Inl e, s\<lparr>sr_ingestion := ing'\<rparr>, w2)
       | Inr results \<Rightarrow> respond (JSON 202 rid (DReplays t results) w2) (s\<lparr>sr_ingestion := ing'\<rparr>))" for t ids actor w1 rid
    using * [of t ids actor w1] by (auto intro!: holds_respond simp: clean_simps)
  then show ?thesis unfolding replayMany_def Let_def
    by (auto intro!: holds_with_tenant holds_with_body holds_respond simp: clean_simps inv split: prod.splits)
qed

lemma lookup_np: "\<not> is_panic (GetLineage sv eid)" "\<not> is_panic (Quality sv eid)" "\<not> is_panic (GetEvent p sv t eid)"
  by (simp_all add: GetLineage_def Quality_def GetEvent_def is_panic_iff split: option.splits)

lemma serve_endpoint_clean:
  assumes "server_inv L s" and "ep = ListEvents \<Longrightarrow> int (length (sv_events (sr_ingestion s))) + 500 \<le> MaxInt64"
  shows "holds (clean L) (serve_endpoint L H \<pi> ep rq b s w)"
proof -
  note [simp] = createContract_clean [OF assms(1)] getContract_clean [OF assms(1)] addVersion_clean [OF assms(1)]
    publish_clean [OF assms(1)] compatibility_clean [OF assms(1)] ingest_clean [OF assms(1)] setRules_clean [OF assms(1)]
    activateRules_clean [OF assms(1)] qualityDetailed_clean [OF assms(1)]
    replay_clean [OF assms(1)] replayMany_clean [OF assms(1)]
  show ?thesis
    by (cases ep)
      (auto intro!: holds_rules listEvents_clean [OF assms] simp: healthz_def readyz_def metricsHandler_def getRules_def lineage_def quality_def
        attempts_def getEvent_def eventSummary_def listLetters_def clean_simps clean_def assms(1) lookup_np Let_def
        split: prod.splits)
qed

lemma serve_mux_clean:
  assumes "server_inv L s" and "int (length (sv_events (sr_ingestion s))) + 500 \<le> MaxInt64"
  shows "holds (clean L) (serve_mux L H \<pi> rq s w)"
  using serve_endpoint_clean [OF assms] assms(1)
  by (auto simp: serve_mux_def clean_def intro!: holds_respond split: routing.splits)

lemma Handler_clean:
  assumes "server_inv L s" and "int (length (sv_events (sr_ingestion s))) + 500 \<le> MaxInt64"
    and "Handler L H \<pi> rq s w = (x, s', w')"
  shows "clean L x s'"
  using serve_mux_clean [OF assms(1,2), of H \<pi> rq w] assms(3)
  by (auto simp: holds_def Handler_def)

lemma gateway_boot_inv: "gateway_boot E w = (Inr s, w') \<Longrightarrow> server_inv L s"
  by (auto simp: gateway_boot_def Load_Inr NewServer_def server_inv_def NewMetrics_def now_def Let_def
      intro: registry_reach.start service_reach.start split: sum.splits)

text \<open>A listing that would overflow changes nothing either, so the invariant needs no bound.\<close>

lemma listEvents_state: "fst (snd (listEvents L H \<pi> rq b s w)) = s"
  by (simp add: listEvents_def with_tenant_def finish_def respond_def split: prod.splits sum.splits)

lemma holds_state: "holds Q out \<Longrightarrow> (\<And>x s. Q x s \<Longrightarrow> P s) \<Longrightarrow> P (fst (snd out))"
  by (auto simp: holds_def)

lemma serve_mux_inv:
  assumes "server_inv L s"
  shows "server_inv L (fst (snd (serve_mux L H \<pi> rq s w)))"
proof -
  have "server_inv L (fst (snd (serve_endpoint L H \<pi> ep rq b s w)))" for ep b
  proof (cases "ep = ListEvents")
    case True
    then show ?thesis using assms by (simp add: listEvents_state)
  next
    case False
    with serve_endpoint_clean [OF assms] have "holds (clean L) (serve_endpoint L H \<pi> ep rq b s w)" by blast
    then show ?thesis by (rule holds_state) (simp add: clean_def)
  qed
  then show ?thesis using assms by (simp add: serve_mux_def respond_def split: routing.splits)
qed

lemma Handler_state: "fst (snd (Handler L H \<pi> rq s w)) = fst (snd (serve_mux L H \<pi> rq s w))"
  by (simp add: Handler_def Let_def split: prod.splits sum.splits)

lemma server_reach_inv: "server_reach L H s \<Longrightarrow> server_inv L s"
proof (induction rule: server_reach.induct)
  case (boot E w s w')
  then show ?case by (rule gateway_boot_inv)
next
  case (request s \<pi> rq w x s' w')
  then show ?case using serve_mux_inv [of L s H \<pi> rq w] Handler_state [of L H \<pi> rq s w] by simp
qed

section \<open>Requests that only read\<close>

definition reading :: "endpoint \<Rightarrow> bool" where
  "reading ep \<longleftrightarrow> ep \<notin> {CreateContract, AddVersionEP, PublishEP, IngestEP, SetRulesEP, ActivateRules, ReplayEP, ReplayManyEP}"

lemma routes_reading: "list_all (\<lambda>r. ro_Method r \<noteq> ''POST'' \<longrightarrow> reading (ro_Endpoint r)) routes"
  by (simp add: routes_def mk_route_def reading_def)

lemma serve_endpoint_reading:
  assumes "reading ep"
  shows "yields (\<lambda>_ s'. s' = s) (serve_endpoint L H \<pi> ep rq b s w)"
  using assms
  by (cases ep) (auto simp: reading_def handler_defs Let_def intro!: yields_rules split: prod.splits)

section \<open>Envelopes\<close>

text \<open>A response of the service: plain text, or an envelope with exactly one of data and error, an error exactly for
  the codes from 400 on, and one request identifier everywhere.\<close>

definition wf_response :: "Response \<Rightarrow> bool" where
  "wf_response x \<longleftrightarrow> (case hr_Body x of
       TextBody _ \<Rightarrow> hr_RequestID x = ''''
     | JsonBody en \<Rightarrow> (en_Data en = None) \<noteq> (en_Error en = None) \<and> (en_Error en \<noteq> None \<longleftrightarrow> 400 \<le> hr_Status x) \<and>
         me_RequestID (en_Meta en) = hr_RequestID x \<and>
         (case en_Error en of None \<Rightarrow> True | Some er \<Rightarrow> er_RequestID er = hr_RequestID x) \<and>
         hr_ContentType x = ''application/json'')"

lemma wf_JSON: "wf_response (fst (JSON st rid d w)) \<longleftrightarrow> st < 400"
  by (auto simp: wf_response_def JSON_def now_def)

lemma wf_Fail: "wf_response (fst (Fail st rid c m det w)) \<longleftrightarrow> 400 \<le> st"
  by (simp add: wf_response_def Fail_def now_def)

lemma wf_text: "wf_response (text_response st c t)"
  by (simp add: wf_response_def text_response_def)

lemmas wf_simps = wf_JSON wf_Fail wf_text

lemma serve_endpoint_wf: "yields (\<lambda>r s. \<forall>x. r = Inr x \<longrightarrow> wf_response x) (serve_endpoint L H \<pi> ep rq b s w)"
  by (cases ep)
    (auto simp: handler_defs Let_def wf_simps intro!: yields_rules split: prod.splits option.splits sum.splits)

section \<open>Ingestion over HTTP\<close>

lemma quota_text: "Contains (error_text H ErrQuota) ''quota''" "\<not> Contains (error_text H ErrIdempotencyKey) ''quota''"
  by code_simp+

lemma etag_text: "Contains (error_text H ErrETagMismatch) ''etag''" "\<not> Contains (error_text H ErrIfMatchRequired) ''etag''"
  "\<not> Contains (error_text H ErrVersionNotFound) ''etag''" "\<not> Contains (error_text H ErrOnlyDraft) ''etag''"
  "\<not> Contains (error_text H ErrContractNotFound) ''etag''"
  by code_simp+

lemma RequestID_world: "clock (snd (RequestID rq w)) = clock w" "ticks (snd (RequestID rq w)) = ticks w"
  by (simp_all add: RequestID_def new_id_def Let_def)

lemma Handler_matched:
  assumes "route_request (rq_Method rq) (rq_Path rq) = Matched ep b" and "Handler L H \<pi> rq s w = (x, s', w')"
    and "serve_endpoint L H \<pi> ep rq b s w = (Inr y, s2, w2)"
  shows "x = y \<and> s' = s2 \<and> w' = w2"
  using assms by (simp add: Handler_def serve_mux_def)

text \<open>A property of the outcome that a recovered panic satisfies too is one of the response.\<close>

lemma Handler_yields:
  assumes "\<And>ep b. route_request (rq_Method rq) (rq_Path rq) = Matched ep b \<Longrightarrow>
      yields (\<lambda>r s'. case r of Inr x \<Rightarrow> Q x s' | Inl _ \<Rightarrow> R s') (serve_endpoint L H \<pi> ep rq b s w)"
    and "\<And>st ct t. (\<nexists>ep b. route_request (rq_Method rq) (rq_Path rq) = Matched ep b) \<Longrightarrow> Q (text_response st ct t) s"
    and "\<And>s' rid det w. R s' \<Longrightarrow> Q (fst (Fail 500 rid ''internal_error'' ''unexpected server error'' det w)) s'"
    and "Handler L H \<pi> rq s w = (x, s', w')"
  shows "Q x s'"
proof -
  have "yields (\<lambda>r s'. case r of Inr x \<Rightarrow> Q x s' | Inl _ \<Rightarrow> R s') (serve_mux L H \<pi> rq s w)"
    using assms(1,2) by (auto simp: serve_mux_def intro!: yields_respond split: routing.splits)
  then show ?thesis using assms(3,4)
    by (auto simp: Handler_def yields_def Let_def split: prod.splits sum.splits) (metis fst_conv)
qed

section \<open>Metrics\<close>

text \<open>The receipt with which an ingestion request was answered.\<close>

definition ingest_receipt :: "Request \<times> Response \<Rightarrow> Receipt option" where
  "ingest_receipt rx = (case route_request (rq_Method (fst rx)) (rq_Path (fst rx)) of
       Matched IngestEP _ \<Rightarrow> (case hr_Body (snd rx) of
           JsonBody en \<Rightarrow> (case en_Data en of Some (DReceipt r) \<Rightarrow> Some r | _ \<Rightarrow> None)
         | TextBody _ \<Rightarrow> None)
     | _ \<Rightarrow> None)"

lemma body_receipt [simp]:
  "hr_Body (fst (Fail st rid c m det w)) = JsonBody \<lparr>en_Data = None, en_Error = Some \<lparr>er_Code = c, er_Message = m,
     er_RequestID = rid, er_Details = det\<rparr>, en_Meta = \<lparr>me_RequestID = rid, me_At = clock w (ticks w)\<rparr>\<rparr>"
  by (simp add: Fail_def now_def)

lemma serve_endpoint_metrics:
  "ep \<noteq> IngestEP \<Longrightarrow> yields (\<lambda>_ s'. sr_metrics s' = sr_metrics s) (serve_endpoint L H \<pi> ep rq b s w)"
  by (cases ep) (auto simp: handler_defs Let_def intro!: yields_rules split: prod.splits option.splits sum.splits)

lemma ingest_metrics:
  assumes "route_request (rq_Method rq) (rq_Path rq) = Matched IngestEP b"
  shows "yields (\<lambda>r s'. case r of
      Inr x \<Rightarrow> sr_metrics s' = (case ingest_receipt (rq, x) of None \<Rightarrow> sr_metrics s | Some rc \<Rightarrow> count_receipt rc (sr_metrics s))
    | Inl _ \<Rightarrow> sr_metrics s' = sr_metrics s) (ingest L H rq b s w)"
  using assms
  by (auto simp: ingest_def ingest_receipt_def intro!: yields_rules split: prod.splits)

lemma Handler_metrics:
  assumes "Handler L H \<pi> rq s w = (x, s', w')"
  shows "sr_metrics s' = (case ingest_receipt (rq, x) of None \<Rightarrow> sr_metrics s | Some r \<Rightarrow> count_receipt r (sr_metrics s))"
proof (rule Handler_yields [where R = "\<lambda>s'. sr_metrics s' = sr_metrics s", OF _ _ _ assms])
  fix ep b
  assume m: "route_request (rq_Method rq) (rq_Path rq) = Matched ep b"
  show "yields (\<lambda>r s'. case r of
      Inl _ \<Rightarrow> sr_metrics s' = sr_metrics s
    | Inr x \<Rightarrow> sr_metrics s' = (case ingest_receipt (rq, x) of None \<Rightarrow> sr_metrics s | Some rc \<Rightarrow> count_receipt rc (sr_metrics s)))
    (serve_endpoint L H \<pi> ep rq b s w)"
  proof (cases "ep = IngestEP")
    case True
    then show ?thesis using ingest_metrics [of rq b s L H w] m by simp
  next
    case False
    then have "ingest_receipt (rq, x) = None" for x using m by (simp add: ingest_receipt_def split: endpoint.splits)
    with serve_endpoint_metrics [OF False, of s L H \<pi> rq b w] show ?thesis by (auto simp: yields_def split: sum.splits)
  qed
next
  fix st ct t
  assume "\<nexists>ep b. route_request (rq_Method rq) (rq_Path rq) = Matched ep b"
  then show "sr_metrics s = (case ingest_receipt (rq, text_response st ct t) of None \<Rightarrow> sr_metrics s
      | Some rc \<Rightarrow> count_receipt rc (sr_metrics s))"
    by (auto simp: ingest_receipt_def split: routing.splits)
next
  fix s' rid det w
  assume "sr_metrics s' = sr_metrics s"
  then show "sr_metrics s' = (case ingest_receipt (rq, fst (Fail 500 rid ''internal_error'' ''unexpected server error'' det w))
      of None \<Rightarrow> sr_metrics s | Some rc \<Rightarrow> count_receipt rc (sr_metrics s))"
    by (auto simp: ingest_receipt_def split: routing.splits endpoint.splits)
qed

text \<open>A run of requests, each with its clock and random source, and the exchange it leaves.\<close>

fun serve_all ::
  "golib \<Rightarrow> httplib \<Rightarrow> (orders \<times> Request \<times> world) list \<Rightarrow> Server \<Rightarrow> (Request \<times> Response) list \<times> Server" where
  "serve_all L H [] s = ([], s)"
| "serve_all L H ((\<pi>, rq, w) # rest) s =
     (let (x, s1, _) = Handler L H \<pi> rq s w; (trace, s2) = serve_all L H rest s1 in ((rq, x) # trace, s2))"

definition answered :: "(Receipt \<Rightarrow> bool) \<Rightarrow> (Request \<times> Response) list \<Rightarrow> int" where
  "answered P trace = int (length (filter (\<lambda>rx. case ingest_receipt rx of None \<Rightarrow> False | Some r \<Rightarrow> P r) trace))"

lemma serve_all_metrics:
  "serve_all L H reqs s = (trace, s') \<Longrightarrow> mt_Accepted (sr_metrics s) = wrap64 a \<Longrightarrow> mt_DeadLettered (sr_metrics s) = wrap64 d \<Longrightarrow>
   mt_Accepted (sr_metrics s') = wrap64 (a + answered (\<lambda>r. rp_Status r = Accepted) trace) \<and>
   mt_DeadLettered (sr_metrics s') = wrap64 (d + answered (\<lambda>r. rp_Status r \<noteq> Accepted) trace) \<and>
   mt_Rejected (sr_metrics s') = mt_Rejected (sr_metrics s) \<and>
   mt_ReplaySucceeded (sr_metrics s') = mt_ReplaySucceeded (sr_metrics s)"
proof (induction L H reqs s arbitrary: trace a d rule: serve_all.induct)
  case (1 L H s)
  then show ?case by (simp add: answered_def)
next
  case (2 L H \<pi> rq w rest s)
  obtain x s1 w1 where h: "Handler L H \<pi> rq s w = (x, s1, w1)" by (metis prod_cases3)
  obtain trace2 where r: "serve_all L H rest s1 = (trace2, s')" "trace = (rq, x) # trace2"
    using "2.prems"(1) h by (auto split: prod.splits)
  have wrap: "wrap64 (wrap64 b + 1) = wrap64 (b + 1)" "wrap64 (1 + wrap64 b) = wrap64 (1 + b)" for b
    by (simp_all add: wrap64_def mod_simps)
  note m = Handler_metrics [OF h]
  note IH = "2.IH" [OF h [symmetric] refl refl r(1)]
  show ?case
  proof (cases "ingest_receipt (rq, x)")
    case None
    then show ?thesis using IH [of a d] m "2.prems" r(2) by (simp add: answered_def)
  next
    case (Some rc)
    show ?thesis
    proof (cases "rp_Status rc = Accepted")
      case True
      then show ?thesis using IH [of "a + 1" d] m Some "2.prems" r(2) by (simp add: answered_def count_receipt_def wrap algebra_simps)
    next
      case False
      then show ?thesis using IH [of a "d + 1"] m Some "2.prems" r(2) by (simp add: answered_def count_receipt_def wrap algebra_simps)
    qed
  qed
qed

section \<open>Tenants\<close>

text \<open>The handlers that ask for the tenant header.\<close>

definition guarded :: "endpoint \<Rightarrow> bool" where
  "guarded ep \<longleftrightarrow> ep \<in> {CreateContract, GetContract, AddVersionEP, PublishEP, CompatibilityEP, IngestEP, ListEvents,
     GetEventEP, EventSummaryEP, SetRulesEP, GetRules, ActivateRules, ListLettersEP, ReplayManyEP}"

lemma serve_endpoint_guard:
  assumes "guarded ep" and "Tenant rq = Inl e"
  shows "\<exists>rid w1. serve_endpoint L H \<pi> ep rq b s w =
    respond (Fail 400 rid ''invalid_tenant'' (error_text H e) None w1) s"
  using assms by (cases ep) (auto simp: guarded_def handler_defs with_tenant_def Let_def split: prod.splits)

definition with_tenant_header :: "string \<Rightarrow> Request \<Rightarrow> Request" where
  "with_tenant_header t rq = rq\<lparr>rq_Header := (rq_Header rq)(''X-Tenant-ID'' := t)\<rparr>"

lemma RequestID_tenant [simp]: "RequestID (with_tenant_header t rq) w = RequestID rq w"
  by (simp add: RequestID_def with_tenant_header_def)

lemma with_tenant_header_simps [simp]: "rq_Path (with_tenant_header t rq) = rq_Path rq"
  "rq_Method (with_tenant_header t rq) = rq_Method rq"
  "rq_Header (with_tenant_header t rq) ''X-Actor-ID'' = rq_Header rq ''X-Actor-ID''"
  by (simp_all add: with_tenant_header_def)

lemma serve_endpoint_unguarded:
  "\<not> guarded ep \<Longrightarrow> serve_endpoint L H \<pi> ep (with_tenant_header t rq) b s w = serve_endpoint L H \<pi> ep rq b s w"
  by (cases ep) (simp_all add: guarded_def handler_defs)

section \<open>Sample server\<close>

definition demo_http :: httplib where
  "demo_http = \<lparr>hl_quote = (\<lambda>s. s), hl_regexp_error = (\<lambda>s. s), hl_rfc3339 = (\<lambda>_. None),
     hl_command = (\<lambda>_ _. Inr (demo_command, '''')), hl_schema = (\<lambda>_ _. Inr (demo_schema, '''')),
     hl_event = (\<lambda>_ _. Inr (demo_order, '''')), hl_rules = (\<lambda>_ _. Inr ([], '''')),
     hl_replay = (\<lambda>_ _. Inr (\<lparr>rp_LetterIDs = [], rp_Actor = ''''\<rparr>, '''')), hl_pprof = (\<lambda>_. '''')\<rparr>"

definition demo_server :: Server where
  "demo_server = NewServer (default_config '''') NewMemoryContracts (NewService '''' 1000) (fst (NewMetrics demo_world))"

definition demo_request :: "string \<Rightarrow> string list \<Rightarrow> Request" where
  "demo_request m path = \<lparr>rq_Method = m, rq_Path = path,
     rq_Header = (\<lambda>h. if h = ''X-Tenant-ID'' then ''acme'' else if h = ''Idempotency-Key'' then ''k1''
       else if h = ''If-Match'' then ''id0-2'' else if h = ''X-Request-ID'' then ''r'' else ''''),
     rq_Query = (\<lambda>_. ''''), rq_Body = ''''\<rparr>"

lemma demo_boot: "gateway_boot (\<lambda>_. '''') demo_world = (Inr demo_server, snd (NewMetrics demo_world))"
proof -
  have "Load (\<lambda>_. '''') = Inr (default_config '''')"
    using Load_Inr [of "\<lambda>_. ''''"] read_config_blank [of "\<lambda>_. ''''"] by (simp add: config_ok_def default_config_def)
  then show ?thesis
    by (simp add: gateway_boot_def demo_server_def NewMetrics_def now_def default_config_def)
qed

lemma demo_server_reach: "server_reach L H demo_server"
  by (rule server_reach.boot [OF demo_boot])

abbreviation demo_ingest :: Request where
  "demo_ingest \<equiv> demo_request ''POST'' [''api'', ''v1'', ''ingest'', ''events'']"

abbreviation demo_outcome :: "Request \<Rightarrow> Response \<times> Server \<times> world" where
  "demo_outcome rq \<equiv> Handler demo_lib demo_http demo_orders rq demo_server demo_world"

lemma finish_state [simp]: "fst (snd (finish H r st rid code ok s w)) = s"
  by (simp add: finish_def respond_def split: sum.splits)

lemma demo_request_simps [simp]: "rq_Method (demo_request m path) = m" "rq_Path (demo_request m path) = path"
  "Tenant (demo_request m path) = Inr ''acme''" "RequestID (demo_request m path) w = (''r'', w)"
  "rq_Header (demo_request m path) ''Idempotency-Key'' = ''k1''" "rq_Header (demo_request m path) ''If-Match'' = ''id0-2''"
proof -
  have "TrimSpace ''acme'' = ''acme''" "TrimSpace ''r'' = ''r''" by code_simp+
  then show "rq_Method (demo_request m path) = m" "rq_Path (demo_request m path) = path"
    "Tenant (demo_request m path) = Inr ''acme''" "RequestID (demo_request m path) w = (''r'', w)"
    "rq_Header (demo_request m path) ''Idempotency-Key'' = ''k1''" "rq_Header (demo_request m path) ''If-Match'' = ''id0-2''"
    by (simp_all add: demo_request_def Tenant_def RequestID_def)
qed

lemma demo_decode: "0 \<le> n \<Longrightarrow> Decode (hl_command demo_http) (rq_Body (demo_request m path)) n = Inr demo_command"
  "0 \<le> n \<Longrightarrow> Decode (hl_schema demo_http) (rq_Body (demo_request m path)) n = Inr demo_schema"
  "0 \<le> n \<Longrightarrow> Decode (hl_event demo_http) (rq_Body (demo_request m path)) n = Inr demo_order"
  by (simp_all add: Decode_def demo_http_def demo_request_def)

definition demo_store2 :: MemoryContracts where
  "demo_store2 = fst (snd (AddVersion demo_lib demo_orders memory_repository ''acme'' ''id0'' demo_schema demo_registry demo_world))"

lemma demo_routes:
  "route_request ''POST'' [''api'', ''v1'', ''contracts''] = Matched CreateContract []"
  "route_request ''POST'' [''api'', ''v1'', ''contracts'', ''id0'', ''versions''] = Matched AddVersionEP [(''id'', ''id0'')]"
  "route_request ''POST'' [''api'', ''v1'', ''contracts'', ''id0'', ''versions'', ''1'', ''publish''] = Matched PublishEP [(''id'', ''id0''), (''version'', ''1'')]"
  "route_request ''POST'' [''api'', ''v1'', ''ingest'', ''events''] = Matched IngestEP []"
  "route_request ''POST'' [''api'', ''v1'', ''dead-letters'', ''l1'', ''replay''] = Matched ReplayEP [(''id'', ''l1'')]"
  by code_simp+

lemma demo_server_simps [simp]: "sr_config demo_server = default_config ''''" "sr_repo demo_server = NewMemoryContracts"
  "sr_ingestion demo_server = NewService '''' 1000"
  by (simp_all add: demo_server_def NewServer_def)

lemma demo_body_limit [simp]: "cf_MaxBodyBytes (default_config '''') = 2 ^ 20"
  by (simp add: default_config_def)

text \<open>A gateway with one contract and one draft version, built by two requests.\<close>

lemma demo_versioned_reach: "server_reach demo_lib demo_http (demo_server\<lparr>sr_repo := demo_store2\<rparr>)"
proof -
  let ?r1 = "demo_request ''POST'' [''api'', ''v1'', ''contracts'']"
  let ?s1 = "demo_server\<lparr>sr_repo := demo_registry\<rparr>"
  let ?r2 = "demo_request ''POST'' [''api'', ''v1'', ''contracts'', ''id0'', ''versions'']"
  have "fst (snd (Handler demo_lib demo_http demo_orders ?r1 demo_server demo_world)) = ?s1"
    by (simp add: Handler_state serve_mux_def demo_routes createContract_def with_tenant_def with_body_def demo_decode demo_register)
  then have r1: "server_reach demo_lib demo_http ?s1"
    using server_reach.request [OF demo_server_reach, of demo_lib demo_http demo_orders ?r1 demo_world] by (metis prod.collapse)
  have "fst (snd (Handler demo_lib demo_http demo_orders ?r2 ?s1 demo_world)) = demo_server\<lparr>sr_repo := demo_store2\<rparr>"
    by (simp add: Handler_state serve_mux_def demo_routes addVersion_def with_tenant_def with_body_def demo_decode PathValue_def
        demo_store2_def split: prod.splits)
  then show ?thesis
    using server_reach.request [OF r1, of demo_orders ?r2 demo_world] by (metis prod.collapse)
qed

section \<open>Properties\<close>

text \<open>C11: no request can break the gateway: after any sequence of requests to a gateway that started, the
  configuration is within its bounds, the registry is in a state that its operations produce and so is the
  ingestion service with the configured secret and quota, and the next request, whatever it is, leaves it so and is not answered
  with an internal error. (The number of stored events plus a page fits in 64 bits.)\<close>

theorem http_never_500:
  assumes "server_reach L H s" and "Handler L H \<pi> rq s w = (x, s', w')"
    and "int (length (sv_events (sr_ingestion s))) + 500 \<le> MaxInt64"
  shows "hr_Status x \<noteq> 500 \<and> config_ok (sr_config s') \<and> registry_reach L (sr_repo s') \<and>
    service_reach L (cf_HMACSecret (sr_config s')) (cf_DefaultQuota (sr_config s')) (sr_ingestion s')"
  using Handler_clean [OF server_reach_inv [OF assms(1)] assms(3,2)] by (simp add: clean_def server_inv_def)

theorem http_never_500_witness:
  "hr_Status (fst (demo_outcome demo_ingest)) \<noteq> 500 \<and> registry_reach demo_lib (sr_repo (fst (snd (demo_outcome demo_ingest))))"
  using http_never_500 [OF demo_server_reach split3, of demo_lib demo_http demo_orders demo_ingest demo_world]
  by (simp add: NewService_def)

text \<open>C32: a request whose method is not \<^verbatim>\<open>POST\<close> changes nothing: not the registry, the ingestion service, the
  configuration or the counters, whatever its path, headers and body and whatever state the gateway is in.\<close>

theorem http_get_safe:
  assumes "rq_Method rq \<noteq> ''POST''" and "Handler L H \<pi> rq s w = (x, s', w')"
  shows "s' = s"
proof (rule Handler_yields [where Q = "\<lambda>_ s'. s' = s" and R = "\<lambda>s'. s' = s", OF _ _ _ assms(2)])
  fix ep b
  assume "route_request (rq_Method rq) (rq_Path rq) = Matched ep b"
  then obtain r b' where "match_route (rq_Method rq) (rq_Path rq) = Some (r, b')" "ep = ro_Endpoint r"
    by (auto simp: route_request_def split: option.splits if_splits)
  then have "reading ep"
    using match_route_sound [of "rq_Method rq" "rq_Path rq" r b'] routes_reading assms(1) by (auto simp: list_all_iff)
  from serve_endpoint_reading [OF this, of s L H \<pi> rq b w]
  show "yields (\<lambda>r s'. case r of Inl _ \<Rightarrow> s' = s | Inr _ \<Rightarrow> s' = s) (serve_endpoint L H \<pi> ep rq b s w)"
    by (auto simp: yields_def split: sum.splits)
qed simp_all

theorem http_get_safe_witness:
  "fst (snd (demo_outcome (demo_request ''GET'' [''api'', ''v1'', ''events'']))) = demo_server"
  by (rule http_get_safe [OF _ split3]) simp

text \<open>C31: every response is well formed: plain text without a request identifier, or a JSON envelope that holds
  either data or an error, an error exactly when the status is 400 or more, with one request identifier in the
  header, the metadata and the error.\<close>

theorem response_envelope:
  assumes "Handler L H \<pi> rq s w = (x, s', w')"
  shows "wf_response x"
proof (rule Handler_yields [where Q = "\<lambda>x _. wf_response x" and R = "\<lambda>_. True", OF _ _ _ assms])
  fix ep b
  show "yields (\<lambda>r s'. case r of Inl _ \<Rightarrow> True | Inr x \<Rightarrow> wf_response x) (serve_endpoint L H \<pi> ep rq b s w)"
    using serve_endpoint_wf [of L H \<pi> ep rq b s w] by (auto simp: yields_def split: sum.splits)
qed (simp_all add: wf_simps)

theorem response_envelope_witness:
  "wf_response (fst (demo_outcome demo_ingest))"
  by (rule response_envelope [OF split3])

text \<open>C21: the handlers of the registry, of rules, of event search and of the batch replay refuse a request
  without a usable tenant header with 400 and change nothing; the others (lineage, quality results, processing attempts
  and the replay of one letter among them) answer the same whatever that header says.\<close>

theorem tenant_guard:
  assumes "route_request (rq_Method rq) (rq_Path rq) = Matched ep b"
  shows "(guarded ep \<and> Tenant rq = Inl e \<and> Handler L H \<pi> rq s w = (x, s', w') \<longrightarrow> hr_Status x = 400 \<and> s' = s) \<and>
    (\<not> guarded ep \<longrightarrow> Handler L H \<pi> (with_tenant_header t rq) s w = Handler L H \<pi> rq s w)"
proof (rule conjI; rule impI)
  assume h: "guarded ep \<and> Tenant rq = Inl e \<and> Handler L H \<pi> rq s w = (x, s', w')"
  then obtain rid w1 where out: "serve_endpoint L H \<pi> ep rq b s w =
      respond (Fail 400 rid ''invalid_tenant'' (error_text H e) None w1) s" using serve_endpoint_guard [of ep rq e L H \<pi> b s w] by auto
  show "hr_Status x = 400 \<and> s' = s"
    using Handler_matched [OF assms _ out [unfolded respond_def]] h by fastforce
next
  assume "\<not> guarded ep"
  with assms show "Handler L H \<pi> (with_tenant_header t rq) s w = Handler L H \<pi> rq s w"
    by (simp add: Handler_def serve_mux_def serve_endpoint_unguarded split: prod.splits sum.splits)
qed

theorem tenant_guard_witness:
  "demo_outcome (with_tenant_header ''other'' (demo_request ''POST'' [''api'', ''v1'', ''dead-letters'', ''l1'', ''replay''])) =
   demo_outcome (demo_request ''POST'' [''api'', ''v1'', ''dead-letters'', ''l1'', ''replay''])"
proof -
  let ?rq = "demo_request ''POST'' [''api'', ''v1'', ''dead-letters'', ''l1'', ''replay'']"
  have "route_request (rq_Method ?rq) (rq_Path ?rq) = Matched ReplayEP [(''id'', ''l1'')]" by (simp add: demo_routes)
  from tenant_guard [OF this] show ?thesis by (simp add: guarded_def)
qed



text \<open>C19: publishing over HTTP is a conditional request: on a version that exists the answer is 422 without \<^verbatim>\<open>If-Match\<close>,
  412 when it is not the entity tag of the version, 422 when the version is not a draft, and 200 otherwise; only then
  something changes, and the stored version is published with its schema as it was.\<close>

theorem publish_precondition:
  assumes "server_reach L H s" and "route_request (rq_Method rq) (rq_Path rq) = Matched PublishEP b"
    and "Tenant rq = Inr t" and "Atoi (PathValue b ''version'') = Some n"
    and "Find (sr_repo s) t (PathValue b ''id'') = Inr c" and "version_index n (c_Versions c) = Some i"
    and "Handler L H \<pi> rq s w = (x, s', w')"
  shows "hr_Status x =
      (if rq_Header rq ''If-Match'' = '''' then 422
       else if v_ETag (c_Versions c ! i) \<noteq> rq_Header rq ''If-Match'' then 412
       else if v_Lifecycle (c_Versions c ! i) \<noteq> Draft then 422 else 200) \<and>
    (hr_Status x \<noteq> 200 \<longrightarrow> s' = s) \<and>
    (hr_Status x = 200 \<longrightarrow> (\<exists>v c'. Find (sr_repo s') t (PathValue b ''id'') = Inr c' \<and>
       c_Versions c' = (c_Versions c)[i := v] \<and> v_Lifecycle v = Published \<and> v_Schema v = v_Schema (c_Versions c ! i) \<and>
       sr_ingestion s' = sr_ingestion s \<and> sr_metrics s' = sr_metrics s))"
proof -
  obtain rid w1 where rid: "RequestID rq w = (rid, w1)" by fastforce
  have wf: "wf_store (sr_repo s)" using registry_reach_inv [OF server_inv_reg [OF server_reach_inv [OF assms(1)]]] by blast
  obtain r repo w2 where op: "Publish_version memory_repository t (PathValue b ''id'') n (rq_Header rq ''If-Match'') (sr_repo s) w1 = (r, repo, w2)"
    by (metis prod_cases3)
  note np = Publish_version_np [OF op]
  have h: "Handler L H \<pi> rq s w = (let out = finish H r (\<lambda>e. if Contains (error_text H e) ''etag'' then 412 else 422) rid
      ''publish_rejected'' (\<lambda>v. JSON 200 rid (DVersion v)) (s\<lparr>sr_repo := repo\<rparr>) w2 in (projr (fst out), snd out))"
    using assms(2-4) rid op np
    by (auto simp: Handler_def serve_mux_def publish_def with_tenant_def finish_def respond_def split: sum.splits)
  show ?thesis
  proof (cases "Contract_Publish c n (rq_Header rq ''If-Match'') (clock w1 (ticks w1))")
    case (Inl e)
    then have "r = Inl e" "repo = sr_repo s" using op assms(5) by (auto simp: Publish_version_def now_def)
    then show ?thesis using h assms(6,7) Inl np
      by (auto simp: finish_def respond_def Contract_Publish_def Let_def etag_text simp del: error_text.simps split: if_splits)
  next
    case (Inr p)
    then obtain v c' where p: "Contract_Publish c n (rq_Header rq ''If-Match'') (clock w1 (ticks w1)) = Inr (v, c')" by (cases p) auto
    note v = this [unfolded Contract_Publish_def Let_def]
    have fr: "c_OrganizationID c' = c_OrganizationID c" "c_ID c' = c_ID c" using v assms(6) by (auto split: if_splits)
    obtain st where "repo_Save memory_repository c' (sr_repo s) = (Inr (), st)" "repo_Find memory_repository st t (PathValue b ''id'') = Inr c'"
      using mem.save_found(1,3) [OF wf, of t "PathValue b ''id''" c c'] assms(5) fr
      by (cases "repo_Save memory_repository c' (sr_repo s)") auto
    then have "r = Inr v" "Find repo t (PathValue b ''id'') = Inr c'" using op assms(5) p by (auto simp: Publish_version_def now_def)
    then show ?thesis using h assms(6,7) v by (auto simp: finish_def respond_def split: if_splits)
  qed
qed

theorem publish_precondition_witness:
  "hr_Status (fst (Handler demo_lib demo_http demo_orders
     (demo_request ''POST'' [''api'', ''v1'', ''contracts'', ''id0'', ''versions'', ''1'', ''publish''])
     (demo_server\<lparr>sr_repo := demo_store2\<rparr>) demo_world)) = 200"
proof -
  let ?rq = "demo_request ''POST'' [''api'', ''v1'', ''contracts'', ''id0'', ''versions'', ''1'', ''publish'']"
  let ?s = "demo_server\<lparr>sr_repo := demo_store2\<rparr>"
  let ?b = "[(''id'', ''id0''), (''version'', ''1'')]"
  have rt: "route_request (rq_Method ?rq) (rq_Path ?rq) = Matched PublishEP ?b" by (simp add: demo_routes)
  have n: "Atoi (PathValue ?b ''version'') = Some 1" "PathValue ?b ''id'' = ''id0''" by code_simp+
  obtain c where c: "Find demo_store2 ''acme'' ''id0'' = Inr c"
    and vs: "version_index 1 (c_Versions c) = Some 0" "v_ETag (c_Versions c ! 0) = ''id0-2''" "v_Lifecycle (c_Versions c ! 0) = Draft"
  proof -
    have "map_sum (\<lambda>e. e) (\<lambda>c. (version_index 1 (c_Versions c), v_ETag (c_Versions c ! 0), v_Lifecycle (c_Versions c ! 0)))
        (Find demo_store2 ''acme'' ''id0'') = Inr (Some 0, ''id0-2'', Draft)" by code_simp
    then show thesis using that by (cases "Find demo_store2 ''acme'' ''id0''") auto
  qed
  have c': "Find (sr_repo ?s) ''acme'' (PathValue ?b ''id'') = Inr c" using c n by simp
  show ?thesis using publish_precondition [OF demo_versioned_reach rt _ n(1) c' vs(1) split3] vs by simp
qed

text \<open>The counters are exact: after any run of requests to a gateway that started, the accepted counter is the number of
  ingestion requests answered with an accepted receipt and the dead-letter counter the number of the other receipts,
  modulo 64 bits and with every repetition of an idempotent request counted again; the counters of rejections
  and of successful replays never move.\<close>

theorem metrics_exact:
  assumes "gateway_boot E w = (Inr s, w')" and "serve_all L H reqs s = (trace, s')"
  shows "mt_Accepted (sr_metrics s') = wrap64 (answered (\<lambda>r. rp_Status r = Accepted) trace) \<and>
    mt_DeadLettered (sr_metrics s') = wrap64 (answered (\<lambda>r. rp_Status r \<noteq> Accepted) trace) \<and>
    mt_Rejected (sr_metrics s') = 0 \<and> mt_ReplaySucceeded (sr_metrics s') = 0"
proof -
  have "mt_Accepted (sr_metrics s) = wrap64 0" "mt_DeadLettered (sr_metrics s) = wrap64 0"
    "mt_Rejected (sr_metrics s) = 0" "mt_ReplaySucceeded (sr_metrics s) = 0"
    using assms(1) by (auto simp: gateway_boot_def NewServer_def NewMetrics_def now_def Let_def split: sum.splits)
  with serve_all_metrics [OF assms(2), of 0 0] show ?thesis by simp
qed

theorem metrics_exact_witness:
  "mt_Accepted (sr_metrics (snd (serve_all demo_lib demo_http [(demo_orders, demo_ingest, demo_world)] demo_server))) =
   wrap64 (answered (\<lambda>r. rp_Status r = Accepted) (fst (serve_all demo_lib demo_http [(demo_orders, demo_ingest, demo_world)] demo_server)))"
  using metrics_exact [OF demo_boot prod.collapse [symmetric]] by blast

end
