(* ===== verification/Interleave.thy ===== *)
theory Interleave
  imports Main
begin

text \<open>
  Threads that share a state and run one critical section at a time. \<open>sys_step\<close> is the system: any
  thread may take its next step, the environment may change the shared state by an operation of its own, and a new
  thread may start. The locale \<open>interleaving\<close> states what an invariant of such a system needs (kept by a
  step, with what the other threads rely on) and when all threads finish.
\<close>

inductive sys_step ::
  "('t \<Rightarrow> 's \<Rightarrow> 't \<Rightarrow> 's \<Rightarrow> bool) \<Rightarrow> ('s \<Rightarrow> 's \<Rightarrow> bool) \<Rightarrow> ('t \<Rightarrow> bool) \<Rightarrow> 't list \<times> 's \<Rightarrow> 't list \<times> 's \<Rightarrow> bool"
  for run env fresh where
  thread: "i < length ts \<Longrightarrow> run (ts ! i) s t' s' \<Longrightarrow> sys_step run env fresh (ts, s) (ts[i := t'], s')"
| outside: "env s s' \<Longrightarrow> sys_step run env fresh (ts, s) (ts, s')"
| spawn: "fresh t \<Longrightarrow> sys_step run env fresh (ts, s) (ts @ [t], s)"

text \<open>Steps of the threads that exist, with nothing from outside.\<close>

definition thread_step :: "('t \<Rightarrow> 's \<Rightarrow> 't \<Rightarrow> 's \<Rightarrow> bool) \<Rightarrow> 't list \<times> 's \<Rightarrow> 't list \<times> 's \<Rightarrow> bool" where
  "thread_step run = sys_step run (\<lambda>_ _. False) (\<lambda>_. False)"

lemma thread_stepI: "i < length ts \<Longrightarrow> run (ts ! i) s t' s' \<Longrightarrow> thread_step run (ts, s) (ts[i := t'], s')"
  by (simp add: thread_step_def sys_step.thread)

lemma thread_stepE:
  assumes "thread_step run c c'"
  obtains i ts s t' s' where "c = (ts, s)" "c' = (ts[i := t'], s')" "i < length ts" "run (ts ! i) s t' s'"
  using assms unfolding thread_step_def by (cases rule: sys_step.cases) auto

section \<open>Schedules\<close>

text \<open>
  The steps of threads as functions of the shared state and of a world that supplies their inputs. A schedule names the
  thread that runs next; one that has finished, or does not exist, is passed over.
\<close>

fun run_alone :: "('t \<Rightarrow> 's \<Rightarrow> 'w \<Rightarrow> 't \<times> 's \<times> 'w) \<Rightarrow> nat \<Rightarrow> 't \<Rightarrow> 's \<Rightarrow> 'w \<Rightarrow> 't \<times> 's \<times> 'w" where
  "run_alone step 0 t s w = (t, s, w)"
| "run_alone step (Suc n) t s w = (let (t', s', w') = step t s w in run_alone step n t' s' w')"

fun run_schedule ::
  "('t \<Rightarrow> 's \<Rightarrow> 'w \<Rightarrow> 't \<times> 's \<times> 'w) \<Rightarrow> ('t \<Rightarrow> nat) \<Rightarrow> nat list \<Rightarrow> 't list \<Rightarrow> 's \<Rightarrow> 'w \<Rightarrow> 't list \<times> 's \<times> 'w" where
  "run_schedule step left [] ts s w = (ts, s, w)"
| "run_schedule step left (i # is) ts s w =
     (if i < length ts \<and> left (ts ! i) \<noteq> 0
      then let (t', s', w') = step (ts ! i) s w in run_schedule step left is (ts[i := t']) s' w'
      else run_schedule step left is ts s w)"

lemma run_schedule_reach:
  assumes "\<And>t s w t' s' w'. left t \<noteq> 0 \<Longrightarrow> step t s w = (t', s', w') \<Longrightarrow> run t s t' s'"
  shows "run_schedule step left is ts s w = (ts', s', w') \<Longrightarrow> (sys_step run env fresh)\<^sup>*\<^sup>* (ts, s) (ts', s')"
proof (induction "is" arbitrary: ts s w)
  case (Cons i "is")
  show ?case
  proof (cases "i < length ts \<and> left (ts ! i) \<noteq> 0")
    case True
    obtain t' s1 w1 where nx: "step (ts ! i) s w = (t', s1, w1)" by (metis prod_cases3)
    then have "sys_step run env fresh (ts, s) (ts[i := t'], s1)"
      using True assms by (intro sys_step.thread) blast+
    with Cons.IH [of "ts[i := t']" s1 w1] Cons.prems True nx show ?thesis
      by (auto intro: converse_rtranclp_into_rtranclp)
  next
    case False
    with Cons show ?thesis by auto
  qed
qed simp

lemma spawn_all: "list_all fresh us \<Longrightarrow> (sys_step run env fresh)\<^sup>*\<^sup>* (ts, s) (ts @ us, s)"
proof (induction us arbitrary: ts)
  case (Cons u us)
  then have "sys_step run env fresh (ts, s) (ts @ [u], s)" by (simp add: sys_step.spawn)
  moreover have "(sys_step run env fresh)\<^sup>*\<^sup>* (ts @ [u], s) ((ts @ [u]) @ us, s)"
    by (rule Cons.IH) (use Cons.prems in simp)
  ultimately show ?case by (simp add: converse_rtranclp_into_rtranclp)
qed simp

lemma schedule_reach:
  assumes "\<And>t s w t' s' w'. left t \<noteq> 0 \<Longrightarrow> step t s w = (t', s', w') \<Longrightarrow> run t s t' s'"
    and "list_all fresh ts" and "run_schedule step left is ts s w = (ts', s', w')"
  shows "(sys_step run env fresh)\<^sup>*\<^sup>* ([], s) (ts', s')"
proof -
  have "(sys_step run env fresh)\<^sup>*\<^sup>* ([], s) (ts, s)" using spawn_all [where ts = "[]", OF assms(2)] by simp
  also have "(sys_step run env fresh)\<^sup>*\<^sup>* (ts, s) (ts', s')"
    by (rule run_schedule_reach [OF _ assms(3)]) (rule assms(1))
  finally show ?thesis .
qed

text \<open>A thread that runs another one as a part of itself, on a part of the shared state.\<close>

lemma run_alone_part:
  assumes "\<And>t x w t' x' w'. left t \<noteq> 0 \<Longrightarrow> part t x w = (t', x', w') \<Longrightarrow> whole (emb t) (upd x) w = (emb t', upd x', w')"
    and "\<And>t x w t' x' w'. left t \<noteq> (0 :: nat) \<Longrightarrow> part t x w = (t', x', w') \<Longrightarrow> left t' < left t"
    and "\<And>t x w. left t = 0 \<Longrightarrow> part t x w = (t, x, w)"
  shows "left t \<le> k \<Longrightarrow> \<exists>j t' x' w'. j \<le> left t \<and> run_alone part k t x w = (t', x', w') \<and> left t' = 0 \<and>
    (\<forall>n. run_alone whole (j + n) (emb t) (upd x) w = run_alone whole n (emb t') (upd x') w')"
proof (induction k arbitrary: t x w)
  case 0
  then show ?case by (intro exI [of _ 0]) auto
next
  case (Suc k)
  obtain t1 x1 w1 where st: "part t x w = (t1, x1, w1)" by (metis prod_cases3)
  show ?case
  proof (cases "left t = 0")
    case True
    then have "t1 = t" "x1 = x" "w1 = w" using st assms(3) [of t x w] by simp_all
    then show ?thesis using Suc.IH [of t x w] True st by auto
  next
    case False
    with assms(2) [OF _ st] Suc.prems have l: "left t1 < left t" "left t1 \<le> k" by auto
    obtain j t' x' w' where j: "j \<le> left t1" "run_alone part k t1 x1 w1 = (t', x', w')" "left t' = 0"
      "\<forall>n. run_alone whole (j + n) (emb t1) (upd x1) w1 = run_alone whole n (emb t') (upd x') w'"
      using Suc.IH [OF l(2), of x1 w1] by blast
    then show ?thesis using l(1) st assms(1) [OF False st] by (intro exI [of _ "Suc j"]) auto
  qed
qed

section \<open>Invariants and termination\<close>

locale interleaving =
  fixes run :: "'t \<Rightarrow> 's \<Rightarrow> 't \<Rightarrow> 's \<Rightarrow> bool" and env :: "'s \<Rightarrow> 's \<Rightarrow> bool" and fresh :: "'t \<Rightarrow> bool"
    and remaining :: "'t \<Rightarrow> nat" and inv :: "'s \<Rightarrow> bool" and ok :: "'s \<Rightarrow> 't \<Rightarrow> bool"
  assumes run_inv: "inv s \<Longrightarrow> ok s t \<Longrightarrow> run t s t' s' \<Longrightarrow> inv s' \<and> ok s' t'"
    and run_stable: "inv s \<Longrightarrow> ok s t \<Longrightarrow> run t s t' s' \<Longrightarrow> ok s u \<Longrightarrow> ok s' u"
    and env_inv: "inv s \<Longrightarrow> env s s' \<Longrightarrow> inv s'"
    and env_stable: "inv s \<Longrightarrow> env s s' \<Longrightarrow> ok s u \<Longrightarrow> ok s' u"
    and fresh_ok: "fresh t \<Longrightarrow> ok s t"
    and run_less: "run t s t' s' \<Longrightarrow> remaining t' < remaining t"
    and run_enabled: "inv s \<Longrightarrow> ok s t \<Longrightarrow> remaining t \<noteq> 0 \<Longrightarrow> \<exists>t' s'. run t s t' s'"
begin

definition sys_inv :: "'t list \<times> 's \<Rightarrow> bool" where
  "sys_inv c \<longleftrightarrow> inv (snd c) \<and> (\<forall>t\<in>set (fst c). ok (snd c) t)"

lemma sys_inv_thread:
  assumes "sys_inv (ts, s)" and "i < length ts" and "run (ts ! i) s t' s'"
  shows "sys_inv (ts[i := t'], s')"
proof -
  have i: "inv s" "ok s (ts ! i)" using assms(1,2) by (simp_all add: sys_inv_def)
  have "ok s' u" if "u \<in> set (ts[i := t'])" for u
    using that assms(1) run_inv [OF i assms(3)] run_stable [OF i assms(3)] set_update_subset_insert [of ts i t']
    by (auto simp: sys_inv_def)
  then show ?thesis using run_inv [OF i assms(3)] by (simp add: sys_inv_def)
qed

lemma sys_inv_step:
  assumes "sys_step run env fresh c c'" and "sys_inv c"
  shows "sys_inv c'"
  using assms
proof (cases rule: sys_step.cases)
  case (thread i ts s t' s')
  then show ?thesis using sys_inv_thread assms(2) by simp
next
  case (outside s s' ts)
  then show ?thesis using env_inv [of s s'] env_stable [of s s'] assms(2) by (auto simp: sys_inv_def)
next
  case (spawn t ts s)
  then show ?thesis using fresh_ok [of t s] assms(2) by (auto simp: sys_inv_def)
qed

lemma sys_inv_reach:
  assumes "inv s0" and "(sys_step run env fresh)\<^sup>*\<^sup>* ([], s0) c"
  shows "sys_inv c"
  using assms(2) by (induction rule: rtranclp_induct) (auto simp: sys_inv_def [of "([], s0)"] assms(1) intro: sys_inv_step)

text \<open>Every step of a thread uses up one of the steps it has left.\<close>

definition work :: "'t list \<times> 's \<Rightarrow> nat" where
  "work c = sum_list (map remaining (fst c))"

lemma thread_step_work: "thread_step run c c' \<Longrightarrow> work c' < work c"
proof (erule thread_stepE)
  fix i ts s t' s'
  assume h: "c = (ts, s)" "c' = (ts[i := t'], s')" "i < length ts" "run (ts ! i) s t' s'"
  have "sum_list (map remaining (ts[i := t'])) < sum_list (map remaining ts)"
    using h(3) run_less [OF h(4)]
  proof (induction ts arbitrary: i)
    case (Cons u us)
    then show ?case by (cases i) auto
  qed simp
  then show "work c' < work c" using h by (simp add: work_def)
qed

lemma thread_step_inv: "thread_step run c c' \<Longrightarrow> sys_inv c \<Longrightarrow> sys_inv c'"
  using sys_inv_thread by (auto elim!: thread_stepE)

lemma steps_bounded: "(thread_step run ^^ n) c c' \<Longrightarrow> n + work c' \<le> work c"
proof (induction n arbitrary: c')
  case (Suc n)
  then obtain d where d: "(thread_step run ^^ n) c d" "thread_step run d c'" by auto
  from Suc.IH [OF d(1)] thread_step_work [OF d(2)] show ?case by linarith
qed simp

lemma progress:
  assumes "sys_inv c" and "t \<in> set (fst c)" and "remaining t \<noteq> 0"
  shows "\<exists>c'. thread_step run c c'"
proof -
  obtain ts s where c: "c = (ts, s)" by (cases c)
  obtain i where i: "i < length ts" "ts ! i = t" using assms(2) c by (auto simp: in_set_conv_nth)
  obtain t' s' where "run t s t' s'" using run_enabled [of s t] assms c by (auto simp: sys_inv_def)
  then show ?thesis using thread_stepI [of i ts run s t' s'] i c by auto
qed

text \<open>From every state all threads finish, whatever the order in which they are scheduled.\<close>

lemma completes:
  assumes "sys_inv c"
  shows "\<exists>c'. (thread_step run)\<^sup>*\<^sup>* c c' \<and> (\<forall>t\<in>set (fst c'). remaining t = 0)"
  using assms
proof (induction "work c" arbitrary: c rule: less_induct)
  case less
  show ?case
  proof (cases "\<forall>t\<in>set (fst c). remaining t = 0")
    case False
    then obtain d where d: "thread_step run c d" using progress less.prems by blast
    from less.hyps [OF thread_step_work [OF d] thread_step_inv [OF d less.prems]] d
    show ?thesis by (meson converse_rtranclp_into_rtranclp)
  qed blast
qed

lemma stuck_finished:
  assumes "sys_inv c" and "\<nexists>c'. thread_step run c c'"
  shows "\<forall>t\<in>set (fst c). remaining t = 0"
  using progress assms by blast

end

section \<open>Counters\<close>

lemma sum_list_map_update:
  fixes f :: "'t \<Rightarrow> 'n :: ab_group_add"
  shows "i < length ts \<Longrightarrow> sum_list (map f (ts[i := t])) = sum_list (map f ts) + f t - f (ts ! i)"
proof (induction ts arbitrary: i)
  case (Cons u us)
  then show ?case by (cases i) (auto simp: algebra_simps)
qed simp

text \<open>A counter in the shared state that moves with what the threads have to their credit: it always holds the sum.\<close>

locale tallying = interleaving run env fresh remaining inv ok
  for run :: "'t \<Rightarrow> 's \<Rightarrow> 't \<Rightarrow> 's \<Rightarrow> bool" and env :: "'s \<Rightarrow> 's \<Rightarrow> bool" and fresh :: "'t \<Rightarrow> bool"
    and remaining :: "'t \<Rightarrow> nat" and inv :: "'s \<Rightarrow> bool" and ok :: "'s \<Rightarrow> 't \<Rightarrow> bool" +
  fixes tally :: "'s \<Rightarrow> 'n :: ab_group_add" and credit :: "'t \<Rightarrow> 'n"
  assumes run_tally: "inv s \<Longrightarrow> ok s t \<Longrightarrow> run t s t' s' \<Longrightarrow> tally s' = tally s + credit t' - credit t"
    and env_tally: "inv s \<Longrightarrow> env s s' \<Longrightarrow> tally s' = tally s"
    and fresh_credit: "fresh t \<Longrightarrow> credit t = 0"
begin

lemma tally_step:
  assumes "sys_step run env fresh (ts, s) (ts', s')" and "sys_inv (ts, s)" and "tally s = k + sum_list (map credit ts)"
  shows "tally s' = k + sum_list (map credit ts')"
  using assms(1)
proof (cases rule: sys_step.cases)
  case (thread i t')
  have "sum_list (map credit ts') = sum_list (map credit ts) + credit t' - credit (ts ! i)"
    using sum_list_map_update [of i ts credit t'] thread by simp
  moreover have "tally s' = tally s + credit t' - credit (ts ! i)"
    using run_tally [of s "ts ! i" t' s'] assms(2) thread by (simp add: sys_inv_def)
  ultimately show ?thesis using assms(3) by simp
next
  case outside
  then show ?thesis using env_tally [of s s'] assms by (simp add: sys_inv_def)
next
  case (spawn t)
  then show ?thesis using fresh_credit [of t] assms(3) by simp
qed

lemma tally_reach:
  assumes "inv s0" and "(sys_step run env fresh)\<^sup>*\<^sup>* ([], s0) c"
  shows "tally (snd c) = tally s0 + sum_list (map credit (fst c))"
  using assms(2)
proof (induction rule: rtranclp_induct)
  case (step c c')
  then show ?case
    using tally_step [of "fst c" "snd c" "fst c'" "snd c'"] sys_inv_reach [OF assms(1) step(1)] by simp
qed simp

end

end
