(* ===== verification/IngestThreads.thy ===== *)
theory IngestThreads
  imports Interleave IngestionProps
begin

text \<open>
  \<^verbatim>\<open>Publish\<close> and \<^verbatim>\<open>Replay\<close> of \<^verbatim>\<open>ingestion/application/service.go\<close> as threads that share one
  service. A step runs to the next point where the code takes or has released a mutex; between two steps of
  one thread others may run. The clock, the random source and the contract lookup of a step are
  its own, so that every interleaving of their uses is covered. \<^verbatim>\<open>SetRules\<close>, \<^verbatim>\<open>ActivateRuleVersion\<close> and
  \<^verbatim>\<open>PruneExpiredLineage\<close> hold the mutex while they touch the service and are one step.
\<close>

section \<open>The steps of a publication\<close>

text \<open>\<open>validate\<close> up to the copy of the rules: the final reasons, or those found so far.\<close>

definition validate_lookup :: "golib \<Rightarrow> lookup \<Rightarrow> Event \<Rightarrow> string \<Rightarrow> world \<Rightarrow> (string list + string list) \<times> world" where
  "validate_lookup L contracts e secret w =
     (if ev_TenantID e = '''' then (Inl [''tenant is required''], w)
      else if ev_ContractID e = '''' then (Inl [''contract id is required''], w)
      else let out1 = (if length (entries (ev_Payload e)) = 0 then [''payload is required''] else []);
               out2 = out1 @ (if secret \<noteq> '''' \<and> \<not> validSignature L secret e then [''invalid signature''] else []);
               (outside, w1) = outside_window e w;
               out3 = out2 @ (if outside then [''event timestamp outside allowed window''] else [])
           in case contracts (ev_TenantID e) (ev_ContractID e) of
                Inl _ \<Rightarrow> (Inl (out3 @ [''contract not found'']), w1)
              | Inr c \<Rightarrow>
                  (case version_index (ev_SchemaVersion e) (c_Versions c) of
                     None \<Rightarrow> (Inl (out3 @ [''schema version is not published'']), w1)
                   | Some i \<Rightarrow>
                       if v_Lifecycle (c_Versions c ! i) \<noteq> Published
                       then (Inl (out3 @ [''schema version is not published'']), w1)
                       else (Inr (out3 @ map issue_text (ValidatePayload L (entries (ev_Payload e))
                                   (s_Fields (v_Schema (c_Versions c ! i))))), w1)))"

text \<open>The receipt and the attempt, made outside the mutex.\<close>

definition make_records :: "Event \<Rightarrow> time \<Rightarrow> string list \<Rightarrow> world \<Rightarrow> Receipt \<times> Attempt \<times> world" where
  "make_records e start reasons w =
     (let status = (if length reasons > 0 then DeadLettered else Accepted);
          (aid, w1) = new_id w;
          (t1, w2) = now w1;
          (t2, w3) = now w2
      in (\<lparr>rp_EventID = ev_ID e, rp_Status = status, rp_Duplicate = False, rp_AttemptID = aid,
           rp_Reasons = reasons, rp_ProcessingDuration = Sub t1 start\<rparr>,
          \<lparr>at_ID = aid, at_EventID = ev_ID e, at_Number = 1, at_Status = status, at_Reasons = reasons,
           at_Duration = Sub t1 start, at_At = t2\<rparr>, w3))"

datatype publication =
    Begin Event
  | Admit Event time
  | Lookup Event time
  | Snapshot Event time "string list"
  | Execute Event time "string list" "Rule list"
  | Records Event time "string list"
  | Commit Event "string list" Receipt Attempt
  | Done "Receipt result"

fun publication_step :: "golib \<Rightarrow> lookup \<Rightarrow> publication \<Rightarrow> Service \<Rightarrow> world \<Rightarrow> publication \<times> Service \<times> world" where
  "publication_step L contracts (Begin e0) s w =
     (let (e, start, w1) = prepare_event e0 w
      in (if ev_IdempotencyKey e = '''' then Done (Inl ErrIdempotencyKey) else Admit e start, s, w1))"
| "publication_step L contracts (Admit e start) s w =
     (case publish_admit e start s of
        (Inl err, s1) \<Rightarrow> (Done (Inl err), s1, w)
      | (Inr (Some r), s1) \<Rightarrow> (Done (Inr r), s1, w)
      | (Inr None, s1) \<Rightarrow> (Lookup e start, s1, w))"
| "publication_step L contracts (Lookup e start) s w =
     (case validate_lookup L contracts e (sv_secret s) w of
        (Inl reasons, w1) \<Rightarrow> (Records e start reasons, s, w1)
      | (Inr out, w1) \<Rightarrow> (Snapshot e start out, s, w1))"
| "publication_step L contracts (Snapshot e start out) s w = (Execute e start out (rules_of s (ev_ContractID e)), s, w)"
| "publication_step L contracts (Execute e start out rules) s w =
     (case run_rules L (entries (ev_Payload e)) rules w of
        (Inl err, w1) \<Rightarrow> (Done (Inl err), s, w1)
      | (Inr out2, w1) \<Rightarrow> (Records e start (sort (out @ out2)), s, w1))"
| "publication_step L contracts (Records e start reasons) s w =
     (let (receipt, attempt, w1) = make_records e start reasons w in (Commit e reasons receipt attempt, s, w1))"
| "publication_step L contracts (Commit e reasons receipt attempt) s w =
     (let (s1, w1) = publish_commit e reasons receipt attempt s w in (Done (Inr receipt), s1, w1))"
| "publication_step L contracts (Done r) s w = (Done r, s, w)"

section \<open>The steps of a replay\<close>

datatype thread =
    Publishing publication
  | Replay_begin string string
  | Replay_publish string string publication
  | Replay_done "Receipt result"

text \<open>The first critical section of \<^verbatim>\<open>Replay\<close> and the last one.\<close>

definition replay_begin :: "string \<Rightarrow> string \<Rightarrow> Service \<Rightarrow> world \<Rightarrow> Event result \<times> Service \<times> world" where
  "replay_begin lid actor s w =
     (case map_of (sv_letters s) lid of
        None \<Rightarrow> (Inl ErrLetterNotFound, s, w)
      | Some l0 \<Rightarrow>
          let (t, w1) = now w
          in case BeginReplay actor t l0 of
               (False, _) \<Rightarrow> (Inl ErrLetterReplay, s, w1)
             | (True, l) \<Rightarrow>
                 let e0 = (case map_of (sv_events s) (l_EventID l) of None \<Rightarrow> zero_event | Some e \<Rightarrow> e);
                     (key, w2) = new_id w1
                 in (Inr (e0\<lparr>ev_IdempotencyKey := key\<rparr>), s\<lparr>sv_letters := put lid l (sv_letters s)\<rparr>, w2))"

definition replay_end :: "string \<Rightarrow> string \<Rightarrow> Receipt result \<Rightarrow> Service \<Rightarrow> world \<Rightarrow> Service \<times> world" where
  "replay_end lid actor r s w =
     (let l = (case map_of (sv_letters s) lid of None \<Rightarrow> zero_letter | Some x \<Rightarrow> x);
          ok = (case r of Inr receipt \<Rightarrow> rp_Status receipt = Accepted | Inl _ \<Rightarrow> False);
          (t, w1) = now w
      in (s\<lparr>sv_letters := put lid (FinishReplay ok actor t l) (sv_letters s)\<rparr>, w1))"

fun thread_next :: "golib \<Rightarrow> lookup \<Rightarrow> thread \<Rightarrow> Service \<Rightarrow> world \<Rightarrow> thread \<times> Service \<times> world" where
  "thread_next L contracts (Publishing p) s w =
     (let (p', s', w') = publication_step L contracts p s w in (Publishing p', s', w'))"
| "thread_next L contracts (Replay_begin lid actor) s w =
     (case replay_begin lid actor s w of
        (Inl err, s1, w1) \<Rightarrow> (Replay_done (Inl err), s1, w1)
      | (Inr e, s1, w1) \<Rightarrow> (Replay_publish lid actor (Begin e), s1, w1))"
| "thread_next L contracts (Replay_publish lid actor (Done r)) s w =
     (if is_panic r then (Replay_done r, s, w)
      else let (s1, w1) = replay_end lid actor r s w in (Replay_done r, s1, w1))"
| "thread_next L contracts (Replay_publish lid actor p) s w =
     (let (p', s', w') = publication_step L contracts p s w in (Replay_publish lid actor p', s', w'))"
| "thread_next L contracts (Replay_done r) s w = (Replay_done r, s, w)"

text \<open>How many steps are left at most, and the result of a thread that has finished.\<close>

fun steps_left :: "publication \<Rightarrow> nat" where
  "steps_left (Begin _) = 7"
| "steps_left (Admit _ _) = 6"
| "steps_left (Lookup _ _) = 5"
| "steps_left (Snapshot _ _ _) = 4"
| "steps_left (Execute _ _ _ _) = 3"
| "steps_left (Records _ _ _) = 2"
| "steps_left (Commit _ _ _ _) = 1"
| "steps_left (Done _) = 0"

fun thread_left :: "thread \<Rightarrow> nat" where
  "thread_left (Publishing p) = steps_left p"
| "thread_left (Replay_begin _ _) = 9"
| "thread_left (Replay_publish _ _ p) = Suc (steps_left p)"
| "thread_left (Replay_done _) = 0"

fun thread_result :: "thread \<Rightarrow> Receipt result option" where
  "thread_result (Publishing (Done r)) = Some r"
| "thread_result (Replay_done r) = Some r"
| "thread_result _ = None"

fun thread_receipt :: "thread \<Rightarrow> Receipt option" where
  "thread_receipt (Publishing (Done (Inr r))) = Some r"
| "thread_receipt (Replay_done (Inr r)) = Some r"
| "thread_receipt _ = None"

definition thread_run :: "golib \<Rightarrow> thread \<Rightarrow> Service \<Rightarrow> thread \<Rightarrow> Service \<Rightarrow> bool" where
  "thread_run L t s t' s' \<longleftrightarrow> thread_left t \<noteq> 0 \<and> (\<exists>contracts w w'. thread_next L contracts t s w = (t', s', w'))"

inductive outside_step :: "golib \<Rightarrow> Service \<Rightarrow> Service \<Rightarrow> bool" for L where
  set_rules: "SetRules L p cid rules s w = (res, s', w') \<Longrightarrow> outside_step L s s'"
| activate: "ActivateRuleVersion cid v s = (res, s') \<Longrightarrow> outside_step L s s'"
| prune: "PruneExpiredLineage t s = (n, s') \<Longrightarrow> outside_step L s s'"

fun thread_fresh :: "thread \<Rightarrow> bool" where
  "thread_fresh (Publishing (Begin _)) = True"
| "thread_fresh (Replay_begin _ _) = True"
| "thread_fresh _ = False"

abbreviation ingest_system :: "golib \<Rightarrow> thread list \<times> Service \<Rightarrow> thread list \<times> Service \<Rightarrow> bool" where
  "ingest_system L \<equiv> sys_step (thread_run L) (outside_step L) thread_fresh"

section \<open>One thread alone\<close>

lemma validate_split:
  "validate L contracts e s w =
     (case validate_lookup L contracts e (sv_secret s) w of
        (Inl reasons, w1) \<Rightarrow> (Inr reasons, w1)
      | (Inr out, w1) \<Rightarrow>
          (case run_rules L (entries (ev_Payload e)) (rules_of s (ev_ContractID e)) w1 of
             (Inl err, w2) \<Rightarrow> (Inl err, w2)
           | (Inr out2, w2) \<Rightarrow> (Inr (sort (out @ out2)), w2)))"
proof (cases "ev_TenantID e = '''' \<or> ev_ContractID e = ''''")
  case True
  then show ?thesis by (auto simp: validate_def validate_lookup_def)
next
  case False
  obtain out w1 where o: "outside_window e w = (out, w1)" by fastforce
  show ?thesis
  proof (cases "contracts (ev_TenantID e) (ev_ContractID e)")
    case (Inl err)
    then show ?thesis using False by (simp add: validate_def validate_lookup_def o Let_def)
  next
    case (Inr c)
    show ?thesis
    proof (cases "version_index (ev_SchemaVersion e) (c_Versions c)")
      case None
      then show ?thesis using False Inr by (simp add: validate_def validate_lookup_def o Let_def)
    next
      case (Some i)
      obtain q w2 where "run_rules L (entries (ev_Payload e)) (rules_of s (ev_ContractID e)) w1 = (q, w2)" by fastforce
      then show ?thesis using False Inr Some
        by (cases "v_Lifecycle (c_Versions c ! i) = Published"; cases q) (simp_all add: validate_def validate_lookup_def o Let_def)
    qed
  qed
qed

lemma run_alone_Done: "run_alone (thread_next L contracts) n (Publishing (Done r)) s w = (Publishing (Done r), s, w)"
  by (induction n) simp_all

lemma run_alone_replayed: "run_alone (thread_next L contracts) n (Replay_done r) s w = (Replay_done r, s, w)"
  by (induction n) simp_all

text \<open>The rest of a publication after each step, as one operation.\<close>

function rest :: "golib \<Rightarrow> lookup \<Rightarrow> publication \<Rightarrow> Service \<Rightarrow> world \<Rightarrow> Receipt result \<times> Service \<times> world" where
  "rest L contracts (Begin e) s w = Publish L contracts e s w"
| "rest L contracts (Done r) s w = (r, s, w)"
| "rest L contracts (Commit e reasons receipt attempt) s w =
     (let (s1, w1) = publish_commit e reasons receipt attempt s w in (Inr receipt, s1, w1))"
| "rest L contracts (Records e start reasons) s w =
     (let (receipt, attempt, w1) = make_records e start reasons w in rest L contracts (Commit e reasons receipt attempt) s w1)"
| "rest L contracts (Execute e start out rules) s w =
     (case run_rules L (entries (ev_Payload e)) rules w of
        (Inl err, w1) \<Rightarrow> (Inl err, s, w1)
      | (Inr out2, w1) \<Rightarrow> rest L contracts (Records e start (sort (out @ out2))) s w1)"
| "rest L contracts (Snapshot e start out) s w = rest L contracts (Execute e start out (rules_of s (ev_ContractID e))) s w"
| "rest L contracts (Lookup e start) s w =
     (case validate L contracts e s w of
        (Inl err, w1) \<Rightarrow> (Inl err, s, w1)
      | (Inr reasons, w1) \<Rightarrow> rest L contracts (Records e start reasons) s w1)"
| "rest L contracts (Admit e start) s w =
     (case publish_admit e start s of
        (Inl err, s1) \<Rightarrow> (Inl err, s1, w)
      | (Inr (Some r), s1) \<Rightarrow> (Inr r, s1, w)
      | (Inr None, s1) \<Rightarrow> rest L contracts (Lookup e start) s1 w)"
  by pat_completeness auto
termination
  by (relation "measure (\<lambda>(L, contracts, p, s, w). steps_left p)") auto

lemma Publish_rest:
  "Publish L contracts e0 s w =
     (let (e, start, w1) = prepare_event e0 w
      in if ev_IdempotencyKey e = '''' then (Inl ErrIdempotencyKey, s, w1) else rest L contracts (Admit e start) s w1)"
  by (simp add: Publish_def make_records_def Let_def split_beta split: option.splits sum.splits prod.splits)

lemma rest_step: "publication_step L contracts p s w = (p', s', w') \<Longrightarrow> rest L contracts p' s' w' = rest L contracts p s w"
proof (cases p)
  case (Begin e)
  then show "publication_step L contracts p s w = (p', s', w') \<Longrightarrow> ?thesis"
    by (auto simp: Publish_rest simp del: rest.simps(8) split: prod.splits if_splits)
next
  case (Lookup e start)
  then show "publication_step L contracts p s w = (p', s', w') \<Longrightarrow> ?thesis"
    by (auto simp: validate_split split: prod.splits sum.splits)
qed (auto split: prod.splits sum.splits option.splits)

lemma publication_step_less:
  "publication_step L contracts p s w = (p', s', w') \<Longrightarrow> steps_left p \<noteq> 0 \<Longrightarrow> steps_left p' < steps_left p"
  by (cases p) (auto split: prod.splits sum.splits option.splits if_splits)

lemma steps_left_0: "steps_left p = 0 \<longleftrightarrow> (\<exists>r. p = Done r)"
  by (cases p) simp_all

lemma publication_steps:
  "steps_left p \<le> n \<Longrightarrow> run_alone (publication_step L contracts) n p s w =
     (let (r, s', w') = rest L contracts p s w in (Done r, s', w'))"
proof (induction n arbitrary: p s w)
  case 0
  then show ?case by (auto simp: steps_left_0)
next
  case (Suc n)
  obtain p' s' w' where st: "publication_step L contracts p s w = (p', s', w')" by (metis prod_cases3)
  have "steps_left p' \<le> n" using publication_step_less [OF st] Suc.prems st by (cases "steps_left p = 0") (auto simp: steps_left_0)
  from Suc.IH [OF this, of s' w'] show ?case using st rest_step [OF st] by simp
qed

lemma publication_run: "run_alone (thread_next L contracts) n (Publishing p) s w =
    (let (p', s', w') = run_alone (publication_step L contracts) n p s w in (Publishing p', s', w'))"
  by (induction n arbitrary: p s w) (simp_all add: split_beta)

lemma publication_alone:
  "steps_left p \<le> n \<Longrightarrow> run_alone (thread_next L contracts) n (Publishing p) s w =
     (let (r, s', w') = rest L contracts p s w in (Publishing (Done r), s', w'))"
  by (simp add: publication_run publication_steps split_beta)

lemma replay_alone:
  "Suc (steps_left p) \<le> n \<Longrightarrow> run_alone (thread_next L contracts) n (Replay_publish lid actor p) s w =
     (let (r, s2, w2) = rest L contracts p s w
      in if is_panic r then (Replay_done r, s2, w2)
         else let (s3, w3) = replay_end lid actor r s2 w2 in (Replay_done r, s3, w3))"
proof (induction n arbitrary: p s w)
  case (Suc n)
  show ?case
  proof (cases "\<exists>r. p = Done r")
    case True
    then show ?thesis by (auto simp: run_alone_replayed split: prod.splits)
  next
    case False
    obtain p' s' w' where st: "publication_step L contracts p s w = (p', s', w')" by (metis prod_cases3)
    have nx: "thread_next L contracts (Replay_publish lid actor p) s w = (Replay_publish lid actor p', s', w')"
      using False st by (cases p) auto
    have "Suc (steps_left p') \<le> n" using publication_step_less [OF st] Suc.prems False by (simp add: steps_left_0)
    from Suc.IH [OF this, of s' w'] show ?thesis using nx rest_step [OF st] by simp
  qed
qed simp

lemma Replay_sections:
  "Replay L contracts lid actor s w =
     (case replay_begin lid actor s w of
        (Inl err, s1, w1) \<Rightarrow> (Inl err, s1, w1)
      | (Inr e, s1, w1) \<Rightarrow>
          (case Publish L contracts e s1 w1 of (r, s2, w2) \<Rightarrow>
             if is_panic r then (r, s2, w2) else let (s3, w3) = replay_end lid actor r s2 w2 in (r, s3, w3)))"
proof (cases "map_of (sv_letters s) lid")
  case None
  then show ?thesis by (simp add: Replay_def replay_begin_def)
next
  case (Some l0)
  obtain b l where "BeginReplay actor (clock w (ticks w)) l0 = (b, l)" by fastforce
  with Some show ?thesis
    by (cases b) (simp_all add: Replay_def replay_begin_def replay_end_def now_def new_id_def Let_def split: prod.splits)
qed

lemma Replay_alone:
  "run_alone (thread_next L contracts) 9 (Replay_begin lid actor) s w =
     (let (r, s', w') = Replay L contracts lid actor s w in (Replay_done r, s', w'))"
proof -
  obtain b s1 w1 where rb: "replay_begin lid actor s w = (b, s1, w1)" by (metis prod_cases3)
  have nine: "(9::nat) = Suc 8" by simp
  show ?thesis
    unfolding nine run_alone.simps Replay_sections
    using replay_alone [of "Begin (projr b)" 8 L contracts lid actor s1 w1] rb
    by (cases b) (simp_all add: run_alone_replayed Let_def split: prod.splits)
qed

section \<open>What a thread has established\<close>

fun publication_ok :: "golib \<Rightarrow> publication \<Rightarrow> bool" where
  "publication_ok L (Execute e start out rules) = rules_valid L rules"
| "publication_ok L (Commit e reasons r a) = (rp_EventID r = ev_ID e \<and> rp_Reasons r = reasons \<and> \<not> rp_Duplicate r \<and>
     rp_Status r = (if reasons = [] then Accepted else DeadLettered) \<and> at_ID a = rp_AttemptID r \<and> at_EventID a = ev_ID e \<and>
     at_Status a = rp_Status r \<and> at_Reasons a = reasons)"
| "publication_ok L (Done r) = (\<not> is_panic r)"
| "publication_ok L _ = True"

fun thread_ok :: "golib \<Rightarrow> Service \<Rightarrow> thread \<Rightarrow> bool" where
  "thread_ok L s (Publishing p) = publication_ok L p"
| "thread_ok L s (Replay_begin lid actor) = True"
| "thread_ok L s (Replay_publish lid actor p) = (publication_ok L p \<and> map_of (sv_letters s) lid \<noteq> None)"
| "thread_ok L s (Replay_done r) = (\<not> is_panic r)"

lemma publication_step_inv:
  assumes "sv_inv L s" and "publication_ok L p" and "publication_step L contracts p s w = (p', s', w')"
  shows "sv_inv L s' \<and> publication_ok L p'"
proof (cases p)
  case (Begin e)
  then show ?thesis using assms by (auto simp: is_panic_def split: prod.splits)
next
  case (Admit e start)
  obtain q s1 where con: "consumeQuota (ev_TenantID e) start s = (q, s1)" by fastforce
  note keep = consumeQuota_inv [OF assms(1) con] and err = consumeQuota_frame(2) [OF con]
  show ?thesis using assms(1,3) Admit con keep err
    by (cases q) (auto simp: publish_admit_def is_panic_def split: option.splits)
next
  case (Lookup e start)
  then show ?thesis using assms by (auto split: prod.splits sum.splits)
next
  case (Snapshot e start out)
  then show ?thesis using assms sv_inv_rules [OF assms(1)] by auto
next
  case (Execute e start out rules)
  then show ?thesis using assms run_rules_valid [of L rules "entries (ev_Payload e)" w] by auto
next
  case (Records e start reasons)
  then show ?thesis using assms by (auto simp: make_records_def now_def new_id_def Let_def)
next
  case (Commit e reasons r a)
  then have "s' = fst (publish_commit e reasons r a s w)" "p' = Done (Inr r)" using assms(3) by (auto split: prod.splits)
  then show ?thesis using publish_commit_inv [OF assms(1), of r e reasons a w] assms(2) Commit by (simp add: is_panic_def)
next
  case (Done r)
  then show ?thesis using assms by auto
qed

lemma publication_step_letters:
  assumes "publication_step L contracts p s w = (p', s', w')" and "map_of (sv_letters s) k \<noteq> None"
  shows "map_of (sv_letters s') k \<noteq> None"
proof (cases p)
  case (Admit e start)
  obtain q s1 where con: "consumeQuota (ev_TenantID e) start s = (q, s1)" by fastforce
  with Admit consumeQuota_keeps(3) [OF con] assms show ?thesis
    by (cases q) (auto simp: publish_admit_def split: option.splits)
next
  case (Commit e reasons r a)
  then have "s' = fst (publish_commit e reasons r a s w)" using assms(1) by (auto split: prod.splits)
  then show ?thesis using assms(2) by (simp add: publish_commit_maps)
qed (use assms in \<open>auto split: prod.splits sum.splits\<close>)

lemma replay_begin_inv:
  assumes "sv_inv L s" and "replay_begin lid actor s w = (r, s', w')"
  shows "sv_inv L s' \<and> \<not> is_panic r \<and> (\<forall>e. r = Inr e \<longrightarrow> map_of (sv_letters s') lid \<noteq> None) \<and>
    (\<forall>k. map_of (sv_letters s) k \<noteq> None \<longrightarrow> map_of (sv_letters s') k \<noteq> None)"
proof (cases "map_of (sv_letters s) lid")
  case None
  then show ?thesis using assms by (auto simp: replay_begin_def is_panic_def)
next
  case (Some l)
  note l = sv_inv_letter [OF assms(1) Some]
  obtain b l1 where beg: "BeginReplay actor (clock w (ticks w)) l = (b, l1)" by fastforce
  show ?thesis
  proof (cases b)
    case False
    then show ?thesis using assms Some beg by (auto simp: replay_begin_def now_def is_panic_def)
  next
    case True
    then have "sv_inv L (s\<lparr>sv_letters := put lid l1 (sv_letters s)\<rparr>)"
      using put_letter_inv [OF assms(1)] BeginReplay_ok [OF l(1)] l(2) beg by simp
    then show ?thesis using assms(2) Some beg True
      by (auto simp: replay_begin_def now_def new_id_def Let_def is_panic_def)
  qed
qed

lemma replay_end_inv:
  assumes "sv_inv L s" and "map_of (sv_letters s) lid \<noteq> None" and "replay_end lid actor r s w = (s', w')"
  shows "sv_inv L s' \<and> (\<forall>k. map_of (sv_letters s) k \<noteq> None \<longrightarrow> map_of (sv_letters s') k \<noteq> None)"
proof -
  obtain l where l: "map_of (sv_letters s) lid = Some l" using assms(2) by auto
  note ok = sv_inv_letter [OF assms(1) l]
  obtain b t where "s' = s\<lparr>sv_letters := put lid (FinishReplay b actor t l) (sv_letters s)\<rparr>"
    using assms(3) l by (auto simp: replay_end_def now_def)
  then show ?thesis using put_letter_inv [OF assms(1)] FinishReplay_ok [OF ok(1)] ok(2) by simp
qed

lemma thread_next_inner:
  "steps_left p \<noteq> 0 \<Longrightarrow> thread_next L contracts (Replay_publish lid actor p) s w =
     (let (p', s', w') = publication_step L contracts p s w in (Replay_publish lid actor p', s', w'))"
  by (cases p) simp_all

lemma thread_next_inv:
  assumes "sv_inv L s" and "thread_ok L s t" and "thread_next L contracts t s w = (t', s', w')"
  shows "sv_inv L s' \<and> thread_ok L s' t' \<and> (\<forall>k. map_of (sv_letters s) k \<noteq> None \<longrightarrow> map_of (sv_letters s') k \<noteq> None)"
proof (cases t)
  case (Publishing p)
  obtain p' where "publication_step L contracts p s w = (p', s', w')" "t' = Publishing p'"
    using assms(3) Publishing by (auto split: prod.splits)
  then show ?thesis using publication_step_inv [OF assms(1)] publication_step_letters assms(2) Publishing by fastforce
next
  case (Replay_begin lid actor)
  obtain r s1 w1 where b: "replay_begin lid actor s w = (r, s1, w1)" by (metis prod_cases3)
  show ?thesis using replay_begin_inv [OF assms(1) b] assms(3) Replay_begin b by (cases r) (auto simp: is_panic_Inl)
next
  case (Replay_publish lid actor p)
  show ?thesis
  proof (cases "steps_left p = 0")
    case True
    then obtain r where p: "p = Done r" by (auto simp: steps_left_0)
    obtain s1 w1 where e: "replay_end lid actor r s w = (s1, w1)" by fastforce
    have "map_of (sv_letters s) lid \<noteq> None" "\<not> is_panic r" using assms(2) Replay_publish p by auto
    then show ?thesis using replay_end_inv [OF assms(1) _ e] assms(3) Replay_publish p e by auto
  next
    case False
    obtain p' where "publication_step L contracts p s w = (p', s', w')" "t' = Replay_publish lid actor p'"
      using assms(3) Replay_publish thread_next_inner [OF False] by (auto split: prod.splits)
    then show ?thesis using publication_step_inv [OF assms(1)] publication_step_letters assms(2) Replay_publish by fastforce
  qed
next
  case (Replay_done r)
  then show ?thesis using assms by auto
qed

lemma thread_next_less:
  assumes "thread_next L contracts t s w = (t', s', w')" and "thread_left t \<noteq> 0"
  shows "thread_left t' < thread_left t"
proof (cases t)
  case (Replay_publish lid actor p)
  show ?thesis
  proof (cases "steps_left p = 0")
    case True
    then obtain r where "p = Done r" by (auto simp: steps_left_0)
    then show ?thesis using assms(1) Replay_publish by (auto split: prod.splits if_splits)
  next
    case False
    obtain p' where "publication_step L contracts p s w = (p', s', w')" "t' = Replay_publish lid actor p'"
      using assms(1) Replay_publish thread_next_inner [OF False] by (auto split: prod.splits)
    then show ?thesis using publication_step_less False Replay_publish by simp
  qed
qed (use assms in \<open>auto dest: publication_step_less split: prod.splits sum.splits\<close>)

lemma outside_step_inv:
  assumes "sv_inv L s" and "outside_step L s s'"
  shows "sv_inv L s' \<and> sv_letters s' = sv_letters s \<and> sv_seen s' = sv_seen s"
  using assms(2)
proof cases
  case (set_rules p cid rules w res w')
  then show ?thesis using SetRules_inv [OF assms(1)]
    by (auto simp: SetRules_def now_def Let_def split: sum.splits prod.splits)
next
  case (activate cid v res)
  then show ?thesis using Activate_inv [OF assms(1)]
    by (auto simp: ActivateRuleVersion_def split: sum.splits prod.splits)
next
  case (prune t n)
  then show ?thesis using Prune_inv [OF assms(1), of t] by (auto simp: PruneExpiredLineage_def Let_def)
qed

lemma thread_ok_mono:
  assumes "\<forall>k. map_of (sv_letters s) k \<noteq> None \<longrightarrow> map_of (sv_letters s') k \<noteq> None" and "thread_ok L s u"
  shows "thread_ok L s' u"
  using assms by (cases u) auto

lemma thread_run_inv:
  "sv_inv L s \<Longrightarrow> thread_ok L s t \<Longrightarrow> thread_run L t s t' s' \<Longrightarrow> sv_inv L s' \<and> thread_ok L s' t' \<and>
     (\<forall>k. map_of (sv_letters s) k \<noteq> None \<longrightarrow> map_of (sv_letters s') k \<noteq> None)"
  unfolding thread_run_def by (elim conjE exE) (rule thread_next_inv)

interpretation ing: interleaving "thread_run L" "outside_step L" thread_fresh thread_left "sv_inv L" "thread_ok L" for L
proof unfold_locales
  fix s s' t t' u
  show "sv_inv L s \<Longrightarrow> thread_ok L s t \<Longrightarrow> thread_run L t s t' s' \<Longrightarrow> sv_inv L s' \<and> thread_ok L s' t'"
    using thread_run_inv by blast
  show "sv_inv L s \<Longrightarrow> thread_ok L s t \<Longrightarrow> thread_run L t s t' s' \<Longrightarrow> thread_ok L s u \<Longrightarrow> thread_ok L s' u"
    by (rule thread_ok_mono [OF thread_run_inv [THEN conjunct2, THEN conjunct2]])
  show "sv_inv L s \<Longrightarrow> outside_step L s s' \<Longrightarrow> sv_inv L s'" using outside_step_inv by blast
  show "sv_inv L s \<Longrightarrow> outside_step L s s' \<Longrightarrow> thread_ok L s u \<Longrightarrow> thread_ok L s' u"
    using outside_step_inv thread_ok_mono by metis
  show "thread_fresh t \<Longrightarrow> thread_ok L s t" by (cases t rule: thread_fresh.cases) auto
  show "thread_run L t s t' s' \<Longrightarrow> thread_left t' < thread_left t" using thread_next_less by (auto simp: thread_run_def)
  show "thread_left t \<noteq> 0 \<Longrightarrow> \<exists>t' s'. thread_run L t s t' s'" unfolding thread_run_def by (metis prod_cases3)
qed

section \<open>Keys that are known stay known\<close>

lemma publication_step_seen:
  assumes "publication_step L contracts p s w = (p', s', w')" and "map_of (sv_seen s) k \<noteq> None"
  shows "map_of (sv_seen s') k \<noteq> None"
proof (cases p)
  case (Admit e start)
  obtain q s1 where con: "consumeQuota (ev_TenantID e) start s = (q, s1)" by fastforce
  with Admit consumeQuota_keeps(1) [OF con] assms show ?thesis
    by (cases q) (auto simp: publish_admit_def split: option.splits)
next
  case (Commit e reasons r a)
  then have "s' = fst (publish_commit e reasons r a s w)" using assms(1) by (auto split: prod.splits)
  then show ?thesis using assms(2) by (simp add: publish_commit_maps)
qed (use assms in \<open>auto split: prod.splits sum.splits\<close>)

lemma thread_next_seen:
  assumes "thread_next L contracts t s w = (t', s', w')" and "map_of (sv_seen s) k \<noteq> None"
  shows "map_of (sv_seen s') k \<noteq> None"
proof (cases t)
  case (Replay_publish lid actor p)
  show ?thesis
  proof (cases "steps_left p = 0")
    case True
    then obtain r where "p = Done r" by (auto simp: steps_left_0)
    then show ?thesis using assms Replay_publish by (auto simp: replay_end_def now_def Let_def split: if_splits)
  next
    case False
    then show ?thesis using assms Replay_publish thread_next_inner [OF False] publication_step_seen
      by (auto split: prod.splits)
  qed
next
  case (Replay_begin lid actor)
  then show ?thesis using assms
    by (auto simp: replay_begin_def now_def new_id_def Let_def split: option.splits prod.splits bool.splits)
qed (use assms publication_step_seen in \<open>auto split: prod.splits\<close>)

lemma ingest_system_seen:
  assumes "(ingest_system L)\<^sup>*\<^sup>* c c'" and "ing.sys_inv L c" and "map_of (sv_seen (snd c)) k \<noteq> None"
  shows "ing.sys_inv L c' \<and> map_of (sv_seen (snd c')) k \<noteq> None"
  using assms(1)
proof (induction rule: rtranclp_induct)
  case (step d d')
  have "map_of (sv_seen (snd d')) k \<noteq> None" using step(2)
  proof cases
    case (thread i ts s t' s')
    then show ?thesis using step.IH thread_next_seen by (auto simp: thread_run_def)
  next
    case (outside s s' ts)
    then show ?thesis using step.IH outside_step_inv [of L s s'] by (auto simp: ing.sys_inv_def)
  qed (use step.IH in auto)
  then show ?case using step ing.sys_inv_step by blast
qed (use assms in auto)

section \<open>Sample runs\<close>

text \<open>Two clients send the same request at once: both are admitted before either is stored.\<close>

definition demo_race :: "thread list \<times> Service \<times> world" where
  "demo_race = run_schedule (thread_next demo_lib demo_lookup) thread_left [0, 0, 1, 1, 0, 0, 0, 0, 0, 1, 1, 1, 1, 1]
     [Publishing (Begin demo_event), Publishing (Begin demo_event)] (NewService '''' 5) demo_world"

text \<open>An event is dead-lettered, and two operators replay its letter at once: the second begins while the first is under way.\<close>

definition demo_double :: "thread list \<times> Service \<times> world" where
  "demo_double = run_schedule (thread_next demo_lib demo_lookup) thread_left
     [0, 0, 0, 0, 0, 0, 0, 1, 2, 1, 1, 1, 1, 1, 1, 1, 1, 2, 2, 2, 2, 2, 2, 2, 2]
     [Publishing (Begin demo_bad_event), Replay_begin ''id1'' ''ann'', Replay_begin ''id1'' ''bob''] (NewService '''' 5) demo_world"

lemma demo_race_reach: "(ingest_system demo_lib)\<^sup>*\<^sup>* ([], NewService '''' 5) (fst demo_race, fst (snd demo_race))"
  unfolding demo_race_def by (rule schedule_reach [OF _ _ split3]) (auto simp: thread_run_def)

lemma demo_double_reach: "(ingest_system demo_lib)\<^sup>*\<^sup>* ([], NewService '''' 5) (fst demo_double, fst (snd demo_double))"
  unfolding demo_double_def by (rule schedule_reach [OF _ _ split3]) (auto simp: thread_run_def)

section \<open>Properties\<close>

text \<open>The sections are those of the operations: a publication whose steps run without another thread in between gives
  the result, the state and the readings of \<^verbatim>\<open>Publish\<close>, and a replay those of \<^verbatim>\<open>Replay\<close>, in at most seven and
  nine steps.\<close>

theorem sequential_refinement:
  "run_alone (thread_next L contracts) 7 (Publishing (Begin e)) s w =
     (let (r, s', w') = Publish L contracts e s w in (Publishing (Done r), s', w')) \<and>
   run_alone (thread_next L contracts) 9 (Replay_begin lid actor) s w =
     (let (r, s', w') = Replay L contracts lid actor s w in (Replay_done r, s', w'))"
  using publication_alone [of "Begin e" 7 L contracts s w] Replay_alone [of L contracts lid actor s w] by simp

text \<open>C9: whatever the interleaving of publications, replays and changes of the policy, the service keeps its invariant
  (every receipt has its event and attempt, every letter its event and at most three begun replays, no tenant exceeds its quota in a
  window, the live rules are those of the active version), and no thread panics.\<close>

theorem interleaved_invariant:
  assumes "(ingest_system L)\<^sup>*\<^sup>* ([], NewService secret maxQuota) (ts, s)"
  shows "sv_inv L s \<and> (\<forall>t\<in>set ts. \<forall>r. thread_result t = Some r \<longrightarrow> \<not> is_panic r)"
proof -
  have inv: "ing.sys_inv L (ts, s)" by (rule ing.sys_inv_reach [OF sv_inv_NewService assms])
  have "\<not> is_panic r" if "t \<in> set ts" "thread_result t = Some r" for t r
  proof -
    have "thread_ok L s t" using inv that(1) by (simp add: ing.sys_inv_def)
    then show ?thesis using that(2) by (cases t rule: thread_result.cases) auto
  qed
  then show ?thesis using inv by (simp add: ing.sys_inv_def)
qed

theorem interleaved_invariant_witness: "sv_inv demo_lib (fst (snd demo_race))"
  using interleaved_invariant [OF demo_race_reach] by blast

text \<open>The threads that exist take at most nine steps each, in whatever order they are scheduled: a run without new
  threads ends.\<close>

theorem threads_terminate:
  assumes "(ingest_system L)\<^sup>*\<^sup>* ([], NewService secret maxQuota) (ts, s)" and "(thread_step (thread_run L) ^^ n) (ts, s) c"
  shows "n \<le> 9 * length ts"
proof -
  have seven: "steps_left p \<le> 7" for p by (cases p) simp_all
  have "thread_left t \<le> 9" for t
  proof (cases t)
    case (Publishing p)
    then show ?thesis using seven [of p] by simp
  next
    case (Replay_publish lid actor p)
    then show ?thesis using seven [of p] by simp
  qed simp_all
  then have "sum_list (map thread_left ts) \<le> 9 * length ts" by (induction ts) (auto intro: add_mono)
  then show ?thesis using ing.steps_bounded [OF assms(2)] by (simp add: ing.work_def)
qed

theorem threads_terminate_witness:
  "\<exists>c. (thread_step (thread_run demo_lib) ^^ 1) ([Publishing (Begin demo_event)], NewService '''' 5) c \<and>
     1 \<le> 9 * length [Publishing (Begin demo_event)]"
proof -
  let ?t = "Publishing (Begin demo_event)" and ?s = "NewService '''' 5"
  obtain t' s' w' where "thread_next demo_lib demo_lookup ?t ?s demo_world = (t', s', w')" by (metis prod_cases3)
  then have "thread_run demo_lib ?t ?s t' s'" unfolding thread_run_def by (metis steps_left.simps(1) thread_left.simps(1) zero_neq_numeral)
  then have one: "(thread_step (thread_run demo_lib) ^^ 1) ([?t], ?s) ([t'], s')"
    using thread_stepI [of 0 "[?t]" "thread_run demo_lib" ?s t' s'] by (simp add: eq_OO)
  have "(ingest_system demo_lib)\<^sup>*\<^sup>* ([], ?s) ([?t], ?s)" using spawn_all [of thread_fresh "[?t]" _ _ "[]" ?s] by simp
  from threads_terminate [OF this one] one show ?thesis by blast
qed

text \<open>Every request is answered: a system in which no thread can move has finished them all with a result, there is no
  deadlock, and from every state all threads can finish.\<close>

theorem threads_finish:
  assumes "(ingest_system L)\<^sup>*\<^sup>* ([], NewService secret maxQuota) (ts, s)"
  shows "(\<forall>c. (thread_step (thread_run L))\<^sup>*\<^sup>* (ts, s) c \<and> (\<nexists>c'. thread_step (thread_run L) c c') \<longrightarrow>
       (\<forall>t\<in>set (fst c). \<exists>r. thread_result t = Some r)) \<and>
    (\<exists>c. (thread_step (thread_run L))\<^sup>*\<^sup>* (ts, s) c \<and> (\<forall>t\<in>set (fst c). \<exists>r. thread_result t = Some r))"
proof -
  have inv: "ing.sys_inv L (ts, s)" by (rule ing.sys_inv_reach [OF sv_inv_NewService assms])
  have fin: "\<exists>r. thread_result t = Some r" if "thread_left t = 0" for t
    using that by (cases t) (auto simp: steps_left_0)
  have "ing.sys_inv L c" if "(thread_step (thread_run L))\<^sup>*\<^sup>* (ts, s) c" for c
    using that by (induction rule: rtranclp_induct) (auto intro: inv ing.thread_step_inv)
  then show ?thesis using ing.stuck_finished ing.completes [OF inv] fin by blast
qed

theorem threads_finish_witness:
  "\<exists>c. (thread_step (thread_run demo_lib))\<^sup>*\<^sup>* (fst demo_race, fst (snd demo_race)) c \<and> list_all (\<lambda>t. thread_result t \<noteq> None) (fst c)"
proof -
  obtain c where "(thread_step (thread_run demo_lib))\<^sup>*\<^sup>* (fst demo_race, fst (snd demo_race)) c"
    "\<forall>t\<in>set (fst c). \<exists>r. thread_result t = Some r" using threads_finish [OF demo_race_reach] by blast
  then show ?thesis by (intro exI [of _ c]) (simp add: list_all_iff)
qed

text \<open>Once a receipt is stored under the key of a request, the key stays known whatever the other threads do, and
  every later admission of the key is answered as a duplicate and changes nothing.\<close>

theorem known_key_is_duplicate:
  assumes "(ingest_system L)\<^sup>*\<^sup>* ([], NewService secret maxQuota) (ts, s)" and "map_of (sv_seen s) (seen_key e) \<noteq> None"
    and "(ingest_system L)\<^sup>*\<^sup>* (ts, s) (ts', s')"
  shows "\<exists>r. map_of (sv_seen s') (seen_key e) = Some r \<and>
    publication_step L contracts (Admit e start) s' w = (Done (Inr (r\<lparr>rp_Duplicate := True\<rparr>)), s', w)"
proof -
  obtain r where "map_of (sv_seen s') (seen_key e) = Some r"
    using ingest_system_seen [OF assms(3) ing.sys_inv_reach [OF sv_inv_NewService assms(1)]] assms(2) by auto
  then show ?thesis by (simp add: publish_admit_def)
qed

theorem known_key_is_duplicate_witness:
  "\<exists>r. publication_step demo_lib demo_lookup (Admit demo_event 0) (fst (snd demo_race)) demo_world =
     (Done (Inr (r\<lparr>rp_Duplicate := True\<rparr>)), fst (snd demo_race), demo_world)"
proof -
  have "map_of (sv_seen (fst (snd demo_race))) (seen_key demo_event) \<noteq> None" by code_simp
  from known_key_is_duplicate [OF demo_race_reach this rtranclp.rtrancl_refl] show ?thesis by blast
qed


text \<open>A letter that is being replayed can be replayed: there is an interleaving in which two replays of one letter
  both begin and both publish its event; the letter has used two of its three attempts and the event has three attempts.\<close>

theorem double_replay:
  "\<exists>ts s r l. (ingest_system demo_lib)\<^sup>*\<^sup>* ([], NewService '''' 5) (ts, s) \<and>
     list_all (\<lambda>t. thread_receipt t \<noteq> None) ts \<and> thread_receipt (hd ts) = Some r \<and>
     map_of (sv_letters s) ''id1'' = Some l \<and> l_EventID l = rp_EventID r \<and> l_Attempts l = 2 \<and>
     map au_Actor (filter (\<lambda>a. au_Action a = ''replay_started'') (take 3 (l_Audit l))) = [''ann'', ''bob''] \<and>
     length (attempts_of s (rp_EventID r)) = 3"
proof -
  have "list_all (\<lambda>t. thread_receipt t \<noteq> None) (fst demo_double)" by code_simp
  moreover have "map_option rp_EventID (thread_receipt (hd (fst demo_double))) = Some ''e1''" by code_simp
  then obtain r where "thread_receipt (hd (fst demo_double)) = Some r" "rp_EventID r = ''e1''" by auto
  moreover have "map_option (\<lambda>l. (l_EventID l, l_Attempts l, map au_Actor (filter (\<lambda>a. au_Action a = ''replay_started'') (take 3 (l_Audit l)))))
      (map_of (sv_letters (fst (snd demo_double))) ''id1'') = Some (''e1'', 2, [''ann'', ''bob''])" by code_simp
  then obtain l where "map_of (sv_letters (fst (snd demo_double))) ''id1'' = Some l" "l_EventID l = ''e1''" "l_Attempts l = 2"
    "map au_Actor (filter (\<lambda>a. au_Action a = ''replay_started'') (take 3 (l_Audit l))) = [''ann'', ''bob'']" by auto
  moreover have "length (attempts_of (fst (snd demo_double)) ''e1'') = 3" by code_simp
  ultimately show ?thesis using demo_double_reach
    by (intro exI [of _ "fst demo_double"] exI [of _ "fst (snd demo_double)"] exI [of _ r] exI [of _ l]) simp
qed

end
