(* ===== verification/RegistryThreads.thy ===== *)
theory RegistryThreads
  imports Interleave ContractService
begin

text \<open>
  \<^verbatim>\<open>AddVersion\<close> and \<^verbatim>\<open>Publish\<close> of \<^verbatim>\<open>contract/application/service.go\<close> as threads over the
  in-memory store: each finds a copy of the contract, changes it and saves it, and the store's mutex is held only inside
  \<^verbatim>\<open>Find\<close> and \<^verbatim>\<open>Save\<close>. \<^verbatim>\<open>Register\<close> touches the store once and is one step.
\<close>

section \<open>Threads\<close>

datatype change = Add_schema Schema | Publish_number int string

fun apply_change :: "golib \<Rightarrow> orders \<Rightarrow> change \<Rightarrow> Contract \<Rightarrow> time \<Rightarrow> (Version \<times> Contract) result" where
  "apply_change L \<pi> (Add_schema schema) c t = Contract_AddVersion L \<pi> c schema t"
| "apply_change L \<pi> (Publish_number n tag) c t = Contract_Publish c n tag t"

datatype writer =
    Finding string string change
  | Saving Version Contract
  | Written "Version result"

fun writer_next :: "golib \<Rightarrow> orders \<Rightarrow> writer \<Rightarrow> MemoryContracts \<Rightarrow> world \<Rightarrow> writer \<times> MemoryContracts \<times> world" where
  "writer_next L \<pi> (Finding tenant cid ch) s w =
     (case Find s tenant cid of
        Inl e \<Rightarrow> (Written (Inl e), s, w)
      | Inr c \<Rightarrow>
          let (t, w1) = now w
          in case apply_change L \<pi> ch c t of
               Inl e \<Rightarrow> (Written (Inl e), s, w1)
             | Inr (v, c') \<Rightarrow> (Saving v c', s, w1))"
| "writer_next L \<pi> (Saving v c) s w =
     (case Save c s of
        (Inl e, s') \<Rightarrow> (Written (Inl e), s', w)
      | (Inr _, s') \<Rightarrow> (Written (Inr v), s', w))"
| "writer_next L \<pi> (Written r) s w = (Written r, s, w)"

fun writer_left :: "writer \<Rightarrow> nat" where
  "writer_left (Finding _ _ _) = 2"
| "writer_left (Saving _ _) = 1"
| "writer_left (Written _) = 0"

definition writer_run :: "golib \<Rightarrow> writer \<Rightarrow> MemoryContracts \<Rightarrow> writer \<Rightarrow> MemoryContracts \<Rightarrow> bool" where
  "writer_run L t s t' s' \<longleftrightarrow> writer_left t \<noteq> 0 \<and> (\<exists>\<pi> w w'. writer_next L \<pi> t s w = (t', s', w'))"

definition registering :: "MemoryContracts \<Rightarrow> MemoryContracts \<Rightarrow> bool" where
  "registering s s' \<longleftrightarrow> (\<exists>tenant cmd w res w'. Register memory_repository tenant cmd s w = (res, s', w'))"

fun writer_fresh :: "writer \<Rightarrow> bool" where
  "writer_fresh (Finding _ _ _) = True"
| "writer_fresh _ = False"

abbreviation registry_system :: "golib \<Rightarrow> writer list \<times> MemoryContracts \<Rightarrow> writer list \<times> MemoryContracts \<Rightarrow> bool" where
  "registry_system L \<equiv> sys_step (writer_run L) registering writer_fresh"

section \<open>The invariant\<close>

definition registry_inv :: "golib \<Rightarrow> MemoryContracts \<Rightarrow> bool" where
  "registry_inv L s \<longleftrightarrow> wf_store s \<and> (\<forall>k c. map_of (mc_values s) k = Some c \<longrightarrow> contract_reach L c)"

fun writer_ok :: "golib \<Rightarrow> MemoryContracts \<Rightarrow> writer \<Rightarrow> bool" where
  "writer_ok L s (Saving v c) = (contract_reach L c \<and> map_of (mc_values s) (store_key (c_OrganizationID c) (c_ID c)) \<noteq> None)"
| "writer_ok L s _ = True"

lemma apply_change_step: "apply_change L \<pi> ch c t = Inr (v, c') \<Longrightarrow> contract_step L c c'"
  by (cases ch) (auto intro: contract_step.intros)

lemma registry_inv_store: "registry_inv L s \<Longrightarrow> wf_store s"
  by (simp add: registry_inv_def)

text \<open>The contract that a thread is about to save is one the operations build, at an address in use.\<close>

lemma writer_found:
  assumes "registry_inv L s" and "Find s tenant cid = Inr c" and "apply_change L \<pi> ch c t = Inr (v, c')"
  shows "writer_ok L s (Saving v c')"
proof -
  note st = apply_change_step [OF assms(3)]
  have look: "map_of (mc_values s) (store_key tenant cid) = Some c"
    using mem.find_Inr [OF registry_inv_store [OF assms(1)]] assms(2) by simp
  then have "store_key (c_OrganizationID c') (c_ID c') = store_key tenant cid"
    using mem.stored [OF registry_inv_store [OF assms(1)] look] step_frame [OF st] by simp
  moreover have "contract_reach L c'" using assms(1) look st by (auto simp: registry_inv_def intro: contract_reach.step)
  ultimately show ?thesis using look by simp
qed

lemma save_inv:
  assumes "registry_inv L s" and "writer_ok L s (Saving v c)"
  shows "\<exists>s'. Save c s = (Inr (), s') \<and> registry_inv L s' \<and> map_of (mc_values s') = (map_of (mc_values s))(store_key (c_OrganizationID c) (c_ID c) \<mapsto> c)"
proof -
  have "map_of (mc_values s) (store_key (c_OrganizationID c) (c_ID c)) \<noteq> None" using assms(2) by simp
  from mem.save_old [OF registry_inv_store [OF assms(1)] this] show ?thesis
    using assms by (intro exI [of _ "snd (Save c s)"]) (auto simp: memory_repository_def registry_inv_def prod_eq_iff split: if_splits)
qed

lemma writer_next_inv:
  assumes "registry_inv L s" and "writer_ok L s t" and "writer_next L \<pi> t s w = (t', s', w')"
  shows "registry_inv L s' \<and> writer_ok L s' t' \<and> (\<forall>k. map_of (mc_values s) k \<noteq> None \<longrightarrow> map_of (mc_values s') k \<noteq> None)"
proof (cases t)
  case (Finding tenant cid ch)
  then show ?thesis using assms(1,3) writer_found [OF assms(1)]
    by (auto simp: now_def split: sum.splits simp del: writer_ok.simps(1))
next
  case (Saving v c)
  then obtain s1 where "Save c s = (Inr (), s1)" "registry_inv L s1"
    "map_of (mc_values s1) = (map_of (mc_values s))(store_key (c_OrganizationID c) (c_ID c) \<mapsto> c)"
    using save_inv [OF assms(1)] assms(2) by blast
  then show ?thesis using assms(3) Saving by auto
next
  case (Written r)
  then show ?thesis using assms by auto
qed

lemma registering_inv:
  assumes "registry_inv L s" and "registering s s'"
  shows "registry_inv L s' \<and> (\<forall>k. map_of (mc_values s) k \<noteq> None \<longrightarrow> map_of (mc_values s') k \<noteq> None)"
proof -
  obtain tenant cmd w res w' where r: "Register memory_repository tenant cmd s w = (res, s', w')"
    using assms(2) by (auto simp: registering_def)
  have "registry_inv L s'" using mem.Register_reach [OF _ r, of L] assms(1) by (auto simp: registry_inv_def)
  moreover have "map_of (mc_values s) k \<noteq> None \<longrightarrow> map_of (mc_values s') k \<noteq> None" for k
    using mem.Register_cases [OF registry_inv_store [OF assms(1)] r] by auto
  ultimately show ?thesis by blast
qed

lemma writer_ok_mono:
  assumes "\<forall>k. map_of (mc_values s) k \<noteq> None \<longrightarrow> map_of (mc_values s') k \<noteq> None" and "writer_ok L s u"
  shows "writer_ok L s' u"
  using assms by (cases u) auto

lemma writer_run_inv:
  "registry_inv L s \<Longrightarrow> writer_ok L s t \<Longrightarrow> writer_run L t s t' s' \<Longrightarrow> registry_inv L s' \<and> writer_ok L s' t' \<and>
     (\<forall>k. map_of (mc_values s) k \<noteq> None \<longrightarrow> map_of (mc_values s') k \<noteq> None)"
  unfolding writer_run_def by (elim conjE exE) (rule writer_next_inv)

lemma writer_next_less: "writer_next L \<pi> t s w = (t', s', w') \<Longrightarrow> writer_left t \<noteq> 0 \<Longrightarrow> writer_left t' < writer_left t"
  by (cases t) (auto simp: now_def split: sum.splits prod.splits)

interpretation reg: interleaving "writer_run L" registering writer_fresh writer_left "registry_inv L" "writer_ok L" for L
proof unfold_locales
  fix s s' t t' u
  show "registry_inv L s \<Longrightarrow> writer_ok L s t \<Longrightarrow> writer_run L t s t' s' \<Longrightarrow> registry_inv L s' \<and> writer_ok L s' t'"
    using writer_run_inv by blast
  show "registry_inv L s \<Longrightarrow> writer_ok L s t \<Longrightarrow> writer_run L t s t' s' \<Longrightarrow> writer_ok L s u \<Longrightarrow> writer_ok L s' u"
    by (rule writer_ok_mono [OF writer_run_inv [THEN conjunct2, THEN conjunct2]])
  show "registry_inv L s \<Longrightarrow> registering s s' \<Longrightarrow> registry_inv L s'" using registering_inv by blast
  show "registry_inv L s \<Longrightarrow> registering s s' \<Longrightarrow> writer_ok L s u \<Longrightarrow> writer_ok L s' u"
    by (rule writer_ok_mono [OF registering_inv [THEN conjunct2]])
  show "writer_fresh t \<Longrightarrow> writer_ok L s t" by (cases t) auto
  show "writer_run L t s t' s' \<Longrightarrow> writer_left t' < writer_left t" using writer_next_less by (auto simp: writer_run_def)
  show "writer_left t \<noteq> 0 \<Longrightarrow> \<exists>t' s'. writer_run L t s t' s'" unfolding writer_run_def by (metis prod_cases3)
qed

section \<open>One writer alone\<close>

lemma writer_alone: "run_alone (writer_next L \<pi>) 2 (Finding tenant cid ch) s w =
    (let (r, s', w') = modify memory_repository tenant cid (apply_change L \<pi> ch) s w in (Written r, s', w'))"
  by (simp add: numeral_2_eq_2 modify_def memory_repository_def now_def split: sum.splits prod.splits)

lemma apply_change_fun: "apply_change L \<pi> (Add_schema schema) = (\<lambda>c t. Contract_AddVersion L \<pi> c schema t)"
  "apply_change L \<pi> (Publish_number n tag) = (\<lambda>c t. Contract_Publish c n tag t)"
  by (simp_all add: fun_eq_iff)

section \<open>Two writers of one contract\<close>

lemma sys_update:
  assumes "writer_run L t s t' s'"
  shows "registry_system L (ts @ t # us, s) (ts @ t' # us, s')"
  using sys_step.thread [of "length ts" "ts @ t # us" "writer_run L" s t' s'] assms by (simp add: nth_append)

lemma writer_find:
  assumes "Find s tenant cid = Inr c" and "apply_change L \<pi> ch c t = Inr (v, c')"
  shows "writer_run L (Finding tenant cid ch) s (Saving v c') s"
proof -
  let ?w = "\<lparr>clock = \<lambda>_. t, ticks = 0, id_source = \<lambda>_. [], drawn = 0\<rparr>"
  have "writer_next L \<pi> (Finding tenant cid ch) s ?w = (Saving v c', s, ?w\<lparr>ticks := 1\<rparr>)"
    using assms by (simp add: now_def)
  then show ?thesis unfolding writer_run_def by (metis writer_left.simps(1) zero_neq_numeral)
qed

lemma writer_save: "Save c s = (Inr (), s') \<Longrightarrow> writer_run L (Saving v c) s (Written (Inr v)) s'"
  by (auto simp: writer_run_def)

text \<open>Both read, then both write: what is stored is the change of the second alone.\<close>

lemma lost_update:
  assumes "registry_inv L s" and "Find s tenant cid = Inr c" and "apply_change L \<pi>1 ch1 c t1 = Inr (v1, c1)"
    and "apply_change L \<pi>2 ch2 c t2 = Inr (v2, c2)"
  shows "\<exists>s'. (registry_system L)\<^sup>*\<^sup>* (ts, s) (ts @ [Written (Inr v1), Written (Inr v2)], s') \<and> Find s' tenant cid = Inr c2"
proof -
  note ok1 = writer_found [OF assms(1-3)] and ok2 = writer_found [OF assms(1,2,4)]
  from save_inv [OF assms(1) ok1] obtain s1 where s1: "Save c1 s = (Inr (), s1)" "registry_inv L s1"
    "map_of (mc_values s1) = (map_of (mc_values s))(store_key (c_OrganizationID c1) (c_ID c1) \<mapsto> c1)" by blast
  have "writer_ok L s1 (Saving v2 c2)" by (rule writer_ok_mono [OF _ ok2]) (simp add: s1(3))
  from save_inv [OF s1(2) this] obtain s2 where s2: "Save c2 s1 = (Inr (), s2)" "registry_inv L s2"
    "map_of (mc_values s2) = (map_of (mc_values s1))(store_key (c_OrganizationID c2) (c_ID c2) \<mapsto> c2)" by blast
  have key: "store_key (c_OrganizationID c2) (c_ID c2) = store_key tenant cid"
    using mem.found_addr [OF registry_inv_store [OF assms(1)], of tenant cid c] assms(2) step_frame [OF apply_change_step [OF assms(4)]] by simp
  have "(registry_system L)\<^sup>*\<^sup>* (ts, s) (ts @ [Finding tenant cid ch1, Finding tenant cid ch2], s)"
    by (rule spawn_all) simp
  also have "registry_system L \<dots> (ts @ [Saving v1 c1, Finding tenant cid ch2], s)"
    by (rule sys_update [OF writer_find [OF assms(2,3)]])
  also have "registry_system L \<dots> (ts @ [Saving v1 c1, Saving v2 c2], s)"
    using sys_update [OF writer_find [OF assms(2,4)], where ts = "ts @ [Saving v1 c1]" and us = "[]"] by simp
  also have "registry_system L \<dots> (ts @ [Written (Inr v1), Saving v2 c2], s1)"
    by (rule sys_update [OF writer_save [OF s1(1)]])
  also have "registry_system L \<dots> (ts @ [Written (Inr v1), Written (Inr v2)], s2)"
    using sys_update [OF writer_save [OF s2(1)], where ts = "ts @ [Written (Inr v1)]" and us = "[]"] by simp
  finally have "(registry_system L)\<^sup>*\<^sup>* (ts, s) (ts @ [Written (Inr v1), Written (Inr v2)], s2)" .
  moreover have "Find s2 tenant cid = Inr c2" using s2(3) key by (simp add: Find_def)
  ultimately show ?thesis by blast
qed

section \<open>Sample run\<close>

definition demo_v1 :: Version where
  "demo_v1 = \<lparr>v_Number = 1, v_Schema = Schema_Canonical demo_lib id_order demo_schema,
     v_Fingerprint = Schema_Fingerprint demo_lib id_order demo_schema, v_Lifecycle = Draft, v_CreatedAt = 5,
     v_PublishedAt = None, v_DeprecatesAt = None, v_ETag = etag ''id0'' 2\<rparr>"

definition demo_draft :: Contract where
  "demo_draft = demo_registered\<lparr>c_Versions := [demo_v1], c_Revision := 2, c_UpdatedAt := 5\<rparr>"

lemma demo_add_first: "Contract_AddVersion demo_lib demo_orders demo_registered demo_schema 5 = Inr (demo_v1, demo_draft)"
proof -
  have "\<not> isl (Schema_Validate demo_schema)" by code_simp
  then obtain u where "Schema_Validate demo_schema = Inr u" by (cases "Schema_Validate demo_schema") auto
  then show ?thesis
    by (simp add: Contract_AddVersion_def demo_draft_def demo_v1_def demo_registered_def demo_contract_def Let_def)
qed

text \<open>A registry with one contract and one draft version, made by a writer.\<close>

lemma demo_draft_reach:
  "\<exists>s. (registry_system demo_lib)\<^sup>*\<^sup>* ([], NewMemoryContracts) ([Written (Inr demo_v1)], s) \<and> Find s ''acme'' ''id0'' = Inr demo_draft"
proof -
  have inv: "registry_inv demo_lib demo_registry" using registry_reach_inv [OF demo_registry_reach] by (simp add: registry_inv_def)
  have add: "apply_change demo_lib demo_orders (Add_schema demo_schema) demo_registered 5 = Inr (demo_v1, demo_draft)"
    using demo_add_first by simp
  from save_inv [OF inv writer_found [OF inv demo_registry_find add]] obtain s where s: "Save demo_draft demo_registry = (Inr (), s)"
    "map_of (mc_values s) = (map_of (mc_values demo_registry))(store_key (c_OrganizationID demo_draft) (c_ID demo_draft) \<mapsto> demo_draft)" by blast
  have "(registry_system demo_lib)\<^sup>*\<^sup>* ([], NewMemoryContracts) ([], demo_registry)"
    by (rule r_into_rtranclp, rule sys_step.outside) (unfold registering_def, intro exI, rule demo_register)
  also have "registry_system demo_lib \<dots> ([Finding ''acme'' ''id0'' (Add_schema demo_schema)], demo_registry)"
    using sys_step.spawn [of writer_fresh "Finding ''acme'' ''id0'' (Add_schema demo_schema)" _ _ "[]"] by simp
  also have "registry_system demo_lib \<dots> ([Saving demo_v1 demo_draft], demo_registry)"
    using sys_update [OF writer_find [OF demo_registry_find add], where ts = "[]" and us = "[]"] by simp
  also have "registry_system demo_lib \<dots> ([Written (Inr demo_v1)], s)"
    using sys_update [OF writer_save [OF s(1)], where ts = "[]" and us = "[]"] by simp
  finally have "(registry_system demo_lib)\<^sup>*\<^sup>* ([], NewMemoryContracts) ([Written (Inr demo_v1)], s)" .
  moreover have "Find s ''acme'' ''id0'' = Inr demo_draft"
    using s(2) by (simp add: Find_def demo_draft_def demo_registered_def demo_contract_def)
  ultimately show ?thesis by blast
qed

section \<open>Properties\<close>

text \<open>Run without another writer in between, the two steps of a thread are the operations \<^verbatim>\<open>AddVersion\<close> and
  \<^verbatim>\<open>Publish\<close> of the registry.\<close>

theorem registry_sequential:
  "run_alone (writer_next L \<pi>) 2 (Finding tenant cid (Add_schema schema)) s w =
     (let (r, s', w') = AddVersion L \<pi> memory_repository tenant cid schema s w in (Written r, s', w')) \<and>
   run_alone (writer_next L \<pi>) 2 (Finding tenant cid (Publish_number n tag)) s w =
     (let (r, s', w') = Publish_version memory_repository tenant cid n tag s w in (Written r, s', w'))"
  unfolding writer_alone AddVersion_modify Publish_modify apply_change_fun by simp

text \<open>C17: whatever the interleaving of registrations, additions and publications, every stored contract lies at its own key and is
  one that its operations build: versions numbered in order, distinct entity tags, each version compatible with the one before.\<close>

theorem registry_interleaved:
  assumes "(registry_system L)\<^sup>*\<^sup>* ([], NewMemoryContracts) (ts, s)" and "Find s tenant cid = Inr c" and "fits c"
  shows "store_key (c_OrganizationID c) (c_ID c) = store_key tenant cid \<and> wf_contract c \<and> compatible_history L c"
proof -
  have "registry_inv L NewMemoryContracts" by (simp add: registry_inv_def NewMemoryContracts_def wf_store_def)
  from reg.sys_inv_reach [OF this assms(1)] have inv: "registry_inv L s" by (simp add: reg.sys_inv_def)
  have look: "map_of (mc_values s) (store_key tenant cid) = Some c"
    using mem.find_Inr [OF registry_inv_store [OF inv]] assms(2) by simp
  with inv have "contract_reach L c" by (auto simp: registry_inv_def)
  then show ?thesis
    using reach_wf reach_history assms(3) mem.stored [OF registry_inv_store [OF inv] look] by blast
qed

theorem registry_interleaved_witness: "wf_contract demo_draft"
proof -
  obtain s where s: "(registry_system demo_lib)\<^sup>*\<^sup>* ([], NewMemoryContracts) ([Written (Inr demo_v1)], s)" "Find s ''acme'' ''id0'' = Inr demo_draft"
    using demo_draft_reach by blast
  have "fits demo_draft" by (simp add: fits_def demo_draft_def)
  from registry_interleaved [OF s this] show ?thesis by blast
qed

text \<open>C29: a publication that was answered can be lost: in any state, with a draft that can be published and a schema that can be
  added, two clients that do so at once can both be answered with success and leave the contract with the new version and the
  published one a draft again.\<close>

theorem publication_lost:
  assumes "(registry_system L)\<^sup>*\<^sup>* ([], NewMemoryContracts) (ts, s)" and "Find s tenant cid = Inr c"
    and "Contract_Publish c n tag t1 = Inr (v1, c1)" and "Contract_AddVersion L \<pi> c schema t2 = Inr (v2, c2)"
  shows "\<exists>s' i. (registry_system L)\<^sup>*\<^sup>* (ts, s) (ts @ [Written (Inr v1), Written (Inr v2)], s') \<and> v_Lifecycle v1 = Published \<and>
    Find s' tenant cid = Inr c2 \<and> i < length (c_Versions c2) \<and> v_Number (c_Versions c2 ! i) = n \<and> v_Lifecycle (c_Versions c2 ! i) = Draft"
proof -
  have "registry_inv L NewMemoryContracts" by (simp add: registry_inv_def NewMemoryContracts_def wf_store_def)
  from reg.sys_inv_reach [OF this assms(1)] have inv: "registry_inv L s" by (simp add: reg.sys_inv_def)
  obtain s' where s': "(registry_system L)\<^sup>*\<^sup>* (ts, s) (ts @ [Written (Inr v1), Written (Inr v2)], s')" "Find s' tenant cid = Inr c2"
    using lost_update [OF inv assms(2), of \<pi> "Publish_number n tag" t1 v1 c1 \<pi> "Add_schema schema" t2 v2 c2 ts] assms(3,4) by auto
  obtain i where i: "version_index n (c_Versions c) = Some i" "v_Lifecycle (c_Versions c ! i) = Draft" and v1: "v_Lifecycle v1 = Published"
    using assms(3) by (auto simp: Contract_Publish_def Let_def split: option.splits if_splits)
  have "c_Versions c2 = c_Versions c @ [v2]" using AddVersion_Inr(4) [OF assms(4)] by simp
  then show ?thesis using s' i v1 version_index_Some [of n "c_Versions c" i] by (intro exI [of _ s'] exI [of _ i]) (simp add: nth_append)
qed

theorem publication_lost_witness:
  "\<exists>ts s' c i. (registry_system demo_lib)\<^sup>*\<^sup>* ([], NewMemoryContracts) (ts, s') \<and> list_all (\<lambda>t. writer_left t = 0) ts \<and>
     Find s' ''acme'' ''id0'' = Inr c \<and> i < length (c_Versions c) \<and> v_Number (c_Versions c ! i) = 1 \<and> v_Lifecycle (c_Versions c ! i) = Draft"
proof -
  obtain s where s: "(registry_system demo_lib)\<^sup>*\<^sup>* ([], NewMemoryContracts) ([Written (Inr demo_v1)], s)" "Find s ''acme'' ''id0'' = Inr demo_draft"
    using demo_draft_reach by blast
  have "\<not> isl (Contract_Publish demo_draft 1 (etag ''id0'' 2) 6)"
    by (simp add: Contract_Publish_def demo_draft_def demo_v1_def etag_def Let_def)
  moreover have "\<not> isl (Schema_Validate demo_schema)"
    "r_Compatible (Compare demo_lib demo_orders (Schema_Canonical demo_lib id_order demo_schema) demo_schema Backward)" by code_simp+
  then have "\<not> isl (Contract_AddVersion demo_lib demo_orders demo_draft demo_schema 7)"
    by (cases "Schema_Validate demo_schema")
      (simp_all add: Contract_AddVersion_def demo_draft_def demo_v1_def demo_registered_def demo_contract_def Let_def)
  ultimately obtain v1 c1 v2 c2 where ch: "Contract_Publish demo_draft 1 (etag ''id0'' 2) 6 = Inr (v1, c1)"
    "Contract_AddVersion demo_lib demo_orders demo_draft demo_schema 7 = Inr (v2, c2)"
    by (cases "Contract_Publish demo_draft 1 (etag ''id0'' 2) 6"; cases "Contract_AddVersion demo_lib demo_orders demo_draft demo_schema 7") auto
  from publication_lost [OF s ch] obtain s' i where r: "(registry_system demo_lib)\<^sup>*\<^sup>* ([Written (Inr demo_v1)], s)
      ([Written (Inr demo_v1)] @ [Written (Inr v1), Written (Inr v2)], s')" "Find s' ''acme'' ''id0'' = Inr c2"
    "i < length (c_Versions c2)" "v_Number (c_Versions c2 ! i) = 1" "v_Lifecycle (c_Versions c2 ! i) = Draft" by blast
  show ?thesis
    by (rule exI [of _ "[Written (Inr demo_v1), Written (Inr v1), Written (Inr v2)]"], rule exI [of _ s'], rule exI [of _ c2], rule exI [of _ i])
      (use rtranclp_trans [OF s(1) r(1)] r in simp)
qed

end
