(* ===== verification/HttpThreads.thy ===== *)
theory HttpThreads
  imports HttpProps IngestThreads RegistryThreads
begin

text \<open>
  The gateway under load: every request runs in a goroutine of its own (\<^verbatim>\<open>net/http\<close> starts one for each), and
  all share the server. A step runs a request to the next point where its handler takes or has released a mutex, or touches an atomic
  counter. The steps of a publication, a replay and a change of a contract are those of \<open>IngestThreads\<close> and
  \<open>RegistryThreads\<close>, here on the maps and the store of one server, with the contracts looked up in the store at the
  moment of the step. A handler that enters one critical section is one step.
\<close>

section \<open>Requests as threads\<close>

datatype job =
    Arrived Request
  | Ingesting Request string publication
  | Counting Request string Receipt
  | Replaying_letter Request string thread
  | Batch Request string string string "string list" "ReplayResult list"
  | Batch_replay Request string string string string "string list" "ReplayResult list" thread
  | Writing Request string change writer
  | Rules_read Request string string "Rule list"
  | Activated Request string string int
  | Event_read Request string Event Receipt
  | Metrics_read Request int
  | Answered Request Response

type_synonym job_outcome = "job \<times> Server \<times> world"

definition answer :: "Request \<Rightarrow> Response \<times> world \<Rightarrow> Server \<Rightarrow> job_outcome" where
  "answer rq xw s = (Answered rq (fst xw), s, snd xw)"

text \<open>The recovery wrapper answers for a goroutine that panics.\<close>

definition recover_job :: "httplib \<Rightarrow> Request \<Rightarrow> error \<Rightarrow> Server \<Rightarrow> world \<Rightarrow> job_outcome" where
  "recover_job H rq e s w =
     (let (rid, w1) = RequestID rq w
      in answer rq (Fail 500 rid ''internal_error'' ''unexpected server error'' (Some (error_text H e)) w1) s)"

text \<open>The outcome of a handler that runs to its end in one step.\<close>

definition to_job :: "httplib \<Rightarrow> Request \<Rightarrow> outcome \<Rightarrow> job_outcome" where
  "to_job H rq out = (case out of (Inl e, s, w) \<Rightarrow> recover_job H rq e s w | (Inr x, s, w) \<Rightarrow> (Answered rq x, s, w))"

definition fail_job :: "httplib \<Rightarrow> Request \<Rightarrow> error \<Rightarrow> int \<Rightarrow> string \<Rightarrow> string \<Rightarrow> Server \<Rightarrow> world \<Rightarrow> job_outcome" where
  "fail_job H rq e status rid code s w =
     (if is_panic (Inl e :: unit result) then recover_job H rq e s w
      else answer rq (Fail status rid code (error_text H e) None w) s)"

definition finish_job ::
  "httplib \<Rightarrow> Request \<Rightarrow> 'a result \<Rightarrow> (error \<Rightarrow> int) \<Rightarrow> string \<Rightarrow> string \<Rightarrow> ('a \<Rightarrow> world \<Rightarrow> Response \<times> world) \<Rightarrow> Server \<Rightarrow> world \<Rightarrow> job_outcome" where
  "finish_job H rq r status rid code ok s w =
     (case r of
        Inl e \<Rightarrow> fail_job H rq e (status e) rid code s w
      | Inr v \<Rightarrow> answer rq (ok v w) s)"

definition tenant_job :: "httplib \<Rightarrow> Request \<Rightarrow> string \<Rightarrow> Server \<Rightarrow> world \<Rightarrow> (string \<Rightarrow> job_outcome) \<Rightarrow> job_outcome" where
  "tenant_job H rq rid s w k =
     (case Tenant rq of
        Inl e \<Rightarrow> answer rq (Fail 400 rid ''invalid_tenant'' (error_text H e) None w) s
      | Inr t \<Rightarrow> k t)"

definition body_job ::
  "httplib \<Rightarrow> 'a decoder \<Rightarrow> Request \<Rightarrow> string \<Rightarrow> Server \<Rightarrow> world \<Rightarrow> ('a \<Rightarrow> job_outcome) \<Rightarrow> job_outcome" where
  "body_job H dec rq rid s w k =
     (case Decode dec (rq_Body rq) (cf_MaxBodyBytes (sr_config s)) of
        Inl e \<Rightarrow> answer rq (Fail 400 rid ''invalid_request'' (error_text H e) None w) s
      | Inr v \<Rightarrow> k v)"

text \<open>
  The first step of each handler with more than one critical section: up to the first section, or through it.
\<close>

definition start_ingest :: "httplib \<Rightarrow> Request \<Rightarrow> Server \<Rightarrow> world \<Rightarrow> job_outcome" where
  "start_ingest H rq s w =
     (let (rid, w1) = RequestID rq w
      in tenant_job H rq rid s w1 (\<lambda>t.
          body_job H (hl_event H) rq rid s w1 (\<lambda>e.
            (Ingesting rq rid (Begin (e\<lparr>ev_TenantID := t, ev_IdempotencyKey := rq_Header rq ''Idempotency-Key''\<rparr>)), s, w1))))"

definition start_addVersion :: "httplib \<Rightarrow> Request \<Rightarrow> binding \<Rightarrow> Server \<Rightarrow> world \<Rightarrow> job_outcome" where
  "start_addVersion H rq b s w =
     (let (rid, w1) = RequestID rq w
      in tenant_job H rq rid s w1 (\<lambda>t.
          body_job H (hl_schema H) rq rid s w1 (\<lambda>schema.
            (Writing rq rid (Add_schema schema) (Finding t (PathValue b ''id'') (Add_schema schema)), s, w1))))"

definition start_publish :: "httplib \<Rightarrow> Request \<Rightarrow> binding \<Rightarrow> Server \<Rightarrow> world \<Rightarrow> job_outcome" where
  "start_publish H rq b s w =
     (let (rid, w1) = RequestID rq w
      in tenant_job H rq rid s w1 (\<lambda>t.
          case Atoi (PathValue b ''version'') of
            None \<Rightarrow> answer rq (Fail 400 rid ''invalid_version'' ''version must be numeric'' None w1) s
          | Some n \<Rightarrow>
              let ch = Publish_number n (rq_Header rq ''If-Match'')
              in (Writing rq rid ch (Finding t (PathValue b ''id'') ch), s, w1)))"

definition start_getRules :: "httplib \<Rightarrow> orders \<Rightarrow> Request \<Rightarrow> binding \<Rightarrow> Server \<Rightarrow> world \<Rightarrow> job_outcome" where
  "start_getRules H \<pi> rq b s w =
     (let (rid, w1) = RequestID rq w; cid = PathValue b ''id''
      in tenant_job H rq rid s w1 (\<lambda>_. (Rules_read rq rid cid (Rules (\<pi> 0) (sr_ingestion s) cid), s, w1)))"

definition start_activateRules :: "httplib \<Rightarrow> Request \<Rightarrow> binding \<Rightarrow> Server \<Rightarrow> world \<Rightarrow> job_outcome" where
  "start_activateRules H rq b s w =
     (let (rid, w1) = RequestID rq w; cid = PathValue b ''id''
      in tenant_job H rq rid s w1 (\<lambda>_.
          case Atoi (PathValue b ''version'') of
            None \<Rightarrow> answer rq (Fail 400 rid ''invalid_version'' ''rule version must be positive'' None w1) s
          | Some version \<Rightarrow>
              if version < 1 then answer rq (Fail 400 rid ''invalid_version'' ''rule version must be positive'' None w1) s
              else case ActivateRuleVersion cid version (sr_ingestion s) of
                (Inl e, ing') \<Rightarrow> fail_job H rq e 422 rid ''activation_rejected'' (s\<lparr>sr_ingestion := ing'\<rparr>) w1
              | (Inr _, ing') \<Rightarrow> (Activated rq rid cid version, s\<lparr>sr_ingestion := ing'\<rparr>, w1)))"

definition start_getEvent :: "httplib \<Rightarrow> orders \<Rightarrow> Request \<Rightarrow> binding \<Rightarrow> Server \<Rightarrow> world \<Rightarrow> job_outcome" where
  "start_getEvent H \<pi> rq b s w =
     (let (rid, w1) = RequestID rq w
      in tenant_job H rq rid s w1 (\<lambda>tenant.
          case GetEvent (\<pi> 0) (sr_ingestion s) tenant (PathValue b ''id'') of
            Inl e \<Rightarrow> fail_job H rq e 404 rid ''not_found'' s w1
          | Inr (event, receipt) \<Rightarrow> (Event_read rq rid event receipt, s, w1)))"

definition start_metrics :: "Request \<Rightarrow> Server \<Rightarrow> world \<Rightarrow> job_outcome" where
  "start_metrics rq s w =
     (Metrics_read rq (mt_Accepted (sr_metrics s)), s, w)"

definition start_replay :: "Request \<Rightarrow> binding \<Rightarrow> Server \<Rightarrow> world \<Rightarrow> job_outcome" where
  "start_replay rq b s w =
     (let (rid, w1) = RequestID rq w;
         actor = (if rq_Header rq ''X-Actor-ID'' = '''' then ''unknown'' else rq_Header rq ''X-Actor-ID'')
      in (Replaying_letter rq rid (Replay_begin (PathValue b ''id'') actor), s, w1))"

definition start_replayMany :: "httplib \<Rightarrow> Request \<Rightarrow> Server \<Rightarrow> world \<Rightarrow> job_outcome" where
  "start_replayMany H rq s w =
     (let (rid, w1) = RequestID rq w
      in tenant_job H rq rid s w1 (\<lambda>tenant.
          body_job H (hl_replay H) rq rid s w1 (\<lambda>req.
            if length (rp_LetterIDs req) = 0
            then answer rq (Fail 400 rid ''invalid_request'' ''letter_ids is required'' None w1) s
            else let actor = (if rp_Actor req = '''' then rq_Header rq ''X-Actor-ID'' else rp_Actor req)
                 in (Batch rq rid tenant (if actor = '''' then ''operator'' else actor) (rp_LetterIDs req) [], s, w1))))"

text \<open>The other handlers run to their end in one step.\<close>

definition start_job :: "golib \<Rightarrow> httplib \<Rightarrow> orders \<Rightarrow> endpoint \<Rightarrow> Request \<Rightarrow> binding \<Rightarrow> Server \<Rightarrow> world \<Rightarrow> job_outcome" where
  "start_job L H \<pi> ep rq b s w =
     (case ep of
        IngestEP \<Rightarrow> start_ingest H rq s w
      | AddVersionEP \<Rightarrow> start_addVersion H rq b s w
      | PublishEP \<Rightarrow> start_publish H rq b s w
      | GetRules \<Rightarrow> start_getRules H \<pi> rq b s w
      | ActivateRules \<Rightarrow> start_activateRules H rq b s w
      | GetEventEP \<Rightarrow> start_getEvent H \<pi> rq b s w
      | MetricsPage \<Rightarrow> start_metrics rq s w
      | ReplayEP \<Rightarrow> start_replay rq b s w
      | ReplayManyEP \<Rightarrow> start_replayMany H rq s w
      | _ \<Rightarrow> to_job H rq (serve_endpoint L H \<pi> ep rq b s w))"

lemmas start_defs = start_job_def start_ingest_def start_addVersion_def start_publish_def start_getRules_def
  start_activateRules_def start_getEvent_def start_metrics_def start_replay_def start_replayMany_def

fun write_answer :: "httplib \<Rightarrow> Request \<Rightarrow> string \<Rightarrow> change \<Rightarrow> Version result \<Rightarrow> Server \<Rightarrow> world \<Rightarrow> job_outcome" where
  "write_answer H rq rid (Add_schema schema) r s w =
     finish_job H rq r (\<lambda>_. 422) rid ''version_rejected'' (\<lambda>v. JSON 201 rid (DVersion v)) s w"
| "write_answer H rq rid (Publish_number n tag) r s w =
     finish_job H rq r (\<lambda>e. if Contains (error_text H e) ''etag'' then 412 else 422) rid ''publish_rejected''
       (\<lambda>v. JSON 200 rid (DVersion v)) s w"

text \<open>One letter of a batch: the check of its tenant is a section of its own, before the replay.\<close>

definition batch_letter :: "string \<Rightarrow> string \<Rightarrow> Service \<Rightarrow> ReplayResult option" where
  "batch_letter tenant lid s =
     (if TrimSpace lid = '''' then Some \<lparr>rr_LetterID = lid, rr_Receipt = None, rr_Error = Some ErrLetterIDRequired\<rparr>
      else if (case map_of (sv_letters s) lid of None \<Rightarrow> True | Some l \<Rightarrow> l_TenantID l \<noteq> tenant)
      then Some \<lparr>rr_LetterID = lid, rr_Receipt = None, rr_Error = Some ErrLetterNotFound\<rparr>
      else None)"

fun job_next :: "golib \<Rightarrow> httplib \<Rightarrow> orders \<Rightarrow> job \<Rightarrow> Server \<Rightarrow> world \<Rightarrow> job_outcome" where
  "job_next L H \<pi> (Arrived rq) s w =
     (case route_request (rq_Method rq) (rq_Path rq) of
        Matched ep b \<Rightarrow> start_job L H \<pi> ep rq b s w
      | _ \<Rightarrow> to_job H rq (serve_mux L H \<pi> rq s w))"
| "job_next L H \<pi> (Ingesting rq rid p) s w =
     (case p of
        Done (Inl e) \<Rightarrow> fail_job H rq e (if Contains (error_text H e) ''quota'' then 429 else 422) rid ''ingestion_rejected'' s w
      | Done (Inr receipt) \<Rightarrow> (Counting rq rid receipt, s, w)
      | _ \<Rightarrow>
          let (p', ing', w') = publication_step L (Find (sr_repo s)) p (sr_ingestion s) w
          in (Ingesting rq rid p', s\<lparr>sr_ingestion := ing'\<rparr>, w'))"
| "job_next L H \<pi> (Counting rq rid receipt) s w =
     answer rq (JSON 202 rid (DReceipt receipt) w) (s\<lparr>sr_metrics := count_receipt receipt (sr_metrics s)\<rparr>)"
| "job_next L H \<pi> (Replaying_letter rq rid t) s w =
     (case thread_result t of
        Some r \<Rightarrow> finish_job H rq r (\<lambda>_. 422) rid ''replay_rejected'' (\<lambda>v. JSON 202 rid (DReceipt v)) s w
      | None \<Rightarrow>
          let (t', ing', w') = thread_next L (Find (sr_repo s)) t (sr_ingestion s) w
          in (Replaying_letter rq rid t', s\<lparr>sr_ingestion := ing'\<rparr>, w'))"
| "job_next L H \<pi> (Batch rq rid tenant actor [] done) s w = answer rq (JSON 202 rid (DReplays tenant done) w) s"
| "job_next L H \<pi> (Batch rq rid tenant actor (lid # ids) done) s w =
     (case batch_letter tenant lid (sr_ingestion s) of
        Some x \<Rightarrow> (Batch rq rid tenant actor ids (done @ [x]), s, w)
      | None \<Rightarrow> (Batch_replay rq rid tenant actor lid ids done (Replay_begin lid actor), s, w))"
| "job_next L H \<pi> (Batch_replay rq rid tenant actor lid ids done t) s w =
     (case thread_result t of
        Some r \<Rightarrow>
          if is_panic r then recover_job H rq (projl r) s w
          else (Batch rq rid tenant actor ids (done @ [mk_replay_result lid r]), s, w)
      | None \<Rightarrow>
          let (t', ing', w') = thread_next L (Find (sr_repo s)) t (sr_ingestion s) w
          in (Batch_replay rq rid tenant actor lid ids done t', s\<lparr>sr_ingestion := ing'\<rparr>, w'))"
| "job_next L H \<pi> (Writing rq rid ch t) s w =
     (case t of
        Written r \<Rightarrow> write_answer H rq rid ch r s w
      | _ \<Rightarrow>
          let (t', repo', w') = writer_next L \<pi> t (sr_repo s) w
          in (Writing rq rid ch t', s\<lparr>sr_repo := repo'\<rparr>, w'))"
| "job_next L H \<pi> (Rules_read rq rid cid rules) s w =
     answer rq (JSON 200 rid (DRules cid rules (RuleHistory (sr_ingestion s) cid)) w) s"
| "job_next L H \<pi> (Activated rq rid cid version) s w =
     answer rq (JSON 200 rid (DActivated cid version (Rules (\<pi> 0) (sr_ingestion s) cid)) w) s"
| "job_next L H \<pi> (Event_read rq rid event receipt) s w =
     answer rq (JSON 200 rid (DEvent event receipt (Attempts (sr_ingestion s) (ev_ID event))) w) s"
| "job_next L H \<pi> (Metrics_read rq accepted) s w =
     answer rq (text_response 200 ''text/plain; version=0.0.4''
       (''ecqg_events_accepted_total '' @ Itoa accepted @ [CHR 0x0A] @
        ''ecqg_events_deadlettered_total '' @ Itoa (mt_DeadLettered (sr_metrics s)) @ [CHR 0x0A]), w) s"
| "job_next L H \<pi> (Answered rq x) s w = (Answered rq x, s, w)"

text \<open>How many steps a request takes at most; a batch needs eleven for each letter it names.\<close>

definition batch_size :: "httplib \<Rightarrow> Config \<Rightarrow> Request \<Rightarrow> nat" where
  "batch_size H cfg rq = (case Decode (hl_replay H) (rq_Body rq) (cf_MaxBodyBytes cfg) of
       Inl _ \<Rightarrow> 0
     | Inr req \<Rightarrow> length (rp_LetterIDs req))"

fun job_left :: "httplib \<Rightarrow> Config \<Rightarrow> job \<Rightarrow> nat" where
  "job_left H cfg (Arrived rq) = 11 + 11 * batch_size H cfg rq"
| "job_left H cfg (Ingesting rq rid p) = steps_left p + 2"
| "job_left H cfg (Counting rq rid receipt) = 1"
| "job_left H cfg (Replaying_letter rq rid t) = thread_left t + 1"
| "job_left H cfg (Batch rq rid tenant actor ids done) = 11 * length ids + 1"
| "job_left H cfg (Batch_replay rq rid tenant actor lid ids done t) = thread_left t + 11 * length ids + 2"
| "job_left H cfg (Writing rq rid ch t) = writer_left t + 1"
| "job_left H cfg (Answered rq x) = 0"
| "job_left H cfg _ = 1"

lemma job_left_0: "job_left H cfg t = 0 \<longleftrightarrow> (\<exists>rq x. t = Answered rq x)"
  by (cases t) simp_all

definition job_run :: "golib \<Rightarrow> httplib \<Rightarrow> Config \<Rightarrow> job \<Rightarrow> Server \<Rightarrow> job \<Rightarrow> Server \<Rightarrow> bool" where
  "job_run L H cfg t s t' s' \<longleftrightarrow> sr_config s = cfg \<and> job_left H cfg t \<noteq> 0 \<and> (\<exists>\<pi> w w'. job_next L H \<pi> t s w = (t', s', w'))"

fun job_fresh :: "job \<Rightarrow> bool" where
  "job_fresh (Arrived rq) = True"
| "job_fresh _ = False"

text \<open>Nothing but the requests touches the server.\<close>

abbreviation http_system :: "golib \<Rightarrow> httplib \<Rightarrow> Config \<Rightarrow> job list \<times> Server \<Rightarrow> job list \<times> Server \<Rightarrow> bool" where
  "http_system L H cfg \<equiv> sys_step (job_run L H cfg) (\<lambda>_ _. False) job_fresh"

section \<open>One request alone\<close>

lemma to_job_simps:
  "to_job H rq (respond xw s) = answer rq xw s"
  "to_job H rq (with_tenant H rq rid s w k) = tenant_job H rq rid s w (\<lambda>t. to_job H rq (k t))"
  "to_job H rq (with_body H dec rq rid s w kb) = body_job H dec rq rid s w (\<lambda>v. to_job H rq (kb v))"
  "to_job H rq (finish H r st rid code ok s w) = finish_job H rq r st rid code ok s w"
proof -
  show r: "to_job H rq (respond xw s) = answer rq xw s" for xw by (simp add: to_job_def respond_def answer_def)
  show "to_job H rq (with_tenant H rq rid s w k) = tenant_job H rq rid s w (\<lambda>t. to_job H rq (k t))"
    by (simp add: with_tenant_def tenant_job_def r split: sum.splits)
  show "to_job H rq (with_body H dec rq rid s w kb) = body_job H dec rq rid s w (\<lambda>v. to_job H rq (kb v))"
    by (simp add: with_body_def body_job_def r split: sum.splits)
  show "to_job H rq (finish H r st rid code ok s w) = finish_job H rq r st rid code ok s w"
  proof (cases r)
    case (Inl e)
    then show ?thesis by (cases "is_panic r") (auto simp: finish_def finish_job_def fail_job_def to_job_def respond_def answer_def)
  next
    case (Inr v)
    then show ?thesis by (simp add: finish_def finish_job_def r)
  qed
qed

lemma to_job_panic: "to_job H rq (Inl e, s, w) = recover_job H rq e s w"
  by (simp add: to_job_def)

lemma Handler_to_job: "(let (x, s', w') = Handler L H \<pi> rq s w in (Answered rq x, s', w')) = to_job H rq (serve_mux L H \<pi> rq s w)"
  by (simp add: Handler_def to_job_def recover_job_def answer_def Let_def split: prod.splits sum.splits)

lemma answered_alone: "run_alone (job_next L H \<pi>) n (Answered rq x) s w = (Answered rq x, s, w)"
  by (induction n) simp_all

lemma thread_left_0: "thread_left t = 0 \<longleftrightarrow> (\<exists>r. thread_result t = Some r)"
  by (cases t rule: thread_result.cases) (auto simp: steps_left_0)

lemma writer_left_0: "writer_left t = 0 \<longleftrightarrow> (\<exists>r. t = Written r)"
  by (cases t) simp_all

lemma thread_next_stay: "thread_left t = 0 \<Longrightarrow> thread_next L contracts t s w = (t, s, w)"
  by (cases t) (auto simp: steps_left_0)

text \<open>A step that answers is the last.\<close>

definition settled :: "job_outcome \<Rightarrow> bool" where
  "settled out \<longleftrightarrow> (\<exists>rq x. fst out = Answered rq x)"

lemma settled_answer [simp]: "settled (answer rq xw s)"
  by (simp add: settled_def answer_def)

lemma settled_recover [simp]: "settled (recover_job H rq e s w)"
  by (simp add: recover_job_def split: prod.splits)

lemma settled_fail [simp]: "settled (fail_job H rq e st rid code s w)"
  by (simp add: fail_job_def)

lemma settled_finish [simp]: "settled (finish_job H rq r st rid code ok s w)"
  by (simp add: finish_job_def split: sum.splits)

lemma settled_write [simp]: "settled (write_answer H rq rid ch v s w)"
  by (cases ch) simp_all

lemma settled_to_job [simp]: "settled (to_job H rq out)"
  by (auto simp: to_job_def settled_def [of "(Answered _ _, _)"] split: prod.splits sum.splits)

lemma settled_alone: "settled (job_next L H \<pi> t s w) \<Longrightarrow> run_alone (job_next L H \<pi>) (Suc n) t s w = job_next L H \<pi> t s w"
  by (auto simp: settled_def answered_alone split: prod.splits)

lemma le_split: "j \<le> m \<Longrightarrow> m + k \<le> n \<Longrightarrow> \<exists>i. n = j + (k + i)" for j k m n :: nat
  by (metis add.assoc add.commute le_Suc_ex le_trans add_le_mono1)

lemma Ingesting_next:
  "steps_left p \<noteq> 0 \<Longrightarrow> job_next L H \<pi> (Ingesting rq rid p) s w =
     (let (p', ing', w') = publication_step L (Find (sr_repo s)) p (sr_ingestion s) w
      in (Ingesting rq rid p', s\<lparr>sr_ingestion := ing'\<rparr>, w'))"
  by (cases p) simp_all

lemma Writing_next:
  "writer_left t \<noteq> 0 \<Longrightarrow> job_next L H \<pi> (Writing rq rid ch t) s w =
     (let (t', repo', w') = writer_next L \<pi> t (sr_repo s) w in (Writing rq rid ch t', s\<lparr>sr_repo := repo'\<rparr>, w'))"
  by (cases t) simp_all

lemma ingesting_alone:
  assumes "steps_left p + 2 \<le> n"
  shows "run_alone (job_next L H \<pi>) n (Ingesting rq rid p) s w =
    (case rest L (Find (sr_repo s)) p (sr_ingestion s) w of
       (Inl e, ing', w') \<Rightarrow> fail_job H rq e (if Contains (error_text H e) ''quota'' then 429 else 422) rid ''ingestion_rejected''
         (s\<lparr>sr_ingestion := ing'\<rparr>) w'
     | (Inr receipt, ing', w') \<Rightarrow> answer rq (JSON 202 rid (DReceipt receipt) w')
         (s\<lparr>sr_ingestion := ing', sr_metrics := count_receipt receipt (sr_metrics s)\<rparr>))"
proof -
  let ?part = "publication_step L (Find (sr_repo s))"
  obtain r ing' w' where rest: "rest L (Find (sr_repo s)) p (sr_ingestion s) w = (r, ing', w')" by (metis prod_cases3)
  have "\<exists>j t' x' w'. j \<le> steps_left p \<and> run_alone ?part (steps_left p) p (sr_ingestion s) w = (t', x', w') \<and> steps_left t' = 0 \<and>
    (\<forall>n. run_alone (job_next L H \<pi>) (j + n) (Ingesting rq rid p) (s\<lparr>sr_ingestion := sr_ingestion s\<rparr>) w =
       run_alone (job_next L H \<pi>) n (Ingesting rq rid t') (s\<lparr>sr_ingestion := x'\<rparr>) w')"
  proof (rule run_alone_part [where emb = "Ingesting rq rid" and upd = "\<lambda>x. s\<lparr>sr_ingestion := x\<rparr>" and left = steps_left])
    show "steps_left t \<noteq> 0 \<Longrightarrow> ?part t x w = (t', x', w') \<Longrightarrow>
      job_next L H \<pi> (Ingesting rq rid t) (s\<lparr>sr_ingestion := x\<rparr>) w = (Ingesting rq rid t', s\<lparr>sr_ingestion := x'\<rparr>, w')" for t x w t' x' w'
      by (simp add: Ingesting_next del: job_next.simps)
    show "steps_left t \<noteq> 0 \<Longrightarrow> ?part t x w = (t', x', w') \<Longrightarrow> steps_left t' < steps_left t" for t x w t' x' w'
      by (rule publication_step_less)
    show "steps_left t = 0 \<Longrightarrow> ?part t x w = (t, x, w)" for t x w by (auto simp: steps_left_0)
  qed simp
  then obtain j where j: "j \<le> steps_left p" "\<forall>n. run_alone (job_next L H \<pi>) (j + n) (Ingesting rq rid p) s w =
       run_alone (job_next L H \<pi>) n (Ingesting rq rid (Done r)) (s\<lparr>sr_ingestion := ing'\<rparr>) w'"
    using publication_steps [of p "steps_left p" L "Find (sr_repo s)" "sr_ingestion s" w] rest by auto
  obtain i where n: "n = j + Suc (Suc i)" using le_split [OF j(1) assms] by auto
  show ?thesis
  proof (cases r)
    case (Inl e)
    show ?thesis unfolding n j(2) [rule_format] rest Inl by (subst settled_alone) simp_all
  next
    case (Inr receipt)
    have "run_alone (job_next L H \<pi>) (Suc (Suc i)) (Ingesting rq rid (Done r)) (s\<lparr>sr_ingestion := ing'\<rparr>) w' =
        run_alone (job_next L H \<pi>) (Suc i) (Counting rq rid receipt) (s\<lparr>sr_ingestion := ing'\<rparr>) w'"
      unfolding run_alone.simps(2) [of _ "Suc i"] Inr by (simp del: run_alone.simps)
    also have "\<dots> = job_next L H \<pi> (Counting rq rid receipt) (s\<lparr>sr_ingestion := ing'\<rparr>) w'" by (rule settled_alone) simp
    finally show ?thesis unfolding n j(2) [rule_format] rest Inr by simp
  qed
qed

lemma writing_alone:
  assumes "3 \<le> n" and "modify memory_repository t cid (apply_change L \<pi> ch) (sr_repo s) w = (r, repo', w')"
  shows "run_alone (job_next L H \<pi>) n (Writing rq rid ch (Finding t cid ch)) s w =
    write_answer H rq rid ch r (s\<lparr>sr_repo := repo'\<rparr>) w'"
proof -
  have "\<exists>j t' x' w'. j \<le> writer_left (Finding t cid ch) \<and> run_alone (writer_next L \<pi>) 2 (Finding t cid ch) (sr_repo s) w = (t', x', w') \<and>
    writer_left t' = 0 \<and> (\<forall>n. run_alone (job_next L H \<pi>) (j + n) (Writing rq rid ch (Finding t cid ch)) (s\<lparr>sr_repo := sr_repo s\<rparr>) w =
       run_alone (job_next L H \<pi>) n (Writing rq rid ch t') (s\<lparr>sr_repo := x'\<rparr>) w')"
  proof (rule run_alone_part [where emb = "Writing rq rid ch" and upd = "\<lambda>x. s\<lparr>sr_repo := x\<rparr>" and left = writer_left])
    show "writer_left u \<noteq> 0 \<Longrightarrow> writer_next L \<pi> u x w = (u', x', w') \<Longrightarrow>
      job_next L H \<pi> (Writing rq rid ch u) (s\<lparr>sr_repo := x\<rparr>) w = (Writing rq rid ch u', s\<lparr>sr_repo := x'\<rparr>, w')" for u x w u' x' w'
      by (simp add: Writing_next del: job_next.simps)
    show "writer_left u \<noteq> 0 \<Longrightarrow> writer_next L \<pi> u x w = (u', x', w') \<Longrightarrow> writer_left u' < writer_left u" for u x w u' x' w'
      by (rule writer_next_less)
    show "writer_left u = 0 \<Longrightarrow> writer_next L \<pi> u x w = (u, x, w)" for u x w by (auto simp: writer_left_0)
  qed simp
  then obtain j where j: "j \<le> 2" "\<forall>n. run_alone (job_next L H \<pi>) (j + n) (Writing rq rid ch (Finding t cid ch)) s w =
       run_alone (job_next L H \<pi>) n (Writing rq rid ch (Written r)) (s\<lparr>sr_repo := repo'\<rparr>) w'"
    using writer_alone [of L \<pi> t cid ch "sr_repo s" w] assms(2) by auto
  obtain i where n: "n = j + Suc i" using le_split [OF j(1), of 1 n] assms(1) by auto
  show ?thesis unfolding n j(2) [rule_format] by (subst settled_alone) simp_all
qed

lemma replaying_alone:
  assumes "10 \<le> n" and "Replay L (Find (sr_repo s)) lid actor (sr_ingestion s) w = (r, ing', w')"
  shows "run_alone (job_next L H \<pi>) n (Replaying_letter rq rid (Replay_begin lid actor)) s w =
      finish_job H rq r (\<lambda>_. 422) rid ''replay_rejected'' (\<lambda>v. JSON 202 rid (DReceipt v)) (s\<lparr>sr_ingestion := ing'\<rparr>) w'"
    and "\<exists>i. n \<le> i + 10 \<and> run_alone (job_next L H \<pi>) n (Batch_replay rq rid tenant a lid ids out (Replay_begin lid actor)) s w =
      (if is_panic r then recover_job H rq (projl r) (s\<lparr>sr_ingestion := ing'\<rparr>) w'
       else run_alone (job_next L H \<pi>) i (Batch rq rid tenant a ids (out @ [mk_replay_result lid r])) (s\<lparr>sr_ingestion := ing'\<rparr>) w')"
proof -
  let ?part = "thread_next L (Find (sr_repo s))"
  have run: "\<exists>j. j \<le> 9 \<and> (\<forall>n. run_alone (job_next L H \<pi>) (j + n) (emb (Replay_begin lid actor)) s w =
       run_alone (job_next L H \<pi>) n (emb (Replay_done r)) (s\<lparr>sr_ingestion := ing'\<rparr>) w')"
    if "\<And>t x w t' x' w'. thread_left t \<noteq> 0 \<Longrightarrow> ?part t x w = (t', x', w') \<Longrightarrow>
      job_next L H \<pi> (emb t) (s\<lparr>sr_ingestion := x\<rparr>) w = (emb t', s\<lparr>sr_ingestion := x'\<rparr>, w')" for emb
  proof -
    have "\<exists>j t' x' w'. j \<le> thread_left (Replay_begin lid actor) \<and> run_alone ?part 9 (Replay_begin lid actor) (sr_ingestion s) w = (t', x', w') \<and>
      thread_left t' = 0 \<and> (\<forall>n. run_alone (job_next L H \<pi>) (j + n) (emb (Replay_begin lid actor)) (s\<lparr>sr_ingestion := sr_ingestion s\<rparr>) w =
       run_alone (job_next L H \<pi>) n (emb t') (s\<lparr>sr_ingestion := x'\<rparr>) w')"
    proof (rule run_alone_part [where emb = emb and upd = "\<lambda>x. s\<lparr>sr_ingestion := x\<rparr>" and left = thread_left])
      show "thread_left t \<noteq> 0 \<Longrightarrow> ?part t x w = (t', x', w') \<Longrightarrow> thread_left t' < thread_left t" for t x w t' x' w'
        by (rule thread_next_less)
    qed (simp_all add: that thread_next_stay)
    then show ?thesis using Replay_alone [of L "Find (sr_repo s)" lid actor "sr_ingestion s" w] assms(2) by auto
  qed
  have none: "thread_left t \<noteq> 0 \<Longrightarrow> thread_result t = None" for t using thread_left_0 [of t] by (cases "thread_result t") auto
  obtain j where j: "j \<le> 9" "\<forall>n. run_alone (job_next L H \<pi>) (j + n) (Replaying_letter rq rid (Replay_begin lid actor)) s w =
       run_alone (job_next L H \<pi>) n (Replaying_letter rq rid (Replay_done r)) (s\<lparr>sr_ingestion := ing'\<rparr>) w'"
    using run [of "Replaying_letter rq rid"] none by auto
  obtain i where n: "n = j + Suc i" using le_split [OF j(1), of 1 n] assms(1) by auto
  show "run_alone (job_next L H \<pi>) n (Replaying_letter rq rid (Replay_begin lid actor)) s w =
      finish_job H rq r (\<lambda>_. 422) rid ''replay_rejected'' (\<lambda>v. JSON 202 rid (DReceipt v)) (s\<lparr>sr_ingestion := ing'\<rparr>) w'"
    unfolding n j(2) [rule_format] by (subst settled_alone) simp_all
  obtain j where j: "j \<le> 9" "\<forall>n. run_alone (job_next L H \<pi>) (j + n) (Batch_replay rq rid tenant a lid ids out (Replay_begin lid actor)) s w =
       run_alone (job_next L H \<pi>) n (Batch_replay rq rid tenant a lid ids out (Replay_done r)) (s\<lparr>sr_ingestion := ing'\<rparr>) w'"
    using run [of "Batch_replay rq rid tenant a lid ids out"] none by auto
  obtain i where n: "n = j + Suc i" using le_split [OF j(1), of 1 n] assms(1) by auto
  show "\<exists>i. n \<le> i + 10 \<and> run_alone (job_next L H \<pi>) n (Batch_replay rq rid tenant a lid ids out (Replay_begin lid actor)) s w =
      (if is_panic r then recover_job H rq (projl r) (s\<lparr>sr_ingestion := ing'\<rparr>) w'
       else run_alone (job_next L H \<pi>) i (Batch rq rid tenant a ids (out @ [mk_replay_result lid r])) (s\<lparr>sr_ingestion := ing'\<rparr>) w')"
    unfolding n j(2) [rule_format] using j(1)
    by (intro exI [of _ i]) (cases "is_panic r", subst settled_alone, simp_all)
qed

lemma replay_batch_letter:
  "replay_batch L contracts (Some tenant) (lid # ids) actor s w =
     (let (r, s1, w1) = (case batch_letter tenant lid s of Some x \<Rightarrow> (Inr x, s, w) | None \<Rightarrow> replayOne L contracts lid actor s w)
      in case r of
           Inl e \<Rightarrow> (Inl e, s1, w1)
         | Inr x \<Rightarrow>
             (case replay_batch L contracts (Some tenant) ids actor s1 w1 of
                (Inl e, s2, w2) \<Rightarrow> (Inl e, s2, w2)
              | (Inr xs, s2, w2) \<Rightarrow> (Inr (x # xs), s2, w2)))"
  by (cases "map_of (sv_letters s) lid") (simp_all add: batch_letter_def)

lemma batch_alone:
  "11 * length ids + 1 \<le> n \<Longrightarrow> run_alone (job_next L H \<pi>) n (Batch rq rid tenant actor ids out) s w =
    (case replay_batch L (Find (sr_repo s)) (Some tenant) ids actor (sr_ingestion s) w of
       (Inl e, ing', w') \<Rightarrow> recover_job H rq e (s\<lparr>sr_ingestion := ing'\<rparr>) w'
     | (Inr results, ing', w') \<Rightarrow> answer rq (JSON 202 rid (DReplays tenant (out @ results)) w') (s\<lparr>sr_ingestion := ing'\<rparr>))"
proof (induction ids arbitrary: n out s w)
  case Nil
  then obtain m where n: "n = Suc m" by (cases n) auto
  show ?case unfolding n by (subst settled_alone) simp_all
next
  case (Cons lid ids)
  then obtain m where n: "n = Suc m" and m: "11 * length ids + 11 \<le> m" by (cases n) auto
  show ?case
  proof (cases "batch_letter tenant lid (sr_ingestion s)")
    case (Some x)
    have "run_alone (job_next L H \<pi>) n (Batch rq rid tenant actor (lid # ids) out) s w =
        run_alone (job_next L H \<pi>) m (Batch rq rid tenant actor ids (out @ [x])) s w" using n Some by simp
    then show ?thesis using Cons.IH [of m "out @ [x]" s w] m Some
      by (simp add: replay_batch_letter split: prod.splits sum.splits del: replay_batch.simps)
  next
    case None
    obtain r ing1 w1 where rep: "Replay L (Find (sr_repo s)) lid actor (sr_ingestion s) w = (r, ing1, w1)" by (metis prod_cases3)
    have first: "run_alone (job_next L H \<pi>) n (Batch rq rid tenant actor (lid # ids) out) s w =
        run_alone (job_next L H \<pi>) m (Batch_replay rq rid tenant actor lid ids out (Replay_begin lid actor)) s w" using n None by simp
    obtain i where i: "m \<le> i + 10" "run_alone (job_next L H \<pi>) m (Batch_replay rq rid tenant actor lid ids out (Replay_begin lid actor)) s w =
      (if is_panic r then recover_job H rq (projl r) (s\<lparr>sr_ingestion := ing1\<rparr>) w1
       else run_alone (job_next L H \<pi>) i (Batch rq rid tenant actor ids (out @ [mk_replay_result lid r])) (s\<lparr>sr_ingestion := ing1\<rparr>) w1)"
      using replaying_alone(2) [OF _ rep, of m H \<pi> rq rid tenant actor ids out] m by auto
    have "11 * length ids + 1 \<le> i" using i(1) m by simp
    from Cons.IH [OF this, of "out @ [mk_replay_result lid r]" "s\<lparr>sr_ingestion := ing1\<rparr>" w1] show ?thesis
      using first i(2) None rep
      by (simp add: replay_batch_letter replayOne_def split: prod.splits sum.splits del: replay_batch.simps run_alone.simps job_next.simps)
  qed
qed

text \<open>The rest of a request after its first step.\<close>

definition run_out :: "golib \<Rightarrow> httplib \<Rightarrow> orders \<Rightarrow> nat \<Rightarrow> job_outcome \<Rightarrow> job_outcome" where
  "run_out L H \<pi> n out = run_alone (job_next L H \<pi>) n (fst out) (fst (snd out)) (snd (snd out))"

lemma run_out_settled: "settled out \<Longrightarrow> run_out L H \<pi> n out = out"
  by (cases out) (auto simp: run_out_def settled_def answered_alone)

lemma run_out_tenant: "run_out L H \<pi> n (tenant_job H rq rid s w k) = tenant_job H rq rid s w (\<lambda>t. run_out L H \<pi> n (k t))"
  by (simp add: tenant_job_def run_out_settled split: sum.splits)

lemma run_out_body: "run_out L H \<pi> n (body_job H dec rq rid s w k) = body_job H dec rq rid s w (\<lambda>v. run_out L H \<pi> n (k v))"
  by (simp add: body_job_def run_out_settled split: sum.splits)

lemma body_job_cong:
  "(\<And>v. Decode dec (rq_Body rq) (cf_MaxBodyBytes (sr_config s)) = Inr v \<Longrightarrow> k v = k' v) \<Longrightarrow>
   body_job H dec rq rid s w k = body_job H dec rq rid s w k'"
  by (auto simp: body_job_def split: sum.splits)

lemmas run_out_simps = run_out_tenant run_out_body

lemma run_out_job: "run_out L H \<pi> n (t, s, w) = run_alone (job_next L H \<pi>) n t s w"
  by (simp add: run_out_def)

lemma run_out_read: "settled (job_next L H \<pi> t s w) \<Longrightarrow> n \<noteq> 0 \<Longrightarrow> run_out L H \<pi> n (t, s, w) = job_next L H \<pi> t s w"
  by (cases n) (simp_all add: run_out_job settled_alone del: run_alone.simps)

lemma start_alone:
  assumes "10 + 11 * batch_size H (sr_config s) rq \<le> n"
  shows "run_out L H \<pi> n (start_job L H \<pi> ep rq b s w) = to_job H rq (serve_endpoint L H \<pi> ep rq b s w)"
proof -
  have n: "10 \<le> n" "n \<noteq> 0" using assms by simp_all
  show ?thesis
  proof (cases ep)
    case IngestEP
    then show ?thesis using n
      by (simp add: start_defs ingest_def run_out_simps run_out_job ingesting_alone to_job_simps finish_job_def split_beta cong: sum.case_cong)
  next
    case AddVersionEP
    then show ?thesis using n
      by (simp add: start_defs addVersion_def run_out_simps run_out_job writing_alone [OF _ split3] to_job_simps AddVersion_modify
          apply_change_fun split_beta)
  next
    case PublishEP
    then show ?thesis using n
      by (cases "Atoi (PathValue b ''version'')")
        (simp_all add: start_defs publish_def run_out_simps run_out_job writing_alone [OF _ split3] to_job_simps Publish_modify
          apply_change_fun run_out_settled Let_def split_beta)
  next
    case GetRules
    then show ?thesis using n
      by (simp add: start_defs getRules_def run_out_simps run_out_read to_job_simps Let_def split_beta)
  next
    case ActivateRules
    show ?thesis
    proof (cases "Atoi (PathValue b ''version'')")
      case None
      then show ?thesis using ActivateRules
        by (simp add: start_defs activateRules_def run_out_simps run_out_settled to_job_simps Let_def split_beta)
    next
      case (Some v)
      obtain r ing' where "ActivateRuleVersion (PathValue b ''id'') v (sr_ingestion s) = (r, ing')" by fastforce
      then show ?thesis using ActivateRules Some n
        by (cases r) (simp_all add: start_defs activateRules_def run_out_simps run_out_read run_out_settled to_job_simps
            finish_job_def Let_def split_beta)
    qed
  next
    case GetEventEP
    have "run_out L H \<pi> n (case g of Inl e \<Rightarrow> fail_job H rq e 404 rid ''not_found'' s w1
        | Inr (event, receipt) \<Rightarrow> (Event_read rq rid event receipt, s, w1)) =
      finish_job H rq g (\<lambda>_. 404) rid ''not_found''
        (\<lambda>(event, receipt). JSON 200 rid (DEvent event receipt (Attempts (sr_ingestion s) (ev_ID event)))) s w1" for g rid w1
      using n by (cases g) (auto simp: finish_job_def run_out_settled run_out_read)
    then show ?thesis using GetEventEP by (simp add: start_defs getEvent_def run_out_simps to_job_simps split_beta)
  next
    case MetricsPage
    then show ?thesis using n by (simp add: start_defs metricsHandler_def run_out_read to_job_simps)
  next
    case ReplayEP
    then show ?thesis using n
      by (simp add: start_defs replay_def run_out_job replaying_alone(1) [OF _ split3] to_job_simps Let_def split_beta)
  next
    case ReplayManyEP
    have len: "11 * length (rp_LetterIDs req) + 1 \<le> n"
      if "Decode (hl_replay H) (rq_Body rq) (cf_MaxBodyBytes (sr_config s)) = Inr req" for req
      using that assms by (simp add: batch_size_def)
    have run: "run_out L H \<pi> n (Batch rq rid t a ids [], s, w1) = to_job H rq
        (let (r, ing', w2) = replay_batch L (Find (sr_repo s)) (Some t) ids a (sr_ingestion s) w1
         in case r of Inl e \<Rightarrow> (Inl e, s\<lparr>sr_ingestion := ing'\<rparr>, w2)
            | Inr results \<Rightarrow> respond (JSON 202 rid (DReplays t results) w2) (s\<lparr>sr_ingestion := ing'\<rparr>))"
      if "11 * length ids + 1 \<le> n" for rid t a ids w1
      using batch_alone [OF that, of L H \<pi> rq rid t a "[]" s w1]
      by (simp add: run_out_job to_job_panic to_job_simps split: prod.split sum.split)
    obtain rid w1 where rid: "RequestID rq w = (rid, w1)" by fastforce
    have "body_job H (hl_replay H) rq rid s w1 (\<lambda>req. run_out L H \<pi> n (if length (rp_LetterIDs req) = 0
          then answer rq (Fail 400 rid ''invalid_request'' ''letter_ids is required'' None w1) s
          else let actor = (if rp_Actor req = '''' then rq_Header rq ''X-Actor-ID'' else rp_Actor req)
               in (Batch rq rid t (if actor = '''' then ''operator'' else actor) (rp_LetterIDs req) [], s, w1))) =
      body_job H (hl_replay H) rq rid s w1 (\<lambda>req. to_job H rq (if length (rp_LetterIDs req) = 0
          then respond (Fail 400 rid ''invalid_request'' ''letter_ids is required'' None w1) s
          else let actor = (if rp_Actor req = '''' then rq_Header rq ''X-Actor-ID'' else rp_Actor req);
                   (r, ing', w2) = ReplayManyForTenant L (Find (sr_repo s)) t (rp_LetterIDs req) actor (sr_ingestion s) w1
               in case r of Inl e \<Rightarrow> (Inl e, s\<lparr>sr_ingestion := ing'\<rparr>, w2)
                  | Inr results \<Rightarrow> respond (JSON 202 rid (DReplays t results) w2) (s\<lparr>sr_ingestion := ing'\<rparr>)))" for t
      unfolding Let_def ReplayManyForTenant_def
    proof (rule body_job_cong, goal_cases)
      case (1 req)
      show ?case using run [unfolded Let_def, OF len [OF 1]]
        by (simp only: run_out_settled settled_answer to_job_simps split: if_split) simp
    qed
    then show ?thesis using ReplayManyEP
      by (simp only: start_defs serve_endpoint.simps replayMany_def endpoint.case rid Let_def prod.case run_out_simps to_job_simps)
  qed (simp_all add: start_defs run_out_settled)
qed

lemma request_alone:
  assumes "sr_config s = cfg"
  shows "run_alone (job_next L H \<pi>) (job_left H cfg (Arrived rq)) (Arrived rq) s w =
    (let (x, s', w') = Handler L H \<pi> rq s w in (Answered rq x, s', w'))"
proof -
  have n: "job_left H cfg (Arrived rq) = Suc (10 + 11 * batch_size H cfg rq)" by simp
  have first: "run_alone (job_next L H \<pi>) (Suc m) (Arrived rq) s w = run_out L H \<pi> m (job_next L H \<pi> (Arrived rq) s w)" for m
    by (simp add: run_out_def split_beta del: job_next.simps)
  show ?thesis
  proof (cases "route_request (rq_Method rq) (rq_Path rq)")
    case (Matched ep b)
    then show ?thesis unfolding n first Handler_to_job
      using start_alone [of H s rq "10 + 11 * batch_size H cfg rq" L \<pi> ep b w] assms by (simp add: serve_mux_def)
  qed (simp_all only: n first Handler_to_job job_next.simps routing.case run_out_settled settled_to_job)
qed

end
