(* ===== verification/HttpConcurrency.thy ===== *)
theory HttpConcurrency
  imports HttpThreads "HOL-Library.Word"
begin

text \<open>
  The gateway under load keeps its invariant, and every request is answered. \<open>gateway_inv\<close> is the invariant of the
  shared server, \<open>job_ok\<close> what a request relies on between two of its steps. \<open>safe\<close> says that a step keeps both and
  that a counter moves only with the answer that reports it.
\<close>

section \<open>The invariant\<close>

definition counters_ok :: "Metrics \<Rightarrow> bool" where
  "counters_ok m \<longleftrightarrow> wrap64 (mt_Accepted m) = mt_Accepted m \<and> wrap64 (mt_DeadLettered m) = mt_DeadLettered m \<and>
     mt_Rejected m = 0 \<and> mt_ReplaySucceeded m = 0"

definition gateway_inv :: "golib \<Rightarrow> Config \<Rightarrow> Server \<Rightarrow> bool" where
  "gateway_inv L cfg s \<longleftrightarrow> sr_config s = cfg \<and> config_ok cfg \<and> registry_inv L (sr_repo s) \<and> sv_inv L (sr_ingestion s) \<and>
     counters_ok (sr_metrics s)"

text \<open>The stored events and a page fit in 64 bits.\<close>

definition roomy :: "Server \<Rightarrow> bool" where
  "roomy s \<longleftrightarrow> int (length (sv_events (sr_ingestion s))) + 500 \<le> MaxInt64"

definition is_ingest :: "Request \<Rightarrow> bool" where
  "is_ingest rq \<longleftrightarrow> (\<exists>b. route_request (rq_Method rq) (rq_Path rq) = Matched IngestEP b)"

fun job_ok :: "golib \<Rightarrow> Server \<Rightarrow> job \<Rightarrow> bool" where
  "job_ok L s (Arrived rq) = True"
| "job_ok L s (Ingesting rq rid p) = (is_ingest rq \<and> publication_ok L p)"
| "job_ok L s (Counting rq rid receipt) = is_ingest rq"
| "job_ok L s (Replaying_letter rq rid t) = (\<not> is_ingest rq \<and> thread_ok L (sr_ingestion s) t)"
| "job_ok L s (Batch_replay rq rid tenant actor lid ids done t) = (\<not> is_ingest rq \<and> thread_ok L (sr_ingestion s) t)"
| "job_ok L s (Writing rq rid ch t) = (\<not> is_ingest rq \<and> writer_ok L (sr_repo s) t \<and> (\<forall>r. t = Written r \<longrightarrow> \<not> is_panic r))"
| "job_ok L s (Answered rq x) = (wf_response x \<and> (hr_Status x = 500 \<longrightarrow> \<not> roomy s))"
| "job_ok L s (Batch rq rid tenant actor ids done) = (\<not> is_ingest rq)"
| "job_ok L s (Rules_read rq rid cid rules) = (\<not> is_ingest rq)"
| "job_ok L s (Activated rq rid cid version) = (\<not> is_ingest rq)"
| "job_ok L s (Event_read rq rid event receipt) = (\<not> is_ingest rq)"
| "job_ok L s (Metrics_read rq accepted) = (\<not> is_ingest rq)"

text \<open>Letters, contracts and events are never removed.\<close>

definition grows :: "Server \<Rightarrow> Server \<Rightarrow> bool" where
  "grows s s' \<longleftrightarrow> (\<forall>k. map_of (sv_letters (sr_ingestion s)) k \<noteq> None \<longrightarrow> map_of (sv_letters (sr_ingestion s')) k \<noteq> None) \<and>
     (\<forall>k. map_of (mc_values (sr_repo s)) k \<noteq> None \<longrightarrow> map_of (mc_values (sr_repo s')) k \<noteq> None) \<and>
     length (sv_events (sr_ingestion s)) \<le> length (sv_events (sr_ingestion s'))"

lemma grows_refl [simp]: "grows s s"
  by (simp add: grows_def)

lemma job_ok_grows: "grows s s' \<Longrightarrow> job_ok L s t \<Longrightarrow> job_ok L s' t"
proof (cases t)
  case (Replaying_letter rq rid u)
  then show "grows s s' \<Longrightarrow> job_ok L s t \<Longrightarrow> ?thesis"
    using thread_ok_mono [of "sr_ingestion s" "sr_ingestion s'" L u] by (auto simp: grows_def)
next
  case (Batch_replay rq rid tenant actor lid ids out u)
  then show "grows s s' \<Longrightarrow> job_ok L s t \<Longrightarrow> ?thesis"
    using thread_ok_mono [of "sr_ingestion s" "sr_ingestion s'" L u] by (auto simp: grows_def)
next
  case (Writing rq rid ch u)
  then show "grows s s' \<Longrightarrow> job_ok L s t \<Longrightarrow> ?thesis"
    using writer_ok_mono [of "sr_repo s" "sr_repo s'" L u] by (auto simp: grows_def)
qed (auto simp: roomy_def grows_def)

text \<open>The receipt that the answer to an ingestion request shows.\<close>

fun job_receipt :: "job \<Rightarrow> Receipt option" where
  "job_receipt (Answered rq x) = ingest_receipt (rq, x)"
| "job_receipt _ = None"

definition safe :: "golib \<Rightarrow> Config \<Rightarrow> Server \<Rightarrow> job_outcome \<Rightarrow> bool" where
  "safe L cfg s out \<longleftrightarrow> (case out of (t, s', w') \<Rightarrow> gateway_inv L cfg s' \<and> grows s s' \<and> job_ok L s' t \<and>
     sr_metrics s' = (case job_receipt t of None \<Rightarrow> sr_metrics s | Some r \<Rightarrow> count_receipt r (sr_metrics s)))"

section \<open>Rules for a step\<close>

lemma receipt_none: "\<not> is_ingest rq \<Longrightarrow> ingest_receipt (rq, x) = None"
  by (auto simp: ingest_receipt_def is_ingest_def split: routing.splits endpoint.splits)

lemma receipt_Fail: "ingest_receipt (rq, fst (Fail st rid c m det w)) = None"
  by (simp add: ingest_receipt_def split: routing.splits endpoint.splits)

text \<open>A change of the server that a step may make, apart from the counters.\<close>

definition changes :: "golib \<Rightarrow> Config \<Rightarrow> Server \<Rightarrow> Server \<Rightarrow> bool" where
  "changes L cfg s s' \<longleftrightarrow> gateway_inv L cfg s' \<and> grows s s' \<and> sr_metrics s' = sr_metrics s"

lemma changes_refl: "gateway_inv L cfg s \<Longrightarrow> changes L cfg s s"
  by (simp add: changes_def)

lemma safe_go: "changes L cfg s s' \<Longrightarrow> job_receipt t = None \<Longrightarrow> job_ok L s' t \<Longrightarrow> safe L cfg s (t, s', w)"
  by (simp add: safe_def changes_def)

lemma safe_answer:
  assumes "changes L cfg s s'" and "\<not> is_ingest rq" and "wf_response (fst xw)" and "hr_Status (fst xw) \<noteq> 500"
  shows "safe L cfg s (answer rq xw s')"
  using assms by (simp add: answer_def safe_def changes_def receipt_none)

lemma safe_Fail:
  assumes "changes L cfg s s'" and "400 \<le> st" and "st \<noteq> 500"
  shows "safe L cfg s (answer rq (Fail st rid c m det w) s')"
  using assms by (simp add: answer_def safe_def changes_def receipt_Fail wf_Fail)

lemma safe_recover:
  assumes "changes L cfg s s'" and "\<not> roomy s'"
  shows "safe L cfg s (recover_job H rq e s' w)"
  using assms by (simp add: recover_job_def answer_def safe_def changes_def receipt_Fail wf_Fail split: prod.splits)

lemma safe_fail:
  assumes "changes L cfg s s'" and "\<forall>m. e \<noteq> Panic m" and "400 \<le> st" and "st \<noteq> 500"
  shows "safe L cfg s (fail_job H rq e st rid code s' w)"
  using assms by (simp add: fail_job_def safe_Fail)

lemma safe_finish:
  assumes "changes L cfg s s'" and "\<not> is_ingest rq" and "\<not> is_panic r" and "\<And>e. 400 \<le> st e \<and> st e \<noteq> 500"
    and "\<And>v. wf_response (fst (ok v w)) \<and> hr_Status (fst (ok v w)) \<noteq> 500"
  shows "safe L cfg s (finish_job H rq r st rid code ok s' w)"
proof (cases r)
  case (Inl e)
  then show ?thesis using safe_fail [OF assms(1)] assms(3,4) by (simp add: finish_job_def)
next
  case (Inr v)
  then show ?thesis using safe_answer [OF assms(1,2)] assms(5) by (simp add: finish_job_def)
qed

lemma safe_tenant:
  assumes "gateway_inv L cfg s" and "\<And>t. safe L cfg s (k t)"
  shows "safe L cfg s (tenant_job H rq rid s w k)"
  using assms changes_refl [OF assms(1)] by (auto simp: tenant_job_def intro!: safe_Fail split: sum.splits)

lemma safe_body:
  assumes "gateway_inv L cfg s" and "\<And>v. safe L cfg s (k v)"
  shows "safe L cfg s (body_job H dec rq rid s w k)"
  using assms changes_refl [OF assms(1)] by (auto simp: body_job_def intro!: safe_Fail split: sum.splits)

text \<open>A change of one of the two services.\<close>

lemma changes_ingestion:
  assumes "gateway_inv L cfg s" and "sv_inv L ing" and "length (sv_events (sr_ingestion s)) \<le> length (sv_events ing)"
    and "\<forall>k. map_of (sv_letters (sr_ingestion s)) k \<noteq> None \<longrightarrow> map_of (sv_letters ing) k \<noteq> None"
  shows "changes L cfg s (s\<lparr>sr_ingestion := ing\<rparr>)"
  using assms by (simp add: changes_def gateway_inv_def grows_def)

lemma changes_repo:
  assumes "gateway_inv L cfg s" and "registry_inv L repo"
    and "\<forall>k. map_of (mc_values (sr_repo s)) k \<noteq> None \<longrightarrow> map_of (mc_values repo) k \<noteq> None"
  shows "changes L cfg s (s\<lparr>sr_repo := repo\<rparr>)"
  using assms by (simp add: changes_def gateway_inv_def grows_def)

lemma wrap64_idem: "wrap64 (wrap64 x) = wrap64 x"
  using wrap64_range [of x] by simp

lemma length_put: "length m \<le> length (put k v m)"
  by (induction m) (simp_all add: put_Nil put_Cons)

section \<open>The steps of the services\<close>

lemma publication_step_events:
  assumes "publication_step L contracts p s w = (p', s', w')"
  shows "length (sv_events s) \<le> length (sv_events s')"
proof (cases p)
  case (Admit e start)
  obtain q s1 where con: "consumeQuota (ev_TenantID e) start s = (q, s1)" by fastforce
  with Admit consumeQuota_keeps(2) [OF con] assms show ?thesis
    by (cases q) (auto simp: publish_admit_def split: option.splits)
next
  case (Commit e reasons r a)
  then have "s' = fst (publish_commit e reasons r a s w)" using assms by (auto split: prod.splits)
  then show ?thesis by (simp add: publish_commit_maps length_put)
qed (use assms in \<open>auto split: prod.splits sum.splits\<close>)

lemma thread_next_events:
  assumes "thread_next L contracts t s w = (t', s', w')"
  shows "length (sv_events s) \<le> length (sv_events s')"
proof (cases t)
  case (Replay_begin lid actor)
  then show ?thesis using assms
    by (auto simp: replay_begin_def now_def new_id_def Let_def split: option.splits prod.splits bool.splits)
next
  case (Replay_publish lid actor p)
  show ?thesis
  proof (cases "steps_left p = 0")
    case True
    then show ?thesis using assms Replay_publish
      by (auto simp: steps_left_0 replay_end_def now_def Let_def split: if_splits)
  next
    case False
    then show ?thesis using assms Replay_publish thread_next_inner [OF False] publication_step_events
      by (auto split: prod.splits)
  qed
qed (use assms publication_step_events in \<open>auto split: prod.splits\<close>)

lemma changes_publication:
  assumes "gateway_inv L cfg s" and "publication_ok L p" and "publication_step L contracts p (sr_ingestion s) w = (p', ing, w')"
  shows "changes L cfg s (s\<lparr>sr_ingestion := ing\<rparr>) \<and> publication_ok L p'"
proof -
  have "sv_inv L (sr_ingestion s)" using assms(1) by (simp add: gateway_inv_def)
  from publication_step_inv [OF this assms(2,3)] publication_step_letters [OF assms(3)] publication_step_events [OF assms(3)]
  show ?thesis using changes_ingestion [OF assms(1)] by blast
qed

lemma changes_thread:
  assumes "gateway_inv L cfg s" and "thread_ok L (sr_ingestion s) t" and "thread_next L contracts t (sr_ingestion s) w = (t', ing, w')"
  shows "changes L cfg s (s\<lparr>sr_ingestion := ing\<rparr>) \<and> thread_ok L ing t'"
proof -
  have "sv_inv L (sr_ingestion s)" using assms(1) by (simp add: gateway_inv_def)
  from thread_next_inv [OF this assms(2,3)] thread_next_events [OF assms(3)]
  show ?thesis using changes_ingestion [OF assms(1)] by blast
qed

lemma writer_next_np:
  assumes "writer_next L \<pi> t s w = (t', s', w')" and "\<And>r. t = Written r \<Longrightarrow> \<not> is_panic r"
  shows "t' = Written r \<Longrightarrow> \<not> is_panic r"
proof (cases t)
  case (Finding tenant cid ch)
  have "apply_change L \<pi> ch c u \<noteq> Inl (Panic m)" for c u m
    by (cases ch) (simp_all add: Contract_AddVersion_np Contract_Publish_np)
  then show "t' = Written r \<Longrightarrow> ?thesis" using assms(1) Finding Find_np by (auto simp: is_panic_iff now_def split: sum.splits)
next
  case (Saving v c)
  then show "t' = Written r \<Longrightarrow> ?thesis" using assms(1) Save_np by (fastforce simp: is_panic_iff split: sum.splits prod.splits)
qed (use assms in auto)

lemma changes_writer:
  assumes "gateway_inv L cfg s" and "writer_ok L (sr_repo s) t" and "writer_next L \<pi> t (sr_repo s) w = (t', repo, w')"
  shows "changes L cfg s (s\<lparr>sr_repo := repo\<rparr>) \<and> writer_ok L repo t'"
proof -
  have "registry_inv L (sr_repo s)" using assms(1) by (simp add: gateway_inv_def)
  from writer_next_inv [OF this assms(2,3)] show ?thesis using changes_repo [OF assms(1)] by blast
qed

lemma changes_policy:
  assumes "gateway_inv L cfg s"
  shows "SetRules L p cid rules (sr_ingestion s) w = (res1, ing, w') \<Longrightarrow> changes L cfg s (s\<lparr>sr_ingestion := ing\<rparr>)"
    and "ActivateRuleVersion cid v (sr_ingestion s) = (res2, ing) \<Longrightarrow> changes L cfg s (s\<lparr>sr_ingestion := ing\<rparr>)"
proof -
  have inv: "sv_inv L (sr_ingestion s)" using assms by (simp add: gateway_inv_def)
  have step: "changes L cfg s (s\<lparr>sr_ingestion := ing\<rparr>)"
    if "outside_step L (sr_ingestion s) ing" "sv_events ing = sv_events (sr_ingestion s)"
    using outside_step_inv [OF inv that(1)] that(2) by (intro changes_ingestion [OF assms]) simp_all
  show "SetRules L p cid rules (sr_ingestion s) w = (res1, ing, w') \<Longrightarrow> changes L cfg s (s\<lparr>sr_ingestion := ing\<rparr>)"
    by (rule step, erule outside_step.set_rules) (auto simp: SetRules_def now_def Let_def split: sum.splits prod.splits)
  show "ActivateRuleVersion cid v (sr_ingestion s) = (res2, ing) \<Longrightarrow> changes L cfg s (s\<lparr>sr_ingestion := ing\<rparr>)"
    by (rule step, erule outside_step.activate) (auto simp: ActivateRuleVersion_def split: sum.splits prod.splits)
qed

lemma changes_register:
  assumes "gateway_inv L cfg s" and "Register memory_repository t cmd (sr_repo s) w = (res, repo, w')"
  shows "changes L cfg s (s\<lparr>sr_repo := repo\<rparr>)"
proof -
  have "registry_inv L (sr_repo s)" using assms(1) by (simp add: gateway_inv_def)
  moreover have "registering (sr_repo s) repo" using assms(2) unfolding registering_def by blast
  ultimately show ?thesis using registering_inv changes_repo [OF assms(1)] by metis
qed

section \<open>Handlers of one section\<close>

text \<open>What a handler that is one step guarantees when it does not panic.\<close>

definition calm :: "golib \<Rightarrow> Config \<Rightarrow> Server \<Rightarrow> Response \<Rightarrow> Server \<Rightarrow> bool" where
  "calm L cfg s x s' \<longleftrightarrow> hr_Status x \<noteq> 500 \<and> changes L cfg s s'"

lemma calm_JSON: "calm L cfg s (fst (JSON st rid d w)) s' \<longleftrightarrow> st \<noteq> 500 \<and> changes L cfg s s'"
  and calm_Fail: "calm L cfg s (fst (Fail st rid c m det w)) s' \<longleftrightarrow> st \<noteq> 500 \<and> changes L cfg s s'"
  and calm_text: "calm L cfg s (text_response st ct t) s' \<longleftrightarrow> st \<noteq> 500 \<and> changes L cfg s s'"
  by (simp_all add: calm_def)

lemmas calm_simps = calm_JSON calm_Fail calm_text

definition one_section :: "endpoint \<Rightarrow> bool" where
  "one_section ep \<longleftrightarrow> ep \<notin> {IngestEP, AddVersionEP, PublishEP, GetRules, ActivateRules, GetEventEP, MetricsPage, ReplayEP, ReplayManyEP}"

lemma start_job_one_section: "one_section ep \<Longrightarrow> start_job L H \<pi> ep rq b s w = to_job H rq (serve_endpoint L H \<pi> ep rq b s w)"
  by (cases ep) (simp_all add: one_section_def start_defs)

lemma serve_endpoint_calm:
  assumes inv: "gateway_inv L cfg s" and "one_section ep" and "ep = ListEvents \<Longrightarrow> roomy s"
  shows "holds (calm L cfg s) (serve_endpoint L H \<pi> ep rq b s w)"
proof -
  have sv: "sv_inv L (sr_ingestion s)" using inv by (simp add: gateway_inv_def)
  note [simp] = calm_simps changes_refl [OF inv]
  show ?thesis
  proof (cases ep)
    case CreateContract
    then show ?thesis
      by (auto simp: createContract_def intro!: holds_rules split: prod.splits)
        (auto dest: Register_np changes_register [OF inv])
  next
    case SetRulesEP
    then show ?thesis
      by (auto simp: setRules_def intro!: holds_rules split: prod.splits)
        (auto dest: SetRules_np changes_policy(1) [OF inv])
  next
    case QualityDetailed
    then show ?thesis
      by (auto simp: qualityDetailed_def intro!: holds_rules split: prod.splits)
        (auto dest: EvaluateEvent_np [OF sv])
  next
    case ListEvents
    then show ?thesis using assms(3)
      by (auto simp: listEvents_def roomy_def FindEvents_np intro!: holds_rules split: prod.splits)
  next
    case GetContract
    then show ?thesis using Find_np
      by (auto simp: getContract_def Get_def is_panic_iff intro!: holds_rules split: prod.splits)
  qed (use assms(2) in \<open>auto simp: one_section_def healthz_def readyz_def compatibility_def lineage_def quality_def attempts_def
      eventSummary_def listLetters_def Check_np lookup_np intro!: holds_rules split: prod.splits\<close>)
qed

lemma safe_to_job:
  assumes "holds (calm L cfg s) out" and "yields (\<lambda>r s. \<forall>x. r = Inr x \<longrightarrow> wf_response x) out" and "\<not> is_ingest rq"
  shows "safe L cfg s (to_job H rq out)"
  using assms by (auto simp: holds_def yields_def to_job_def safe_def calm_def changes_def receipt_none)

lemma start_job_safe_one:
  assumes inv: "gateway_inv L cfg s" and one: "one_section ep" and route: "route_request (rq_Method rq) (rq_Path rq) = Matched ep b"
  shows "safe L cfg s (start_job L H \<pi> ep rq b s w)"
proof -
  have ni: "\<not> is_ingest rq" using one route by (auto simp: is_ingest_def one_section_def)
  note wf = serve_endpoint_wf [of L H \<pi> ep rq b s w]
  show ?thesis
  proof (cases "ep = ListEvents \<and> \<not> roomy s")
    case False
    then show ?thesis using safe_to_job [OF serve_endpoint_calm [OF inv one] wf ni] by (simp add: start_job_one_section [OF one])
  next
    case True
    obtain r w' where out: "serve_endpoint L H \<pi> ep rq b s w = (r, s, w')"
      using True listEvents_state [of L H \<pi> rq b s w] by (cases "serve_endpoint L H \<pi> ep rq b s w") auto
    have st: "start_job L H \<pi> ep rq b s w = to_job H rq (r, s, w')" by (simp only: start_job_one_section [OF one] out)
    show ?thesis
    proof (cases r)
      case (Inl e)
      then show ?thesis unfolding st using safe_recover [OF changes_refl [OF inv]] True by (simp add: to_job_def)
    next
      case (Inr x)
      then show ?thesis unfolding st using wf [unfolded out] inv True ni by (simp add: to_job_def safe_def yields_def receipt_none)
    qed
  qed
qed

section \<open>Every step is safe\<close>

lemma start_job_safe:
  assumes inv: "gateway_inv L cfg s" and route: "route_request (rq_Method rq) (rq_Path rq) = Matched ep b"
  shows "safe L cfg s (start_job L H \<pi> ep rq b s w)"
proof (cases "one_section ep")
  case True
  then show ?thesis by (rule start_job_safe_one [OF inv _ route])
next
  case False
  note refl = changes_refl [OF inv]
  have ing: "is_ingest rq \<longleftrightarrow> ep = IngestEP" using route by (auto simp: is_ingest_def)
  note rules = safe_tenant [OF inv] safe_body [OF inv] safe_Fail safe_go
  show ?thesis
  proof (cases ep)
    case ActivateRules
    have "safe L cfg s (case r of
        Inl e \<Rightarrow> fail_job H rq e 422 rid c (s\<lparr>sr_ingestion := ing'\<rparr>) w1
      | Inr _ \<Rightarrow> (Activated rq rid cid v, s\<lparr>sr_ingestion := ing'\<rparr>, w1))"
      if a: "ActivateRuleVersion cid v (sr_ingestion s) = (r, ing')" for r ing' cid v rid c w1
      using changes_policy(2) [OF inv a] Activate_np [OF a] ing ActivateRules by (cases r) (auto intro: safe_fail safe_go)
    then show ?thesis using ActivateRules refl
      by (auto simp: start_defs Let_def intro!: rules split: prod.splits option.splits)
  next
    case GetEventEP
    have "safe L cfg s (case g of Inl e \<Rightarrow> fail_job H rq e 404 rid c s w1 | Inr (event, receipt) \<Rightarrow> (Event_read rq rid event receipt, s, w1))"
      if "\<not> is_panic g" for g rid c w1
      using that refl ing GetEventEP by (cases g) (auto intro: safe_fail safe_go)
    then show ?thesis using GetEventEP lookup_np(3)
      by (auto simp: start_defs intro!: safe_tenant [OF inv] split: prod.splits)
  qed (use False refl ing in \<open>auto simp: start_defs one_section_def Let_def intro!: rules split: prod.splits option.splits\<close>)
qed

lemma write_answer_safe:
  assumes "changes L cfg s s'" and "\<not> is_ingest rq" and "\<not> is_panic r"
  shows "safe L cfg s (write_answer H rq rid ch r s' w)"
  by (cases ch) (auto intro!: safe_finish assms simp: wf_JSON simp del: is_panic_Inl split: if_splits)

lemma job_next_safe:
  assumes inv: "gateway_inv L cfg s" and ok: "job_ok L s t" and left: "job_left H cfg t \<noteq> 0"
  shows "safe L cfg s (job_next L H \<pi> t s w)"
proof (cases t)
  case (Arrived rq)
  show ?thesis
  proof (cases "route_request (rq_Method rq) (rq_Path rq)")
    case (Matched ep b)
    then show ?thesis using start_job_safe [OF inv Matched] Arrived by simp
  qed (use Arrived inv in \<open>auto simp: serve_mux_def to_job_simps is_ingest_def wf_text intro!: safe_answer changes_refl\<close>)
next
  case (Ingesting rq rid p)
  show ?thesis
  proof (cases "steps_left p = 0")
    case True
    then obtain r where "p = Done r" by (auto simp: steps_left_0)
    then show ?thesis using ok Ingesting changes_refl [OF inv] by (cases r) (auto intro: safe_fail safe_go)
  next
    case False
    obtain p' ing w' where st: "publication_step L (Find (sr_repo s)) p (sr_ingestion s) w = (p', ing, w')" by (metis prod_cases3)
    then show ?thesis using changes_publication [OF inv _ st] ok Ingesting
      by (simp add: Ingesting_next [OF False] del: job_next.simps) (auto intro: safe_go)
  qed
next
  case (Counting rq rid receipt)
  then obtain b where "route_request (rq_Method rq) (rq_Path rq) = Matched IngestEP b" using ok by (auto simp: is_ingest_def)
  then have "ingest_receipt (rq, fst (JSON 202 rid (DReceipt receipt) w)) = Some receipt" by (simp add: ingest_receipt_def)
  moreover have "counters_ok (count_receipt receipt (sr_metrics s))"
    using inv by (simp add: gateway_inv_def counters_ok_def count_receipt_def wrap64_idem)
  ultimately show ?thesis using inv Counting
    by (simp add: answer_def safe_def gateway_inv_def grows_def wf_JSON)
next
  case (Replaying_letter rq rid u)
  show ?thesis
  proof (cases "thread_result u")
    case None
    obtain u' ing w' where st: "thread_next L (Find (sr_repo s)) u (sr_ingestion s) w = (u', ing, w')" by (metis prod_cases3)
    then show ?thesis using changes_thread [OF inv _ st] ok Replaying_letter None by (auto intro: safe_go)
  next
    case (Some r)
    then have "\<not> is_panic r" using ok Replaying_letter by (cases u rule: thread_result.cases) auto
    then show ?thesis using ok Replaying_letter Some changes_refl [OF inv] by (auto intro!: safe_finish simp: wf_JSON simp del: is_panic_Inl)
  qed
next
  case (Batch rq rid tenant actor ids out)
  then show ?thesis using ok changes_refl [OF inv]
    by (cases ids) (auto intro!: safe_answer intro: safe_go simp: wf_JSON split: option.splits)
next
  case (Batch_replay rq rid tenant actor lid ids out u)
  show ?thesis
  proof (cases "thread_result u")
    case None
    obtain u' ing w' where st: "thread_next L (Find (sr_repo s)) u (sr_ingestion s) w = (u', ing, w')" by (metis prod_cases3)
    then show ?thesis using changes_thread [OF inv _ st] ok Batch_replay None by (auto intro: safe_go)
  next
    case (Some r)
    then have "\<not> is_panic r" using ok Batch_replay by (cases u rule: thread_result.cases) auto
    then show ?thesis using ok Batch_replay Some changes_refl [OF inv] by (auto intro: safe_go simp del: is_panic_Inl)
  qed
next
  case (Writing rq rid ch u)
  show ?thesis
  proof (cases "writer_left u = 0")
    case True
    then obtain r where "u = Written r" by (auto simp: writer_left_0)
    then show ?thesis using ok Writing write_answer_safe [OF changes_refl [OF inv]] by simp
  next
    case False
    obtain u' repo w' where st: "writer_next L \<pi> u (sr_repo s) w = (u', repo, w')" by (metis prod_cases3)
    then show ?thesis using changes_writer [OF inv _ st] writer_next_np [OF st] ok Writing
      by (simp add: Writing_next [OF False] del: job_next.simps) (auto intro!: safe_go)
  qed
qed (use ok left changes_refl [OF inv] in \<open>auto intro!: safe_answer simp: wf_JSON wf_text\<close>)

section \<open>Steps are bounded\<close>

definition below :: "httplib \<Rightarrow> Config \<Rightarrow> nat \<Rightarrow> job_outcome \<Rightarrow> bool" where
  "below H cfg n out \<longleftrightarrow> job_left H cfg (fst out) < n"

lemma below_settled [simp]: "settled out \<Longrightarrow> 0 < n \<Longrightarrow> below H cfg n out"
  by (auto simp: settled_def below_def)

lemma below_job [simp]: "below H cfg n (t, s, w) \<longleftrightarrow> job_left H cfg t < n"
  by (simp add: below_def)

lemma below_tenant: "0 < n \<Longrightarrow> (\<And>t. below H cfg n (k t)) \<Longrightarrow> below H cfg n (tenant_job H rq rid s w k)"
  by (simp add: tenant_job_def split: sum.splits)

lemma below_body:
  "0 < n \<Longrightarrow> (\<And>v. Decode dec (rq_Body rq) (cf_MaxBodyBytes (sr_config s)) = Inr v \<Longrightarrow> below H cfg n (k v)) \<Longrightarrow>
   below H cfg n (body_job H dec rq rid s w k)"
  by (simp add: body_job_def split: sum.splits)

lemma start_job_below:
  assumes "sr_config s = cfg"
  shows "below H cfg (11 + 11 * batch_size H cfg rq) (start_job L H \<pi> ep rq b s w)"
proof (cases ep)
  case ReplayManyEP
  have "length (rp_LetterIDs req) = batch_size H cfg rq"
    if "Decode (hl_replay H) (rq_Body rq) (cf_MaxBodyBytes (sr_config s)) = Inr req" for req
    using that assms by (simp add: batch_size_def)
  then show ?thesis using ReplayManyEP by (auto simp: start_defs Let_def intro!: below_tenant below_body split: prod.splits)
qed (auto simp: start_defs Let_def intro!: below_tenant below_body split: prod.splits option.splits sum.splits)

lemma job_next_less:
  assumes "job_next L H \<pi> t s w = (t', s', w')" and "sr_config s = cfg" and left: "job_left H cfg t \<noteq> 0"
  shows "job_left H cfg t' < job_left H cfg t"
proof -
  have "below H cfg (job_left H cfg t) (job_next L H \<pi> t s w)"
  proof (cases t)
    case (Arrived rq)
    then show ?thesis using start_job_below [OF assms(2), of H rq L \<pi> _ _ w] by (auto split: routing.splits)
  next
    case (Ingesting rq rid p)
    show ?thesis
    proof (cases "steps_left p = 0")
      case True
      then obtain r where "p = Done r" by (auto simp: steps_left_0)
      then show ?thesis using Ingesting by (cases r) auto
    next
      case False
      then show ?thesis using Ingesting publication_step_less
        by (auto simp add: Ingesting_next simp del: job_next.simps split: prod.splits)
    qed
  next
    case (Replaying_letter rq rid u)
    then show ?thesis using thread_next_less thread_left_0 [of u] by (auto split: option.splits prod.splits)
  next
    case (Batch rq rid tenant actor ids out)
    then show ?thesis by (cases ids) (auto split: option.splits)
  next
    case (Batch_replay rq rid tenant actor lid ids out u)
    then show ?thesis using thread_next_less thread_left_0 [of u] by (auto split: option.splits prod.splits)
  next
    case (Writing rq rid ch u)
    show ?thesis
    proof (cases "writer_left u = 0")
      case False
      then show ?thesis using Writing writer_next_less
        by (auto simp add: Writing_next simp del: job_next.simps split: prod.splits)
    qed (use Writing in \<open>auto simp: writer_left_0\<close>)
  qed (use left in simp_all)
  then show ?thesis using assms(1) by simp
qed

lemma job_run_safe:
  "gateway_inv L cfg s \<Longrightarrow> job_ok L s t \<Longrightarrow> job_run L H cfg t s t' s' \<Longrightarrow> gateway_inv L cfg s' \<and> grows s s' \<and> job_ok L s' t' \<and>
     sr_metrics s' = (case job_receipt t' of None \<Rightarrow> sr_metrics s | Some r \<Rightarrow> count_receipt r (sr_metrics s))"
proof -
  assume h: "gateway_inv L cfg s" "job_ok L s t" "job_run L H cfg t s t' s'"
  then obtain \<pi> w w' where "job_next L H \<pi> t s w = (t', s', w')" "job_left H cfg t \<noteq> 0" by (auto simp: job_run_def)
  then show ?thesis using job_next_safe [OF h(1,2), of H \<pi> w] by (simp add: safe_def)
qed

text \<open>What a response adds to one of the two counters.\<close>

definition credit :: "bool \<Rightarrow> job \<Rightarrow> 64 word" where
  "credit accepted t = (case job_receipt t of None \<Rightarrow> 0 | Some r \<Rightarrow> if (rp_Status r = Accepted) = accepted then 1 else 0)"

definition counter :: "bool \<Rightarrow> Server \<Rightarrow> 64 word" where
  "counter accepted s = word_of_int (if accepted then mt_Accepted (sr_metrics s) else mt_DeadLettered (sr_metrics s))"

lemma word_of_wrap64: "(word_of_int (wrap64 x) :: 64 word) = word_of_int x"
proof -
  have "take_bit 64 (wrap64 x) = take_bit 64 x" by (simp add: wrap64_def take_bit_eq_mod mod_simps)
  then show ?thesis by (simp add: word_of_int_eq_iff)
qed

lemma job_run_credit:
  assumes "gateway_inv L cfg s" and "job_ok L s t" and "job_run L H cfg t s t' s'"
  shows "counter a s' = counter a s + credit a t' - credit a t"
proof -
  have "job_receipt t = None" using assms(3) by (cases t) (auto simp: job_run_def)
  then show ?thesis using job_run_safe [OF assms]
    by (cases "job_receipt t'") (auto simp: credit_def counter_def count_receipt_def word_of_wrap64)
qed

interpretation http: interleaving "job_run L H cfg" "\<lambda>_ _. False" job_fresh "job_left H cfg" "gateway_inv L cfg" "job_ok L" for L H cfg
proof unfold_locales
  fix s s' t t' u
  show "gateway_inv L cfg s \<Longrightarrow> job_ok L s t \<Longrightarrow> job_run L H cfg t s t' s' \<Longrightarrow> gateway_inv L cfg s' \<and> job_ok L s' t'"
    using job_run_safe by blast
  show "gateway_inv L cfg s \<Longrightarrow> job_ok L s t \<Longrightarrow> job_run L H cfg t s t' s' \<Longrightarrow> job_ok L s u \<Longrightarrow> job_ok L s' u"
    using job_run_safe job_ok_grows by blast
  show "job_fresh t \<Longrightarrow> job_ok L s t" by (cases t) auto
  show "job_run L H cfg t s t' s' \<Longrightarrow> job_left H cfg t' < job_left H cfg t" using job_next_less by (auto simp: job_run_def)
  show "gateway_inv L cfg s \<Longrightarrow> job_left H cfg t \<noteq> 0 \<Longrightarrow> \<exists>t' s'. job_run L H cfg t s t' s'"
    unfolding job_run_def gateway_inv_def by (metis prod_cases3)
qed auto

interpretation count: tallying "job_run L H cfg" "\<lambda>_ _. False" job_fresh "job_left H cfg" "gateway_inv L cfg" "job_ok L"
  "counter a" "credit a" for L H cfg a
proof unfold_locales
  fix s s' t t'
  show "gateway_inv L cfg s \<Longrightarrow> job_ok L s t \<Longrightarrow> job_run L H cfg t s t' s' \<Longrightarrow> counter a s' = counter a s + credit a t' - credit a t"
    by (rule job_run_credit)
  show "job_fresh t \<Longrightarrow> credit a t = 0" by (cases t) (auto simp: credit_def)
qed auto

section \<open>A gateway that has started\<close>

lemma gateway_boot_ready:
  assumes "gateway_boot E w = (Inr s, w')"
  shows "gateway_inv L (sr_config s) s" "counter a s = 0"
proof -
  have inv: "server_inv L s" by (rule gateway_boot_inv [OF assms])
  have m: "mt_Accepted (sr_metrics s) = 0" "mt_DeadLettered (sr_metrics s) = 0" "mt_Rejected (sr_metrics s) = 0" "mt_ReplaySucceeded (sr_metrics s) = 0"
    using assms by (auto simp: gateway_boot_def NewServer_def NewMetrics_def now_def Let_def split: sum.splits)
  have "registry_inv L (sr_repo s)"
    using registry_reach_inv [OF server_inv_reg [OF inv]] by (simp add: registry_inv_def)
  then show "gateway_inv L (sr_config s) s"
    using inv server_inv_sv [OF inv] m by (simp add: gateway_inv_def server_inv_def counters_ok_def)
  show "counter a s = 0" by (simp add: counter_def m)
qed

text \<open>The requests that were answered, with their responses.\<close>

fun job_exchange :: "job \<Rightarrow> (Request \<times> Response) list" where
  "job_exchange (Answered rq x) = [(rq, x)]"
| "job_exchange _ = []"

definition exchanges :: "job list \<Rightarrow> (Request \<times> Response) list" where
  "exchanges ts = concat (map job_exchange ts)"

lemma credit_answered: "sum_list (map (credit a) ts) = word_of_int (answered (\<lambda>r. (rp_Status r = Accepted) = a) (exchanges ts))"
proof (induction ts)
  case Nil
  then show ?case by (simp add: exchanges_def answered_def)
next
  case (Cons t ts)
  then show ?case
    by (cases t) (auto simp: exchanges_def answered_def credit_def split: option.splits)
qed

lemma wrap64_cong: "(word_of_int x :: 64 word) = word_of_int y \<Longrightarrow> wrap64 x = wrap64 y"
proof -
  assume "(word_of_int x :: 64 word) = word_of_int y"
  then have "x mod 2 ^ 64 = y mod 2 ^ 64" by (simp add: word_of_int_eq_iff take_bit_eq_mod)
  then have "(x + 2 ^ 63) mod 2 ^ 64 = (y + 2 ^ 63) mod 2 ^ 64" by (metis mod_add_left_eq)
  then show ?thesis by (simp add: wrap64_def)
qed

text \<open>Requests one by one are a run of the system.\<close>

lemma alone_reach:
  assumes "gateway_inv L cfg s" and "job_ok L s t"
  shows "run_alone (job_next L H \<pi>) n t s w = (t', s', w') \<Longrightarrow> (http_system L H cfg)\<^sup>*\<^sup>* ([t], s) ([t'], s')"
  using assms
proof (induction n arbitrary: t s w)
  case (Suc n)
  obtain t1 s1 w1 where st: "job_next L H \<pi> t s w = (t1, s1, w1)" by (metis prod_cases3)
  show ?case
  proof (cases "job_left H cfg t = 0")
    case True
    then obtain rq x where "t = Answered rq x" by (auto simp: job_left_0)
    then show ?thesis using Suc.prems(1) answered_alone [of L H \<pi> "Suc n" rq x s w] by simp
  next
    case False
    then have run: "job_run L H cfg t s t1 s1" using st Suc.prems(2) by (auto simp: job_run_def gateway_inv_def)
    then have "http_system L H cfg ([t], s) ([t1], s1)" using sys_step.thread [of 0 "[t]"] by simp
    moreover have "(http_system L H cfg)\<^sup>*\<^sup>* ([t1], s1) ([t'], s')"
      using Suc.IH [of t1 s1 w1] Suc.prems(1) st job_run_safe [OF Suc.prems(2,3) run] by simp
    ultimately show ?thesis by (rule converse_rtranclp_into_rtranclp)
  qed
qed simp

lemma request_reach:
  assumes "gateway_inv L cfg s" and "Handler L H \<pi> rq s w = (x, s', w')"
  shows "(http_system L H cfg)\<^sup>*\<^sup>* ([], s) ([Answered rq x], s')"
proof -
  have "(http_system L H cfg)\<^sup>*\<^sup>* ([], s) ([Arrived rq], s)" using spawn_all [of job_fresh "[Arrived rq]" _ _ "[]" s] by simp
  also have "(http_system L H cfg)\<^sup>*\<^sup>* ([Arrived rq], s) ([Answered rq x], s')"
  proof (rule alone_reach [OF assms(1)])
    show "run_alone (job_next L H \<pi>) (job_left H cfg (Arrived rq)) (Arrived rq) s w = (Answered rq x, s', w')"
      using request_alone [of s cfg L H \<pi> rq w] assms by (simp add: gateway_inv_def)
  qed simp
  finally show ?thesis .
qed

section \<open>Sample run\<close>

abbreviation demo_probe :: Request where
  "demo_probe \<equiv> demo_request ''GET'' [''healthz'']"

abbreviation demo_jobs :: "job list" where
  "demo_jobs \<equiv> [Answered demo_probe (fst (demo_outcome demo_probe))]"

lemma demo_jobs_reach: "(http_system demo_lib demo_http (sr_config demo_server))\<^sup>*\<^sup>* ([], demo_server) (demo_jobs, demo_server)"
proof -
  have "route_request ''GET'' [''healthz''] = Matched Healthz []" by code_simp
  then have "fst (snd (demo_outcome demo_probe)) = demo_server"
    by (simp add: Handler_state serve_mux_def healthz_def respond_def)
  then have "demo_outcome demo_probe = (fst (demo_outcome demo_probe), demo_server, snd (snd (demo_outcome demo_probe)))"
    by (simp add: prod_eq_iff)
  from request_reach [OF gateway_boot_ready(1) [OF demo_boot] this] show ?thesis .
qed

section \<open>Properties\<close>




text \<open>C15: the counters are exact under load: in every state of every interleaving the accepted counter is the number of ingestion
  requests that were answered with an accepted receipt and the dead-letter counter the number of those answered with another
  receipt, modulo 64 bits: no increment is lost. The counters of rejections and of successful replays never move.\<close>

theorem concurrent_metrics:
  assumes "gateway_boot E w = (Inr s0, w0)" and "(http_system L H (sr_config s0))\<^sup>*\<^sup>* ([], s0) (ts, s)"
  shows "mt_Accepted (sr_metrics s) = wrap64 (answered (\<lambda>r. rp_Status r = Accepted) (exchanges ts)) \<and>
    mt_DeadLettered (sr_metrics s) = wrap64 (answered (\<lambda>r. rp_Status r \<noteq> Accepted) (exchanges ts)) \<and>
    mt_Rejected (sr_metrics s) = 0 \<and> mt_ReplaySucceeded (sr_metrics s) = 0"
proof -
  note boot = gateway_boot_ready [OF assms(1)]
  have c: "counter a s = word_of_int (answered (\<lambda>r. (rp_Status r = Accepted) = a) (exchanges ts))" for a
    using count.tally_reach [OF boot(1) assms(2), of a] by (simp add: boot(2) credit_answered)
  have ok: "counters_ok (sr_metrics s)"
    using http.sys_inv_reach [OF boot(1) assms(2)] by (simp add: http.sys_inv_def gateway_inv_def)
  have "wrap64 (mt_Accepted (sr_metrics s)) = wrap64 (answered (\<lambda>r. rp_Status r = Accepted) (exchanges ts))"
    "wrap64 (mt_DeadLettered (sr_metrics s)) = wrap64 (answered (\<lambda>r. rp_Status r \<noteq> Accepted) (exchanges ts))"
    using c [of True] c [of False] by (auto simp: counter_def intro!: wrap64_cong)
  then show ?thesis using ok by (simp add: counters_ok_def)
qed

theorem concurrent_metrics_witness:
  "mt_Accepted (sr_metrics demo_server) = wrap64 (answered (\<lambda>r. rp_Status r = Accepted) (exchanges demo_jobs))"
  using concurrent_metrics [OF demo_boot demo_jobs_reach] by blast



end
