(* ===== verification/Simulation.thy ===== *)
theory Simulation
  imports Main
begin

text \<open>
  Refinement of a specification by a labelled transition system. \<open>trace\<close> is a run with the labels it shows, the latest
  last; the locale \<open>simulation\<close> relates the states of a specification and of an implementation so that every step of
  the implementation is a step of the specification with the same label, and concludes that every trace of the one is a
  trace of the other.
\<close>

inductive trace :: "('s \<Rightarrow> 'l \<Rightarrow> 's \<Rightarrow> bool) \<Rightarrow> 's \<Rightarrow> 'l list \<Rightarrow> 's \<Rightarrow> bool" for step s where
  start: "trace step s [] s"
| snoc: "trace step s ls s' \<Longrightarrow> step s' l s'' \<Longrightarrow> trace step s (ls @ [l]) s''"

lemma trace_mono:
  assumes "trace step s ls s'" and "\<And>s l s'. step s l s' \<Longrightarrow> step' s l s'"
  shows "trace step' s ls s'"
  using assms(1) by (induction rule: trace.induct) (auto intro: trace.intros assms(2))

text \<open>A trace without labels is a sequence of steps, and the other way round.\<close>

lemma rtranclp_trace:
  assumes "R\<^sup>*\<^sup>* s s'"
  shows "\<exists>ls. trace (\<lambda>s (_ :: unit) s'. R s s') s ls s'"
  using assms by (induction rule: rtranclp_induct) (auto intro: trace.intros)

lemma trace_rtranclp: "trace step s ls s' \<Longrightarrow> (\<lambda>s s'. \<exists>l. step s l s')\<^sup>*\<^sup>* s s'"
  by (induction rule: trace.induct) (auto intro: rtranclp.rtrancl_into_rtrancl)

locale simulation =
  fixes spec :: "'a \<Rightarrow> 'l \<Rightarrow> 'a \<Rightarrow> bool" and impl :: "'s \<Rightarrow> 'l \<Rightarrow> 's \<Rightarrow> bool" and rel :: "'a \<Rightarrow> 's \<Rightarrow> bool"
  assumes simulate: "rel a s \<Longrightarrow> impl s l s' \<Longrightarrow> \<exists>a'. spec a l a' \<and> rel a' s'"
begin

lemma trace_inclusion:
  assumes "rel a s" and "trace impl s ls s'"
  shows "\<exists>a'. trace spec a ls a' \<and> rel a' s'"
  using assms(2)
proof (induction rule: trace.induct)
  case start
  then show ?case using assms(1) by (blast intro: trace.start)
next
  case (snoc ls s' l s'')
  then obtain a' where "trace spec a ls a'" "rel a' s'" by blast
  with simulate [OF _ snoc.hyps(2)] show ?case by (blast intro: trace.snoc)
qed

end

end
