(* ===== verification/Ledger.thy ===== *)
theory Ledger
  imports Simulation IngestThreads
begin

text \<open>
  What the ingestion service promises, as an abstract specification: a ledger, the list of the entries that were ever
  committed, oldest first. \<open>ledger_publish\<close> answers a request from the ledger alone: it refuses it, repeats the receipt of the
  entry that has its key, or appends an entry. The maps of the service are views of the ledger
  (\<open>represents\<close>). Operations one after the other refine the ledger with its keys distinct; operations that interleave
  refine it with keys that may repeat.
\<close>

section \<open>The specification\<close>

record entry =
  en_event :: Event
  en_receipt :: Receipt
  en_attempt :: Attempt

type_synonym ledger = "entry list"

abbreviation en_key :: "entry \<Rightarrow> string" where
  "en_key x \<equiv> seen_key (en_event x)"

abbreviation en_id :: "entry \<Rightarrow> string" where
  "en_id x \<equiv> ev_ID (en_event x)"

definition latest :: "('a \<Rightarrow> bool) \<Rightarrow> 'a list \<Rightarrow> 'a option" where
  "latest P xs = find P (rev xs)"

text \<open>An entry is one processing of one event: its receipt and its attempt report the same outcome.\<close>

definition entry_ok :: "entry \<Rightarrow> bool" where
  "entry_ok x \<longleftrightarrow> (let e = en_event x; r = en_receipt x; a = en_attempt x in
     rp_EventID r = ev_ID e \<and> \<not> rp_Duplicate r \<and> rp_Status r = (if rp_Reasons r = [] then Accepted else DeadLettered) \<and>
     at_ID a = rp_AttemptID r \<and> at_EventID a = ev_ID e \<and> at_Status a = rp_Status r \<and> at_Reasons a = rp_Reasons r)"

text \<open>The event that is stored is the event of the request with the fields the gateway fills in.\<close>

definition same_request :: "Event \<Rightarrow> Event \<Rightarrow> bool" where
  "same_request e0 e \<longleftrightarrow> ev_TenantID e = ev_TenantID e0 \<and> ev_ContractID e = ev_ContractID e0 \<and>
     ev_SchemaVersion e = ev_SchemaVersion e0 \<and> ev_IdempotencyKey e = ev_IdempotencyKey e0 \<and>
     ev_PartitionKey e = ev_PartitionKey e0 \<and> ev_Payload e = ev_Payload e0 \<and> ev_Signature e = ev_Signature e0 \<and>
     (ev_ID e0 \<noteq> '''' \<longrightarrow> ev_ID e = ev_ID e0)"

inductive ledger_publish :: "Event \<Rightarrow> ledger \<Rightarrow> Receipt result \<Rightarrow> ledger \<Rightarrow> bool" where
  refused: "err = ErrIdempotencyKey \<or> err = ErrQuota \<Longrightarrow> ledger_publish e xs (Inl err) xs"
| repeated: "ev_IdempotencyKey e \<noteq> '''' \<Longrightarrow> latest (\<lambda>x. en_key x = seen_key e) xs = Some x \<Longrightarrow>
    ledger_publish e xs (Inr ((en_receipt x)\<lparr>rp_Duplicate := True\<rparr>)) xs"
| posted: "ev_IdempotencyKey e \<noteq> '''' \<Longrightarrow> seen_key e \<notin> en_key ` set xs \<Longrightarrow> same_request e (en_event x) \<Longrightarrow> entry_ok x \<Longrightarrow>
    ledger_publish e xs (Inr (en_receipt x)) (xs @ [x])"

text \<open>The calls a client sees, with their answers.\<close>

datatype call = Publish_call Event "Receipt result" | Replay_call string "Receipt result" | Administered

inductive ledger_call :: "ledger \<Rightarrow> call \<Rightarrow> ledger \<Rightarrow> bool" where
  publish: "ledger_publish e xs res ys \<Longrightarrow> ledger_call xs (Publish_call e res) ys"
| replay_refused: "err = ErrLetterNotFound \<or> err = ErrLetterReplay \<Longrightarrow> ledger_call xs (Replay_call lid (Inl err)) xs"
| replay: "x \<in> set xs \<Longrightarrow> rp_Status (en_receipt x) = DeadLettered \<Longrightarrow> latest (\<lambda>y. en_id y = en_id x) xs = Some y \<Longrightarrow>
    ledger_publish ((en_event y)\<lparr>ev_IdempotencyKey := key\<rparr>) xs res ys \<Longrightarrow> ledger_call xs (Replay_call lid res) ys"
| administer: "ledger_call xs Administered xs"

text \<open>What the queries of the service read, from the ledger.\<close>

definition ledger_attempts :: "ledger \<Rightarrow> string \<Rightarrow> Attempt list" where
  "ledger_attempts xs eid = map en_attempt (filter (\<lambda>x. en_id x = eid) xs)"

definition ledger_event :: "ledger \<Rightarrow> string \<Rightarrow> Event option" where
  "ledger_event xs eid = map_option en_event (latest (\<lambda>x. en_id x = eid) xs)"

definition ledger_receipt :: "ledger \<Rightarrow> string \<Rightarrow> Receipt option" where
  "ledger_receipt xs key = map_option en_receipt (latest (\<lambda>x. en_key x = key) xs)"

definition ledger_quality :: "ledger \<Rightarrow> string \<Rightarrow> string list result" where
  "ledger_quality xs eid = (case latest (\<lambda>x. en_id x = eid) xs of
       None \<Rightarrow> Inl ErrEventNotFound
     | Some x \<Rightarrow> Inr (rp_Reasons (en_receipt x)))"

text \<open>A dead letter tells of an entry that was dead-lettered, a lineage of the latest entry of its event.\<close>

definition letter_of :: "entry \<Rightarrow> Letter \<Rightarrow> bool" where
  "letter_of x l \<longleftrightarrow> rp_Status (en_receipt x) = DeadLettered \<and> l_EventID l = en_id x \<and> l_TenantID l = ev_TenantID (en_event x) \<and>
     l_Payload l = ev_Payload (en_event x) \<and> l_Reason l = hd (rp_Reasons (en_receipt x))"

definition lineage_of :: "entry \<Rightarrow> LineageRecord \<Rightarrow> bool" where
  "lineage_of x lr \<longleftrightarrow> lr_EventID lr = en_id x \<and> lr_ContractID lr = ev_ContractID (en_event x) \<and>
     map la_ID (lr_Attempts lr) = [rp_AttemptID (en_receipt x)] \<and>
     map la_Outcome (lr_Attempts lr) = [status_name (rp_Status (en_receipt x))] \<and>
     lr_ValidationSummary lr = (if rp_Reasons (en_receipt x) = [] then ''passed'' else ''failed: '' @ hd (rp_Reasons (en_receipt x)))"

definition represents :: "ledger \<Rightarrow> Service \<Rightarrow> bool" where
  "represents xs s \<longleftrightarrow> list_all entry_ok xs \<and>
     (\<forall>key. map_of (sv_seen s) key = ledger_receipt xs key) \<and>
     (\<forall>eid. map_of (sv_events s) eid = ledger_event xs eid) \<and>
     (\<forall>eid. map_of (sv_attempts s) eid = (if ledger_attempts xs eid = [] then None else Some (ledger_attempts xs eid))) \<and>
     (\<forall>lid l. map_of (sv_letters s) lid = Some l \<longrightarrow> (\<exists>x\<in>set xs. letter_of x l)) \<and>
     (\<forall>eid lr. map_of (sv_lineages s) eid = Some lr \<longrightarrow> (\<exists>x. latest (\<lambda>x. en_id x = eid) xs = Some x \<and> lineage_of x lr))"

section \<open>Views of a ledger that grows\<close>

lemma latest_simps [simp]: "latest P [] = None" "latest P (xs @ [x]) = (if P x then Some x else latest P xs)"
  by (simp_all add: latest_def)

lemma latest_SomeD: "latest P xs = Some x \<Longrightarrow> x \<in> set xs \<and> P x"
  by (auto simp: latest_def dest!: find_SomeD)

lemma latest_None: "latest P xs = None \<longleftrightarrow> (\<forall>x\<in>set xs. \<not> P x)"
  by (auto simp: latest_def find_None_iff)

lemma ledger_views_Nil [simp]: "ledger_attempts [] eid = []" "ledger_event [] eid = None" "ledger_receipt [] key = None"
  by (simp_all add: ledger_attempts_def ledger_event_def ledger_receipt_def)

lemma ledger_views_snoc [simp]:
  "ledger_attempts (xs @ [x]) eid = ledger_attempts xs eid @ (if en_id x = eid then [en_attempt x] else [])"
  "ledger_event (xs @ [x]) eid = (if en_id x = eid then Some (en_event x) else ledger_event xs eid)"
  "ledger_receipt (xs @ [x]) key = (if en_key x = key then Some (en_receipt x) else ledger_receipt xs key)"
  by (simp_all add: ledger_attempts_def ledger_event_def ledger_receipt_def)

lemma ledger_receipt_None: "ledger_receipt xs key = None \<longleftrightarrow> key \<notin> en_key ` set xs"
  by (auto simp: ledger_receipt_def latest_None)

lemma representsD:
  assumes "represents xs s"
  shows "map_of (sv_seen s) key = ledger_receipt xs key" "map_of (sv_events s) eid = ledger_event xs eid"
    "map_of (sv_letters s) lid = Some l \<Longrightarrow> \<exists>x\<in>set xs. letter_of x l" "attempts_of s eid = ledger_attempts xs eid"
    "x \<in> set xs \<Longrightarrow> entry_ok x"
proof -
  show "map_of (sv_letters s) lid = Some l \<Longrightarrow> \<exists>x\<in>set xs. letter_of x l" using assms unfolding represents_def by blast
qed (use assms in \<open>auto simp: represents_def attempts_of_def list_all_iff\<close>)

lemma represents_NewService: "represents [] (NewService secret maxQuota)"
  by (simp add: represents_def NewService_def)

lemma represents_cong:
  assumes "represents xs s" and "sv_seen s' = sv_seen s" "sv_events s' = sv_events s" "sv_attempts s' = sv_attempts s"
    and "\<forall>lid l. map_of (sv_letters s') lid = Some l \<longrightarrow> (\<exists>x\<in>set xs. letter_of x l)"
    and "\<forall>eid lr. map_of (sv_lineages s') eid = Some lr \<longrightarrow> map_of (sv_lineages s) eid = Some lr"
  shows "represents xs s'"
  using assms by (simp add: represents_def)

lemma represents_same:
  "represents xs s \<Longrightarrow> sv_seen s' = sv_seen s \<Longrightarrow> sv_events s' = sv_events s \<Longrightarrow> sv_attempts s' = sv_attempts s \<Longrightarrow>
   sv_letters s' = sv_letters s \<Longrightarrow> sv_lineages s' = sv_lineages s \<Longrightarrow> represents xs s'"
  by (rule represents_cong) (auto simp: represents_def)

text \<open>The commit of a publication appends an entry.\<close>

lemma represents_commit:
  assumes rep: "represents xs s" and ok: "entry_ok x" and reasons: "rp_Reasons (en_receipt x) = reasons"
  shows "represents (xs @ [x]) (fst (publish_commit (en_event x) reasons (en_receipt x) (en_attempt x) s w))"
proof -
  define s' where "s' = fst (publish_commit (en_event x) reasons (en_receipt x) (en_attempt x) s w)"
  obtain l w' where nl: "new_letter (en_event x) reasons w = (l, w')" by fastforce
  note m = publish_commit_maps [of "en_event x" reasons "en_receipt x" "en_attempt x" s w, folded s'_def, unfolded nl fst_conv]
  obtain lr where lin: "sv_lineages s' = put (en_id x) lr (sv_lineages s)" and lr: "lineage_of x lr"
    using publish_commit_lineage [of "en_event x" reasons "en_receipt x" "en_attempt x" s w, folded s'_def] ok reasons
    by (auto simp: lineage_of_def entry_ok_def Let_def)
  have l: "reasons \<noteq> [] \<Longrightarrow> letter_of x l"
    using new_letter_fresh [OF nl] ok reasons by (auto simp: letter_of_def entry_ok_def Let_def)
  have "\<exists>y\<in>set (xs @ [x]). letter_of y l'" if "map_of (sv_letters s') lid = Some l'" for lid l'
    using that rep l by (auto simp: m represents_def split: if_splits)
  moreover have "\<exists>y. latest (\<lambda>y. en_id y = eid) (xs @ [x]) = Some y \<and> lineage_of y lr'"
    if "map_of (sv_lineages s') eid = Some lr'" for eid lr'
    using that rep lr by (auto simp: lin represents_def split: if_splits)
  ultimately show ?thesis
    using rep ok unfolding represents_def s'_def [symmetric] m representsD(4) [OF rep] by auto
qed

section \<open>One operation after the other\<close>

inductive service_call :: "golib \<Rightarrow> Service \<Rightarrow> call \<Rightarrow> Service \<Rightarrow> bool" for L where
  publish: "Publish L contracts e s w = (res, s', w') \<Longrightarrow> service_call L s (Publish_call e res) s'"
| replay: "Replay L contracts lid actor s w = (res, s', w') \<Longrightarrow> service_call L s (Replay_call lid res) s'"
| administer: "outside_step L s s' \<Longrightarrow> service_call L s Administered s'"

inductive_cases service_callE: "service_call L s c s'"
inductive_cases ledger_publishE: "ledger_publish e xs res ys"
inductive_cases ledger_callE: "ledger_call xs c ys"

lemma service_call_inv: "service_call L s c s' \<Longrightarrow> sv_inv L s \<Longrightarrow> sv_inv L s'"
  by (erule service_callE) (auto intro: Publish_inv Replay_inv dest: outside_step_inv)

lemma represents_consumeQuota:
  "represents xs s \<Longrightarrow> consumeQuota tenant t s = (res, s') \<Longrightarrow> represents xs s'"
  by (erule represents_same) (simp_all add: consumeQuota_keeps)

lemma represents_outside:
  assumes "represents xs s" and "sv_inv L s" and "outside_step L s s'"
  shows "represents xs s'"
  using assms(3)
proof cases
  case (set_rules p cid rules w res w')
  then show ?thesis
    by (intro represents_same [OF assms(1)]) (auto simp: SetRules_def now_def Let_def split: sum.splits prod.splits)
next
  case (activate cid v res)
  then show ?thesis
    by (intro represents_same [OF assms(1)]) (auto simp: ActivateRuleVersion_def split: sum.splits prod.splits)
next
  case (prune t n)
  then obtain P where s': "s' = s\<lparr>sv_lineages := filter P (sv_lineages s)\<rparr>" by (auto simp: PruneExpiredLineage_def Let_def)
  have "wf_map (sv_lineages s)" using assms(2) by (simp add: sv_inv_def maps_ok_def)
  then show ?thesis using assms(1) map_of_filter_Some unfolding s'
    by (intro represents_cong [OF assms(1)]) (auto simp: represents_def)
qed

text \<open>The two sections of a replay change only the state of a letter.\<close>

lemma represents_letter:
  assumes "represents xs s" and "map_of (sv_letters s) lid = Some l" and "\<And>x. letter_of x l \<Longrightarrow> letter_of x l'"
  shows "represents xs (s\<lparr>sv_letters := put lid l' (sv_letters s)\<rparr>)"
proof (rule represents_cong [OF assms(1)])
  show "\<forall>k x. map_of (sv_letters (s\<lparr>sv_letters := put lid l' (sv_letters s)\<rparr>)) k = Some x \<longrightarrow> (\<exists>y\<in>set xs. letter_of y x)"
    using representsD(3) [OF assms(1)] assms(2,3) by (auto split: if_splits) blast
qed simp_all

lemma letter_of_BeginReplay: "BeginReplay actor t l = (True, l') \<Longrightarrow> letter_of x l \<Longrightarrow> letter_of x l'"
  by (auto simp: BeginReplay_True letter_of_def)

lemma letter_of_FinishReplay: "letter_of x l \<Longrightarrow> letter_of x (FinishReplay ok actor t l)"
  by (auto simp: FinishReplay_def letter_of_def)

lemma same_request_prepare: "prepare_event e0 w = (e, t, w1) \<Longrightarrow> same_request e0 e"
  using prepare_event_frame [of e0 w e t w1] by (simp add: same_request_def)

lemma same_request_key: "same_request e0 e \<Longrightarrow> seen_key e = seen_key e0"
  by (simp add: same_request_def seen_key_def)

lemma publish_simulates:
  assumes rep: "represents xs s" and inv: "sv_inv L s" and pub: "Publish L contracts e s w = (res, s', w')"
  shows "\<exists>ys. ledger_publish e xs res ys \<and> represents ys s'"
  using sv_inv_rules [OF inv] pub
proof (cases rule: Publish_cases)
  case no_key
  then show ?thesis using rep by (auto intro: ledger_publish.refused)
next
  case (duplicate r)
  then obtain x where "latest (\<lambda>x. en_key x = seen_key e) xs = Some x" "en_receipt x = r"
    using representsD(1) [OF rep] by (auto simp: ledger_receipt_def)
  then show ?thesis using ledger_publish.repeated [OF duplicate(1)] duplicate rep by blast
next
  case over_quota
  then show ?thesis using rep by (auto intro: ledger_publish.refused)
next
  case (stored e' w1 s1 reasons w2 receipt attempt w5)
  let ?x = "\<lparr>en_event = e', en_receipt = receipt, en_attempt = attempt\<rparr>"
  have ok: "entry_ok ?x" using stored(8-15) by (simp add: entry_ok_def)
  have "represents (xs @ [?x]) s'"
    using represents_commit [OF represents_consumeQuota [OF rep stored(4)] ok] stored(7,9) by simp
  moreover have "seen_key e \<notin> en_key ` set xs" using rep stored(2) by (simp add: represents_def ledger_receipt_None)
  then have "ledger_publish e xs (Inr (en_receipt ?x)) (xs @ [?x])"
    by (rule ledger_publish.posted [OF stored(1)]) (use ok same_request_prepare [OF stored(3)] in simp_all)
  ultimately show ?thesis using stored(6) by auto
qed

lemma replay_simulates:
  assumes rep: "represents xs s" and inv: "sv_inv L s" and run: "Replay L contracts lid actor s w = (res, s', w')"
  shows "\<exists>ys. ledger_call xs (Replay_call lid res) ys \<and> represents ys s'"
  using inv run
proof (cases rule: Replay_cases)
  case (ran l l1 e w2 s1 s2 w3 l2 t2)
  have rep1: "represents xs s1"
    unfolding ran(5) by (rule represents_letter [OF rep ran(1) letter_of_BeginReplay [OF ran(3)]])
  obtain ys where ys: "ledger_publish (e\<lparr>ev_IdempotencyKey := id_source w (drawn w)\<rparr>) xs res ys" "represents ys s2"
    using publish_simulates [OF rep1 ran(6,7)] by blast
  have "represents ys s'" unfolding ran(12) by (rule represents_letter [OF ys(2) ran(10) letter_of_FinishReplay])
  moreover obtain x where x: "x \<in> set xs" "letter_of x l" using representsD(3) [OF rep ran(1)] by blast
  moreover obtain y where "latest (\<lambda>y. en_id y = en_id x) xs = Some y" "en_event y = e"
    using representsD(2) [OF rep, of "en_id x"] ran(4) x(2) by (auto simp: ledger_event_def letter_of_def)
  ultimately show ?thesis using ys(1)
    by (intro exI [of _ ys] conjI ledger_call.replay [of x xs y]) (auto simp: letter_of_def)
qed (use rep in \<open>auto intro: ledger_call.replay_refused\<close>)

lemma ledger_call_distinct: "ledger_call xs c ys \<Longrightarrow> distinct (map en_key xs) \<Longrightarrow> distinct (map en_key ys)"
  by (auto elim!: ledger_callE ledger_publishE dest: same_request_key)

text \<open>The service refines the ledger whose keys are distinct.\<close>

definition refines :: "golib \<Rightarrow> ledger \<Rightarrow> Service \<Rightarrow> bool" where
  "refines L xs s \<longleftrightarrow> sv_inv L s \<and> represents xs s \<and> distinct (map en_key xs)"

interpretation seq: simulation ledger_call "service_call L" "refines L" for L
proof unfold_locales
  fix xs s c s'
  assume r: "refines L xs s" and call: "service_call L s c s'"
  have "\<exists>ys. ledger_call xs c ys \<and> represents ys s'" using call
  proof cases
    case (publish contracts e w res w')
    then show ?thesis using publish_simulates r by (metis refines_def ledger_call.publish)
  next
    case (replay contracts lid actor w res w')
    then show ?thesis using replay_simulates r by (metis refines_def)
  next
    case administer
    then show ?thesis using represents_outside r by (metis refines_def ledger_call.administer)
  qed
  then show "\<exists>ys. ledger_call xs c ys \<and> refines L ys s'"
    using r service_call_inv [OF call] ledger_call_distinct unfolding refines_def by blast
qed

lemma refines_NewService: "refines L [] (NewService secret maxQuota)"
  by (simp add: refines_def represents_NewService sv_inv_NewService)

lemma last_ledger_attempts:
  "latest (\<lambda>x. en_id x = eid) xs = Some x \<Longrightarrow> last (ledger_attempts xs eid) = en_attempt x"
  by (induction xs rule: rev_induct) (auto split: if_splits)

lemma ledger_attempts_Nil: "ledger_attempts xs eid = [] \<longleftrightarrow> latest (\<lambda>x. en_id x = eid) xs = None"
  by (auto simp: ledger_attempts_def latest_None filter_empty_conv)

lemma represents_queries:
  assumes "represents xs s"
  shows "Attempts s eid = ledger_attempts xs eid" "Quality s eid = ledger_quality xs eid"
proof -
  show "Attempts s eid = ledger_attempts xs eid" by (simp add: Attempts_def representsD(4) [OF assms])
  have m: "map_of (sv_attempts s) eid = (if ledger_attempts xs eid = [] then None else Some (ledger_attempts xs eid))"
    using assms by (simp add: represents_def)
  show "Quality s eid = ledger_quality xs eid"
  proof (cases "latest (\<lambda>x. en_id x = eid) xs")
    case None
    then show ?thesis using m by (simp add: Quality_def ledger_quality_def ledger_attempts_Nil)
  next
    case (Some x)
    then have "at_Reasons (en_attempt x) = rp_Reasons (en_receipt x)"
      using representsD(5) [OF assms] latest_SomeD by (fastforce simp: entry_ok_def Let_def)
    then show ?thesis using m Some
      by (simp add: Quality_def ledger_quality_def ledger_attempts_Nil last_ledger_attempts)
  qed
qed

section \<open>Operations that interleave\<close>

text \<open>The ledger of a concurrent run grows by one entry at a time; a key may occur again.\<close>

definition ledger_grows :: "ledger \<Rightarrow> unit \<Rightarrow> ledger \<Rightarrow> bool" where
  "ledger_grows xs u ys \<longleftrightarrow> ys = xs \<or> (\<exists>x. entry_ok x \<and> ys = xs @ [x])"

text \<open>The receipt that a thread holds, if it has one, and that an entry of the ledger stands behind it.\<close>

fun publication_receipt :: "publication \<Rightarrow> Receipt option" where
  "publication_receipt (Done (Inr r)) = Some r"
| "publication_receipt _ = None"

fun held_receipt :: "thread \<Rightarrow> Receipt option" where
  "held_receipt (Publishing p) = publication_receipt p"
| "held_receipt (Replay_publish lid actor p) = publication_receipt p"
| "held_receipt (Replay_done (Inr r)) = Some r"
| "held_receipt _ = None"

definition backed :: "ledger \<Rightarrow> Receipt option \<Rightarrow> bool" where
  "backed xs ro \<longleftrightarrow> (\<forall>r. ro = Some r \<longrightarrow> (\<exists>x\<in>set xs. r = en_receipt x \<or> r = (en_receipt x)\<lparr>rp_Duplicate := True\<rparr>))"

lemma backed_simps [simp]:
  "backed xs None"
  "backed xs (Some r) \<longleftrightarrow> (\<exists>x\<in>set xs. r = en_receipt x \<or> r = (en_receipt x)\<lparr>rp_Duplicate := True\<rparr>)"
  by (simp_all add: backed_def)

lemma backed_grows: "backed xs ro \<Longrightarrow> ledger_grows xs u ys \<Longrightarrow> backed ys ro"
  by (auto simp: backed_def ledger_grows_def)

lemma ledger_grows_refl [simp]: "ledger_grows xs u xs"
  by (simp add: ledger_grows_def)

lemma publication_step_ledger:
  assumes rep: "represents xs s" and ok: "publication_ok L p" and "steps_left p \<noteq> 0"
    and step: "publication_step L contracts p s w = (p', s', w')"
  shows "\<exists>ys. ledger_grows xs u ys \<and> represents ys s' \<and> backed ys (publication_receipt p')"
proof (cases p)
  case (Admit e start)
  obtain q s1 where con: "consumeQuota (ev_TenantID e) start s = (q, s1)" by fastforce
  note rep1 = represents_consumeQuota [OF rep con]
  show ?thesis
  proof (cases "map_of (sv_seen s) (seen_key e)")
    case None
    then show ?thesis using step Admit con rep1 by (intro exI [of _ xs], cases q) (auto simp: publish_admit_def)
  next
    case (Some r)
    then obtain x where "x \<in> set xs" "en_receipt x = r"
      using representsD(1) [OF rep] latest_SomeD by (fastforce simp: ledger_receipt_def)
    then show ?thesis using step Admit Some rep by (intro exI [of _ xs]) (auto simp: publish_admit_def)
  qed
next
  case (Commit e reasons receipt attempt)
  let ?x = "\<lparr>en_event = e, en_receipt = receipt, en_attempt = attempt\<rparr>"
  have x: "entry_ok ?x" "rp_Reasons receipt = reasons" using ok Commit by (simp_all add: entry_ok_def)
  have "p' = Done (Inr receipt)" "s' = fst (publish_commit e reasons receipt attempt s w)"
    using step Commit by (auto split: prod.splits)
  then show ?thesis using represents_commit [OF rep x(1), of reasons w] x
    by (intro exI [of _ "xs @ [?x]"]) (auto simp: ledger_grows_def)
qed (use assms in \<open>auto intro!: exI [of _ xs] split: prod.splits sum.splits if_splits\<close>)

lemma thread_next_ledger:
  assumes rep: "represents xs s" and inv: "sv_inv L s" and ok: "thread_ok L s t" and left: "thread_left t \<noteq> 0"
    and held: "backed xs (held_receipt t)" and step: "thread_next L contracts t s w = (t', s', w')"
  shows "\<exists>ys. ledger_grows xs u ys \<and> represents ys s' \<and> backed ys (held_receipt t')"
proof (cases t)
  case (Publishing p)
  obtain p' where p': "publication_step L contracts p s w = (p', s', w')" "t' = Publishing p'"
    using step Publishing by (auto split: prod.splits)
  then show ?thesis using publication_step_ledger [OF rep _ _ p'(1)] ok left Publishing by simp
next
  case (Replay_begin lid actor)
  show ?thesis
  proof (cases "map_of (sv_letters s) lid")
    case None
    then show ?thesis using step rep Replay_begin by (intro exI [of _ xs]) (auto simp: replay_begin_def)
  next
    case (Some l)
    obtain b l1 where beg: "BeginReplay actor (clock w (ticks w)) l = (b, l1)" by fastforce
    then have "b \<Longrightarrow> represents xs (s\<lparr>sv_letters := put lid l1 (sv_letters s)\<rparr>)"
      using represents_letter [OF rep Some, of l1] letter_of_BeginReplay [of actor "clock w (ticks w)" l l1] by simp
    then show ?thesis using step rep Replay_begin Some beg
      by (intro exI [of _ xs], cases b) (auto simp: replay_begin_def now_def new_id_def Let_def)
  qed
next
  case (Replay_publish lid actor p)
  show ?thesis
  proof (cases "steps_left p = 0")
    case True
    then obtain r where p: "p = Done r" by (auto simp: steps_left_0)
    obtain l where l: "map_of (sv_letters s) lid = Some l" using ok Replay_publish by auto
    obtain x t where "t' = Replay_done r" "s' = s\<lparr>sv_letters := put lid (FinishReplay x actor t l) (sv_letters s)\<rparr>"
      using step Replay_publish p l ok by (auto simp: replay_end_def now_def)
    then show ?thesis using represents_letter [OF rep l letter_of_FinishReplay] held Replay_publish p
      by (intro exI [of _ xs], cases r) auto
  next
    case False
    obtain p' where p': "publication_step L contracts p s w = (p', s', w')" "t' = Replay_publish lid actor p'"
      using step Replay_publish thread_next_inner [OF False] by (auto split: prod.splits)
    then show ?thesis using publication_step_ledger [OF rep _ False p'(1)] ok Replay_publish by simp
  qed
qed (use left in simp_all)

definition refines_threads :: "golib \<Rightarrow> ledger \<Rightarrow> thread list \<times> Service \<Rightarrow> bool" where
  "refines_threads L xs c \<longleftrightarrow> ing.sys_inv L c \<and> represents xs (snd c) \<and> (\<forall>t\<in>set (fst c). backed xs (held_receipt t))"

interpretation conc: simulation ledger_grows "\<lambda>c u c'. ingest_system L c c'" "refines_threads L" for L
proof unfold_locales
  fix xs c u c'
  assume r: "refines_threads L xs c" and step: "ingest_system L c c'"
  have inv': "ing.sys_inv L c'" using ing.sys_inv_step [OF step] r by (simp add: refines_threads_def)
  show "\<exists>ys. ledger_grows xs u ys \<and> refines_threads L ys c'" using step
  proof cases
    case (thread i ts s t' s')
    then obtain contracts w w' where nx: "thread_next L contracts (ts ! i) s w = (t', s', w')" "thread_left (ts ! i) \<noteq> 0"
      by (auto simp: thread_run_def)
    have h: "represents xs s" "sv_inv L s" "thread_ok L s (ts ! i)" "backed xs (held_receipt (ts ! i))"
      using r thread by (auto simp: refines_threads_def ing.sys_inv_def)
    obtain ys where ys: "ledger_grows xs u ys" "represents ys s'" "backed ys (held_receipt t')"
      using thread_next_ledger [OF h(1,2,3) nx(2) h(4) nx(1)] by blast
    have "backed ys (held_receipt x)" if "x \<in> set ts" for x
      using backed_grows [OF _ ys(1)] r thread that by (simp add: refines_threads_def)
    then have "backed ys (held_receipt x)" if "x \<in> set (ts[i := t'])" for x
      using ys(3) that by (rule ball_update [where P = "\<lambda>x. backed ys (held_receipt x)"])
    then show ?thesis using ys inv' thread by (auto simp: refines_threads_def)
  next
    case (outside s s' ts)
    then have "represents xs s'" using r represents_outside by (auto simp: refines_threads_def ing.sys_inv_def)
    then show ?thesis using r inv' outside by (intro exI [of _ xs]) (auto simp: refines_threads_def)
  next
    case (spawn t ts s)
    then have "held_receipt t = None" by (cases t rule: thread_fresh.cases) auto
    then show ?thesis using r inv' spawn by (intro exI [of _ xs]) (auto simp: refines_threads_def)
  qed
qed

lemma refines_threads_start: "refines_threads L [] ([], NewService secret maxQuota)"
  by (simp add: refines_threads_def represents_NewService ing.sys_inv_def sv_inv_NewService)

section \<open>Receipts of one key\<close>

fun call_receipt :: "string \<Rightarrow> call \<Rightarrow> Receipt list" where
  "call_receipt key (Publish_call e (Inr r)) = (if seen_key e = key then [r] else [])"
| "call_receipt key _ = []"

definition key_receipts :: "string \<Rightarrow> call list \<Rightarrow> Receipt list" where
  "key_receipts key cs = concat (map (call_receipt key) cs)"

text \<open>All receipts that were given for a key repeat the entry of the key, and all but the first are marked.\<close>

definition one_answer :: "ledger \<Rightarrow> string \<Rightarrow> Receipt list \<Rightarrow> bool" where
  "one_answer xs key rs \<longleftrightarrow> list_all rp_Duplicate (tl rs) \<and>
     (\<forall>r\<in>set rs. \<exists>x\<in>set xs. en_key x = key \<and> r\<lparr>rp_Duplicate := False\<rparr> = en_receipt x)"

lemma list_all_tl_snoc: "list_all P (tl (xs @ [x])) \<longleftrightarrow> list_all P (tl xs) \<and> (xs = [] \<or> P x)"
  by (cases xs) auto

lemma unmark: "entry_ok x \<Longrightarrow> (en_receipt x)\<lparr>rp_Duplicate := False\<rparr> = en_receipt x"
  by (cases "en_receipt x") (simp add: entry_ok_def Let_def)

lemma one_answer_call:
  assumes "ledger_call xs c ys" and "one_answer xs key rs" and "list_all entry_ok xs"
  shows "one_answer ys key (rs @ call_receipt key c)"
  using assms(1)
proof cases
  case (publish e res)
  show ?thesis using publish(2)
  proof cases
    case (refused err)
    then show ?thesis using assms(2) publish by (auto simp: one_answer_def)
  next
    case (repeated x)
    then have "x \<in> set xs" "en_key x = seen_key e" using latest_SomeD by fastforce+
    moreover have "(en_receipt x)\<lparr>rp_Duplicate := False\<rparr> = en_receipt x"
      using unmark assms(3) calculation(1) by (auto simp: list_all_iff)
    ultimately show ?thesis using assms(2) publish repeated by (auto simp: one_answer_def list_all_tl_snoc)
  next
    case (posted x)
    then have "en_key y \<noteq> seen_key e" if "y \<in> set xs" for y using that by (metis (mono_tags, lifting) imageI)
    then have "seen_key e = key \<Longrightarrow> rs = []" using assms(2) by (cases rs) (auto simp: one_answer_def)
    moreover have "en_key x = seen_key e" using posted by (simp add: same_request_key)
    ultimately show ?thesis using assms(2) publish posted unmark [of x]
      by (auto simp: one_answer_def)
  qed
next
  case (replay x y k res lid)
  then have "set xs \<subseteq> set ys" by (auto elim!: ledger_publishE)
  then show ?thesis using assms(2) replay(1) unfolding one_answer_def by simp (metis subsetD)
qed (use assms(2) in \<open>auto simp: one_answer_def\<close>)

lemma ledger_call_entries: "ledger_call xs c ys \<Longrightarrow> list_all entry_ok xs \<Longrightarrow> list_all entry_ok ys"
  by (auto elim!: ledger_callE ledger_publishE)

lemma one_answer_trace:
  "trace ledger_call [] cs xs \<Longrightarrow> list_all entry_ok xs \<and> distinct (map en_key xs) \<and> one_answer xs key (key_receipts key cs)"
proof (induction rule: trace.induct)
  case start
  then show ?case by (simp add: one_answer_def key_receipts_def)
next
  case (snoc cs xs c ys)
  then show ?case
    using one_answer_call [of xs c ys key] ledger_call_entries [of xs c ys] ledger_call_distinct [of xs c ys]
    by (simp add: key_receipts_def)
qed

section \<open>Sample trace\<close>

definition demo_again :: "Receipt result \<times> Service \<times> world" where
  "demo_again = Publish demo_lib demo_lookup demo_event (fst (snd (demo_run demo_event))) demo_world"

lemma demo_trace:
  "trace (service_call demo_lib) (NewService '''' 5)
     [Publish_call demo_event (fst (demo_run demo_event)), Publish_call demo_event (fst demo_again)] (fst (snd demo_again))"
proof -
  have "Publish demo_lib demo_lookup demo_event (fst (snd (demo_run demo_event))) demo_world =
      (fst demo_again, fst (snd demo_again), snd (snd demo_again))" by (simp add: demo_again_def)
  note second = service_call.publish [OF this] and first = service_call.publish [OF demo_run_split [of demo_event]]
  from trace.snoc [where step = "service_call demo_lib", OF trace.snoc [where step = "service_call demo_lib", OF trace.start first] second]
  show ?thesis by simp
qed

section \<open>Properties\<close>

text \<open>C2: the ingestion service implements the ledger: every trace of its operations, with the answers the clients see, is a
  trace of the specification (a request is refused, is answered with the receipt of the entry that has its key, or appends the one
  entry of its key), and what is then stored and queried (receipts by key, events, attempts, quality) is read off the
  ledger.\<close>

theorem ledger_refinement:
  assumes "trace (service_call L) (NewService secret maxQuota) cs s"
  shows "\<exists>xs. trace ledger_call [] cs xs \<and> distinct (map en_key xs) \<and>
    (\<forall>key. map_of (sv_seen s) key = ledger_receipt xs key) \<and> (\<forall>eid. map_of (sv_events s) eid = ledger_event xs eid) \<and>
    (\<forall>eid. Attempts s eid = ledger_attempts xs eid) \<and> (\<forall>eid. Quality s eid = ledger_quality xs eid) \<and>
    (\<forall>lid l. map_of (sv_letters s) lid = Some l \<longrightarrow> (\<exists>x\<in>set xs. letter_of x l))"
proof -
  obtain xs where xs: "trace ledger_call [] cs xs" "refines L xs s"
    using seq.trace_inclusion [OF refines_NewService assms] by blast
  then have rep: "represents xs s" and "distinct (map en_key xs)" by (simp_all add: refines_def)
  with xs(1) representsD [OF rep] represents_queries [OF rep] show ?thesis by blast
qed

theorem ledger_refinement_witness:
  "\<exists>xs. trace ledger_call [] [Publish_call demo_event (fst (demo_run demo_event)), Publish_call demo_event (fst demo_again)] xs \<and>
     Quality (fst (snd demo_again)) ''e1'' = ledger_quality xs ''e1''"
  using ledger_refinement [OF demo_trace] by blast



text \<open>Under every interleaving of publications, replays and policy changes there is still one list of committed entries that
  explains the whole state, and every receipt that a client holds is the receipt of one of them, marked or not: no answer
  is invented and no committed entry disappears. What interleaving loses is only that keys are distinct.\<close>

theorem ledger_interleaved:
  assumes "(ingest_system L)\<^sup>*\<^sup>* ([], NewService secret maxQuota) (ts, s)"
  shows "\<exists>xs. list_all entry_ok xs \<and>
    (\<forall>key. map_of (sv_seen s) key = ledger_receipt xs key) \<and> (\<forall>eid. map_of (sv_events s) eid = ledger_event xs eid) \<and>
    (\<forall>eid. Attempts s eid = ledger_attempts xs eid) \<and> (\<forall>eid. Quality s eid = ledger_quality xs eid) \<and>
    (\<forall>lid l. map_of (sv_letters s) lid = Some l \<longrightarrow> (\<exists>x\<in>set xs. letter_of x l)) \<and>
    (\<forall>t\<in>set ts. \<forall>r. thread_receipt t = Some r \<longrightarrow> (\<exists>x\<in>set xs. r = en_receipt x \<or> r = (en_receipt x)\<lparr>rp_Duplicate := True\<rparr>))"
proof -
  obtain us where "trace (\<lambda>c (_ :: unit) c'. ingest_system L c c') ([], NewService secret maxQuota) us (ts, s)"
    using rtranclp_trace [OF assms] by blast
  from conc.trace_inclusion [OF refines_threads_start this]
  obtain xs where "refines_threads L xs (ts, s)" by blast
  then have rep: "represents xs s" and held: "\<forall>t\<in>set ts. backed xs (held_receipt t)" by (simp_all add: refines_threads_def)
  have "held_receipt t = Some r" if "thread_receipt t = Some r" for t r
    using that by (cases t rule: thread_receipt.cases) auto
  then have "\<forall>t\<in>set ts. \<forall>r. thread_receipt t = Some r \<longrightarrow> (\<exists>x\<in>set xs. r = en_receipt x \<or> r = (en_receipt x)\<lparr>rp_Duplicate := True\<rparr>)"
    using held by (auto simp: backed_def)
  moreover have "list_all entry_ok xs" using representsD(5) [OF rep] by (simp add: list_all_iff)
  ultimately show ?thesis using representsD [OF rep] represents_queries [OF rep] by blast
qed

theorem ledger_interleaved_witness:
  "\<exists>xs. list_all entry_ok xs \<and> Attempts (fst (snd demo_race)) ''e1'' = ledger_attempts xs ''e1'' \<and>
     length (ledger_attempts xs ''e1'') = 2"
proof -
  obtain xs where "list_all entry_ok xs" "\<forall>eid. Attempts (fst (snd demo_race)) eid = ledger_attempts xs eid"
    using ledger_interleaved [OF demo_race_reach] by blast
  moreover have "length (Attempts (fst (snd demo_race)) ''e1'') = 2" by code_simp
  ultimately show ?thesis by metis
qed

end
