(* ===== verification/HttpLedger.thy ===== *)
theory HttpLedger
  imports HttpConcurrency Ledger
begin

text \<open>
  The gateway under load and the ledger of the ingestion service: the specification of \<open>Ledger\<close> carried to
  the answers that clients get over HTTP. Whatever requests overlap, one list of committed entries explains the maps of the
  service, and every receipt in an answer is the receipt of one of its entries.
\<close>

section \<open>The receipts of a request\<close>

definition result_receipts :: "ReplayResult list \<Rightarrow> Receipt list" where
  "result_receipts rs = concat (map (\<lambda>x. case rr_Receipt x of None \<Rightarrow> [] | Some r \<Rightarrow> [r]) rs)"

text \<open>The receipts that a response to an ingestion request, a replay or a batch of replays shows.\<close>

definition shown :: "Response \<Rightarrow> Receipt list" where
  "shown x = (case hr_Body x of
       TextBody _ \<Rightarrow> []
     | JsonBody en \<Rightarrow> (case en_Data en of
           Some (DReceipt r) \<Rightarrow> [r]
         | Some (DReplays tenant rs) \<Rightarrow> result_receipts rs
         | _ \<Rightarrow> []))"

fun job_receipts :: "job \<Rightarrow> Receipt list" where
  "job_receipts (Ingesting rq rid p) = (case publication_receipt p of None \<Rightarrow> [] | Some r \<Rightarrow> [r])"
| "job_receipts (Counting rq rid r) = [r]"
| "job_receipts (Replaying_letter rq rid t) = (case held_receipt t of None \<Rightarrow> [] | Some r \<Rightarrow> [r])"
| "job_receipts (Batch rq rid tenant actor ids out) = result_receipts out"
| "job_receipts (Batch_replay rq rid tenant actor lid ids out t) =
     result_receipts out @ (case held_receipt t of None \<Rightarrow> [] | Some r \<Rightarrow> [r])"
| "job_receipts (Answered rq x) = shown x"
| "job_receipts _ = []"

definition all_backed :: "ledger \<Rightarrow> Receipt list \<Rightarrow> bool" where
  "all_backed xs rs \<longleftrightarrow> (\<forall>r\<in>set rs. backed xs (Some r))"

lemma all_backed_simps [simp]: "all_backed xs []" "all_backed xs (r # rs) \<longleftrightarrow> backed xs (Some r) \<and> all_backed xs rs"
  "all_backed xs (rs @ rs') \<longleftrightarrow> all_backed xs rs \<and> all_backed xs rs'"
  "all_backed xs (case ro of None \<Rightarrow> [] | Some r \<Rightarrow> [r]) \<longleftrightarrow> backed xs ro"
proof -
  show "all_backed xs (case ro of None \<Rightarrow> [] | Some r \<Rightarrow> [r]) \<longleftrightarrow> backed xs ro" by (cases ro) (simp_all add: all_backed_def)
qed (auto simp: all_backed_def)

declare backed_simps(2) [simp del]

lemma all_backed_grows: "all_backed xs rs \<Longrightarrow> ledger_grows xs u ys \<Longrightarrow> all_backed ys rs"
  unfolding all_backed_def using backed_grows by blast

lemma shown_simps [simp]: "shown (fst (JSON st rid (DReceipt r) w)) = [r]"
  "shown (fst (JSON st rid (DReplays t rs) w)) = result_receipts rs" "shown (fst (Fail st rid c m det w)) = []"
  "shown (text_response st ct x) = []"
  by (simp_all add: shown_def Fail_def now_def text_response_def)

lemma shown_other: "(\<And>r. d \<noteq> DReceipt r) \<Longrightarrow> (\<And>t rs. d \<noteq> DReplays t rs) \<Longrightarrow> shown (fst (JSON st rid d w)) = []"
  by (simp add: shown_def split: data.splits)

lemma result_receipts_simps [simp]: "result_receipts [] = []" "result_receipts (rs @ rs') = result_receipts rs @ result_receipts rs'"
  "result_receipts [x] = (case rr_Receipt x of None \<Rightarrow> [] | Some r \<Rightarrow> [r])"
  by (simp_all add: result_receipts_def)

section \<open>Every step keeps the ledger\<close>

definition logged :: "ledger \<Rightarrow> job_outcome \<Rightarrow> bool" where
  "logged xs out \<longleftrightarrow> (\<exists>ys. ledger_grows xs () ys \<and> represents ys (sr_ingestion (fst (snd out))) \<and> all_backed ys (job_receipts (fst out)))"

lemma logged_go: "represents xs (sr_ingestion s) \<Longrightarrow> all_backed xs (job_receipts t) \<Longrightarrow> logged xs (t, s, w)"
  unfolding logged_def by (intro exI [of _ xs]) simp

lemma logged_answer: "represents xs (sr_ingestion s) \<Longrightarrow> all_backed xs (shown (fst xw)) \<Longrightarrow> logged xs (answer rq xw s)"
  unfolding answer_def by (rule logged_go) simp_all

lemma logged_recover: "represents xs (sr_ingestion s) \<Longrightarrow> logged xs (recover_job H rq e s w)"
  by (auto simp: recover_job_def intro!: logged_answer split: prod.splits)

lemma logged_fail: "represents xs (sr_ingestion s) \<Longrightarrow> logged xs (fail_job H rq e st rid code s w)"
  by (simp add: fail_job_def logged_recover logged_answer)

lemma logged_finish:
  "represents xs (sr_ingestion s) \<Longrightarrow> (\<And>v. r = Inr v \<Longrightarrow> all_backed xs (shown (fst (ok v w)))) \<Longrightarrow>
   logged xs (finish_job H rq r st rid code ok s w)"
  by (auto simp: finish_job_def intro: logged_fail logged_answer split: sum.splits)

lemma logged_tenant: "represents xs (sr_ingestion s) \<Longrightarrow> (\<And>t. logged xs (k t)) \<Longrightarrow> logged xs (tenant_job H rq rid s w k)"
  by (simp add: tenant_job_def logged_answer split: sum.splits)

lemma logged_body: "represents xs (sr_ingestion s) \<Longrightarrow> (\<And>v. logged xs (k v)) \<Longrightarrow> logged xs (body_job H dec rq rid s w k)"
  by (simp add: body_job_def logged_answer split: sum.splits)

lemmas logged_rules = logged_tenant logged_body logged_answer logged_fail logged_finish logged_go

lemma represents_policy:
  assumes "represents xs ing" and "sv_inv L ing"
  shows "SetRules L p cid rules ing w = (res1, ing', w') \<Longrightarrow> represents xs ing'"
    and "ActivateRuleVersion cid v ing = (res2, ing') \<Longrightarrow> represents xs ing'"
  by (auto intro: represents_outside [OF assms] outside_step.intros)

lemma serve_endpoint_logged:
  assumes rep: "represents xs (sr_ingestion s)" and inv: "sv_inv L (sr_ingestion s)" and one: "one_section ep"
  shows "yields (\<lambda>r s'. represents xs (sr_ingestion s') \<and> (\<forall>x. r = Inr x \<longrightarrow> shown x = [])) (serve_endpoint L H \<pi> ep rq b s w)"
proof (cases ep)
  case SetRulesEP
  then show ?thesis using represents_policy(1) [OF rep inv]
    by (auto simp: setRules_def shown_other rep intro!: yields_rules split: prod.splits)
qed (use one in \<open>auto simp: one_section_def handler_defs Let_def shown_other rep intro!: yields_rules split: prod.splits\<close>)

lemma logged_to_job:
  "yields (\<lambda>r s'. represents xs (sr_ingestion s') \<and> (\<forall>x. r = Inr x \<longrightarrow> shown x = [])) out \<Longrightarrow> logged xs (to_job H rq out)"
  by (auto simp: yields_def to_job_def intro!: logged_recover logged_go split: prod.splits sum.splits)

lemma start_job_logged:
  assumes rep: "represents xs (sr_ingestion s)" and inv: "sv_inv L (sr_ingestion s)"
  shows "logged xs (start_job L H \<pi> ep rq b s w)"
proof (cases "one_section ep")
  case True
  then show ?thesis using logged_to_job [OF serve_endpoint_logged [OF rep inv True]] by (simp add: start_job_one_section)
next
  case False
  then show ?thesis using rep represents_policy(2) [OF rep inv]
    by (cases ep) (auto simp: start_defs one_section_def Let_def intro!: logged_rules split: prod.splits option.splits sum.splits)
qed

lemma write_answer_logged: "represents xs (sr_ingestion s) \<Longrightarrow> logged xs (write_answer H rq rid ch r s w)"
  by (cases ch) (auto intro!: logged_finish simp: shown_other)

lemma job_next_logged:
  assumes rep: "represents xs (sr_ingestion s)" and inv: "gateway_inv L cfg s" and ok: "job_ok L s t" and left: "job_left H cfg t \<noteq> 0"
    and held: "all_backed xs (job_receipts t)"
  shows "logged xs (job_next L H \<pi> t s w)"
proof -
  have sv: "sv_inv L (sr_ingestion s)" using inv by (simp add: gateway_inv_def)
  have publication: "\<exists>ys. ledger_grows xs () ys \<and> represents ys ing \<and> backed ys (publication_receipt p')"
    if "publication_ok L p" "steps_left p \<noteq> 0" "publication_step L contracts p (sr_ingestion s) w = (p', ing, w')" for contracts p p' ing w'
    using publication_step_ledger [OF rep that] by blast
  have thread: "\<exists>ys. ledger_grows xs () ys \<and> represents ys ing \<and> backed ys (held_receipt u')"
    if "thread_ok L (sr_ingestion s) u" "thread_result u = None" "backed xs (held_receipt u)"
      "thread_next L contracts u (sr_ingestion s) w = (u', ing, w')" for contracts u u' ing w'
    using thread_next_ledger [OF rep sv that(1) _ that(3,4)] thread_left_0 [of u] that(2) by auto
  have result: "held_receipt u = (case r of Inl _ \<Rightarrow> None | Inr x \<Rightarrow> Some x)" if "thread_result u = Some r" for u r
    using that by (cases u rule: thread_result.cases) (auto split: sum.splits)
  show ?thesis
  proof (cases t)
    case (Arrived rq)
    then show ?thesis using start_job_logged [OF rep sv] rep
      by (auto simp: serve_mux_def to_job_simps intro!: logged_answer split: routing.splits)
  next
    case (Ingesting rq rid p)
    show ?thesis
    proof (cases "steps_left p = 0")
      case True
      then obtain r where "p = Done r" by (auto simp: steps_left_0)
      then show ?thesis using Ingesting rep held by (cases r) (auto intro!: logged_fail logged_go)
    next
      case False
      obtain p' ing w' where st: "publication_step L (Find (sr_repo s)) p (sr_ingestion s) w = (p', ing, w')" by (metis prod_cases3)
      then show ?thesis using publication [OF _ False st] ok Ingesting
        by (auto simp add: Ingesting_next [OF False] logged_def simp del: job_next.simps)
    qed
  next
    case (Replaying_letter rq rid u)
    show ?thesis
    proof (cases "thread_result u")
      case None
      obtain u' ing w' where st: "thread_next L (Find (sr_repo s)) u (sr_ingestion s) w = (u', ing, w')" by (metis prod_cases3)
      then show ?thesis using thread [OF _ None _ st] ok held Replaying_letter None by (auto simp: logged_def)
    next
      case (Some r)
      then show ?thesis using Replaying_letter rep held result [OF Some] by (auto intro!: logged_finish)
    qed
  next
    case (Batch rq rid tenant actor ids out)
    then show ?thesis using rep held
      by (cases ids) (auto intro!: logged_answer logged_go simp: batch_letter_def split: option.splits if_splits)
  next
    case (Batch_replay rq rid tenant actor lid ids out u)
    show ?thesis
    proof (cases "thread_result u")
      case None
      obtain u' ing w' where st: "thread_next L (Find (sr_repo s)) u (sr_ingestion s) w = (u', ing, w')" by (metis prod_cases3)
      then show ?thesis using thread [OF _ None _ st] ok held Batch_replay None all_backed_grows by (fastforce simp: logged_def)
    next
      case (Some r)
      then show ?thesis using Batch_replay rep held result [OF Some]
        by (cases r) (auto intro!: logged_recover logged_go simp: mk_replay_result_def)
    qed
  next
    case (Writing rq rid ch u)
    show ?thesis
    proof (cases "writer_left u = 0")
      case True
      then obtain r where "u = Written r" by (auto simp: writer_left_0)
      then show ?thesis using Writing write_answer_logged [OF rep] by simp
    next
      case False
      then show ?thesis using Writing rep by (auto simp add: Writing_next simp del: job_next.simps intro!: logged_go split: prod.splits)
    qed
  qed (use rep held left in \<open>auto intro!: logged_answer simp: shown_other\<close>)
qed

definition refines_jobs :: "golib \<Rightarrow> Config \<Rightarrow> ledger \<Rightarrow> job list \<times> Server \<Rightarrow> bool" where
  "refines_jobs L cfg xs c \<longleftrightarrow> http.sys_inv L cfg c \<and> represents xs (sr_ingestion (snd c)) \<and>
     (\<forall>t\<in>set (fst c). all_backed xs (job_receipts t))"

interpretation web: simulation ledger_grows "\<lambda>c u c'. http_system L H cfg c c'" "refines_jobs L cfg" for L H cfg
proof unfold_locales
  fix xs c u c'
  assume r: "refines_jobs L cfg xs c" and step: "http_system L H cfg c c'"
  have inv': "http.sys_inv L cfg c'" using http.sys_inv_step [OF step] r by (simp add: refines_jobs_def)
  show "\<exists>ys. ledger_grows xs u ys \<and> refines_jobs L cfg ys c'" using step
  proof cases
    case (thread i ts s t' s')
    then obtain \<pi> w w' where nx: "job_next L H \<pi> (ts ! i) s w = (t', s', w')" "job_left H cfg (ts ! i) \<noteq> 0"
      by (auto simp: job_run_def)
    have h: "represents xs (sr_ingestion s)" "gateway_inv L cfg s" "job_ok L s (ts ! i)" "all_backed xs (job_receipts (ts ! i))"
      using r thread by (auto simp: refines_jobs_def http.sys_inv_def)
    obtain ys where ys: "ledger_grows xs () ys" "represents ys (sr_ingestion s')" "all_backed ys (job_receipts t')"
      using job_next_logged [OF h(1-3) nx(2) h(4), of \<pi> w] nx(1) by (auto simp: logged_def)
    have "all_backed ys (job_receipts x)" if "x \<in> set ts" for x
      using all_backed_grows [OF _ ys(1)] r thread that by (simp add: refines_jobs_def)
    then have "all_backed ys (job_receipts x)" if "x \<in> set (ts[i := t'])" for x
      using ys(3) that by (rule ball_update [where P = "\<lambda>x. all_backed ys (job_receipts x)"])
    then show ?thesis using ys inv' thread by (auto simp: refines_jobs_def)
  next
    case (spawn t ts s)
    then have "job_receipts t = []" by (cases t) auto
    then show ?thesis using r inv' spawn by (intro exI [of _ xs]) (auto simp: refines_jobs_def)
  qed simp
qed

lemma boot_refines:
  assumes "gateway_boot E w = (Inr s, w')"
  shows "refines_jobs L (sr_config s) [] ([], s)"
proof -
  have "sr_ingestion s = NewService (cf_HMACSecret (sr_config s)) (cf_DefaultQuota (sr_config s))"
    using assms by (auto simp: gateway_boot_def NewServer_def NewMetrics_def now_def Let_def split: sum.splits)
  then show ?thesis using gateway_boot_ready(1) [OF assms, of L]
    by (simp add: refines_jobs_def http.sys_inv_def represents_NewService)
qed

section \<open>Properties\<close>

text \<open>C4: no answer is invented: whatever requests reach a gateway that started and however they overlap, one list of committed
  entries explains every receipt by key, event, attempt list, quality result and dead letter of the service, and every receipt shown in
  an answer to an ingestion request, a replay or a batch of replays is the receipt of one of these entries, as it was stored or marked
  as a duplicate.\<close>

theorem answers_from_ledger:
  assumes "gateway_boot E w = (Inr s0, w0)" and "(http_system L H (sr_config s0))\<^sup>*\<^sup>* ([], s0) (ts, s)"
  shows "\<exists>xs. list_all entry_ok xs \<and>
    (\<forall>key. map_of (sv_seen (sr_ingestion s)) key = ledger_receipt xs key) \<and>
    (\<forall>eid. map_of (sv_events (sr_ingestion s)) eid = ledger_event xs eid) \<and>
    (\<forall>eid. Attempts (sr_ingestion s) eid = ledger_attempts xs eid) \<and>
    (\<forall>eid. Quality (sr_ingestion s) eid = ledger_quality xs eid) \<and>
    (\<forall>lid l. map_of (sv_letters (sr_ingestion s)) lid = Some l \<longrightarrow> (\<exists>x\<in>set xs. letter_of x l)) \<and>
    (\<forall>rq x. Answered rq x \<in> set ts \<longrightarrow>
       (\<forall>r\<in>set (shown x). \<exists>y\<in>set xs. r = en_receipt y \<or> r = (en_receipt y)\<lparr>rp_Duplicate := True\<rparr>))"
proof -
  obtain us where "trace (\<lambda>c (_ :: unit) c'. http_system L H (sr_config s0) c c') ([], s0) us (ts, s)"
    using rtranclp_trace [OF assms(2)] by blast
  from web.trace_inclusion [OF boot_refines [OF assms(1)] this] obtain xs where r: "refines_jobs L (sr_config s0) xs (ts, s)" by blast
  then have rep: "represents xs (sr_ingestion s)" by (simp add: refines_jobs_def)
  have "backed xs (Some r)" if "Answered rq x \<in> set ts" "r \<in> set (shown x)" for rq x r
    using \<open>refines_jobs L (sr_config s0) xs (ts, s)\<close> that by (force simp: refines_jobs_def all_backed_def)
  then have "\<forall>rq x. Answered rq x \<in> set ts \<longrightarrow>
      (\<forall>r\<in>set (shown x). \<exists>y\<in>set xs. r = en_receipt y \<or> r = (en_receipt y)\<lparr>rp_Duplicate := True\<rparr>)"
    by (simp add: backed_def)
  moreover have "list_all entry_ok xs" using representsD(5) [OF rep] by (simp add: list_all_iff)
  ultimately show ?thesis using representsD [OF rep] represents_queries [OF rep] by blast
qed

theorem answers_from_ledger_witness:
  "\<exists>xs. map_of (sv_seen (sr_ingestion (fst (snd (demo_outcome demo_ingest))))) ''acme/k1'' = ledger_receipt xs ''acme/k1'' \<and>
     set (shown (fst (demo_outcome demo_ingest))) \<subseteq> (\<lambda>x. en_receipt x) ` set xs \<union> (\<lambda>x. (en_receipt x)\<lparr>rp_Duplicate := True\<rparr>) ` set xs"
proof -
  have "(http_system demo_lib demo_http (sr_config demo_server))\<^sup>*\<^sup>* ([], demo_server)
      ([Answered demo_ingest (fst (demo_outcome demo_ingest))], fst (snd (demo_outcome demo_ingest)))"
    by (rule request_reach [OF gateway_boot_ready(1) [OF demo_boot] split3])
  from answers_from_ledger [OF demo_boot this] obtain xs where
    "map_of (sv_seen (sr_ingestion (fst (snd (demo_outcome demo_ingest))))) ''acme/k1'' = ledger_receipt xs ''acme/k1''"
    "\<forall>r\<in>set (shown (fst (demo_outcome demo_ingest))). \<exists>y\<in>set xs. r = en_receipt y \<or> r = (en_receipt y)\<lparr>rp_Duplicate := True\<rparr>"
    by auto
  then show ?thesis by (intro exI [of _ xs]) auto
qed

end
