(* ===== verification/Processes.thy ===== *)
theory Processes
  imports HttpConcurrency
begin

text \<open>
  The two processes, \<^verbatim>\<open>cmd/gateway/main.go\<close> and \<^verbatim>\<open>cmd/worker/main.go\<close>, as state machines. The gateway starts, listens in a
  goroutine of its own, runs its requests (\<open>HttpConcurrency\<close>), and on a signal stops to accept and waits for the requests that
  are under way, at most for the configured time. What its steps use of \<^verbatim>\<open>net/http\<close> is what that package documents:
  \<^verbatim>\<open>ListenAndServe\<close> returns an error, after \<^verbatim>\<open>Shutdown\<close> always \<^verbatim>\<open>ErrServerClosed\<close>; \<^verbatim>\<open>Shutdown\<close> closes the listener and returns
  nil once no request is under way, or the error of its context once that has expired.
\<close>

section \<open>The gateway process\<close>

datatype level = InfoLevel | ErrorLevel

record log_line =
  ln_Level :: level
  ln_Message :: string
  ln_Attrs :: "(string \<times> string) list"

definition info :: "string \<Rightarrow> (string \<times> string) list \<Rightarrow> log_line" where
  "info msg attrs = \<lparr>ln_Level = InfoLevel, ln_Message = msg, ln_Attrs = attrs\<rparr>"

definition err_line :: "string \<Rightarrow> string \<Rightarrow> log_line" where
  "err_line msg e = \<lparr>ln_Level = ErrorLevel, ln_Message = msg, ln_Attrs = [(''error'', e)]\<rparr>"

text \<open>The main goroutine: until the signal, in \<^verbatim>\<open>Shutdown\<close> with its deadline, or gone with an exit code.\<close>

datatype phase = Serving_requests | Shutting_down time | Exited int

datatype listener = Unstarted | Listening | Closed

record process =
  pr_phase :: phase
  pr_listener :: listener
  pr_log :: "log_line list"
  pr_jobs :: "job list"
  pr_server :: Server

definition start_process :: "httplib \<Rightarrow> environment \<Rightarrow> world \<Rightarrow> (int \<times> log_line list) + process" where
  "start_process H E w =
     (case gateway_boot E w of
        (Inl e, _) \<Rightarrow> Inl (1, [err_line ''invalid configuration'' (error_text H e)])
      | (Inr s, _) \<Rightarrow> Inr \<lparr>pr_phase = Serving_requests, pr_listener = Unstarted, pr_log = [], pr_jobs = [], pr_server = s\<rparr>)"

text \<open>The goroutine that listens: after the signal it finds the server closed.\<close>

definition listen_begin :: "process \<Rightarrow> process" where
  "listen_begin p = p\<lparr>pr_listener := (if pr_phase p = Serving_requests then Listening else Closed),
     pr_log := pr_log p @ [info ''gateway listening''
       [(''address'', cf_Address (sr_config (pr_server p))), (''environment'', cf_Environment (sr_config (pr_server p)))]]\<rparr>"

definition listen_failed :: "string \<Rightarrow> process \<Rightarrow> process" where
  "listen_failed e p = p\<lparr>pr_log := pr_log p @ [err_line ''server failed'' e], pr_phase := Exited 1\<rparr>"

text \<open>The signal: the deadline of the context is set and the listener is closed.\<close>

definition on_signal :: "time \<Rightarrow> process \<Rightarrow> process" where
  "on_signal t p = p\<lparr>pr_phase := Shutting_down (t + cf_ShutdownTimeout (sr_config (pr_server p))),
     pr_listener := (if pr_listener p = Listening then Closed else pr_listener p)\<rparr>"

definition shutdown_failed :: "string \<Rightarrow> process \<Rightarrow> process" where
  "shutdown_failed e p = p\<lparr>pr_log := pr_log p @ [err_line ''shutdown failed'' e], pr_phase := Exited 1\<rparr>"

definition shutdown_done :: "process \<Rightarrow> process" where
  "shutdown_done p = p\<lparr>pr_log := pr_log p @ [info ''gateway stopped'' []], pr_phase := Exited 0\<rparr>"

definition alive :: "process \<Rightarrow> bool" where
  "alive p \<longleftrightarrow> (case pr_phase p of Exited _ \<Rightarrow> False | _ \<Rightarrow> True)"

fun replied :: "job \<Rightarrow> bool" where
  "replied (Answered rq x) = True"
| "replied _ = False"

inductive process_step :: "golib \<Rightarrow> httplib \<Rightarrow> process \<Rightarrow> process \<Rightarrow> bool" for L H where
  listen: "alive p \<Longrightarrow> pr_listener p = Unstarted \<Longrightarrow> process_step L H p (listen_begin p)"
| failed: "alive p \<Longrightarrow> pr_listener p = Listening \<Longrightarrow> process_step L H p (listen_failed e p)"
| accept: "alive p \<Longrightarrow> pr_listener p = Listening \<Longrightarrow> process_step L H p (p\<lparr>pr_jobs := pr_jobs p @ [Arrived rq]\<rparr>)"
| work: "alive p \<Longrightarrow> i < length (pr_jobs p) \<Longrightarrow> job_run L H (sr_config (pr_server p)) (pr_jobs p ! i) (pr_server p) t' s' \<Longrightarrow>
    process_step L H p (p\<lparr>pr_jobs := (pr_jobs p)[i := t'], pr_server := s'\<rparr>)"
| signal: "pr_phase p = Serving_requests \<Longrightarrow> process_step L H p (on_signal t p)"
| timeout: "pr_phase p = Shutting_down deadline \<Longrightarrow> deadline \<le> t \<Longrightarrow> process_step L H p (shutdown_failed e p)"
| drained: "pr_phase p = Shutting_down deadline \<Longrightarrow> list_all replied (pr_jobs p) \<Longrightarrow> process_step L H p (shutdown_done p)"

inductive_cases process_stepE: "process_step L H p p'"

text \<open>What holds of a process that has started with the server \<open>s0\<close>: its requests are a run of the gateway, and it exits with a
  code that its last log line explains.\<close>

definition process_inv :: "golib \<Rightarrow> httplib \<Rightarrow> Server \<Rightarrow> process \<Rightarrow> bool" where
  "process_inv L H s0 p \<longleftrightarrow>
     (http_system L H (sr_config s0))\<^sup>*\<^sup>* ([], s0) (pr_jobs p, pr_server p) \<and> sr_config (pr_server p) = sr_config s0 \<and>
     (pr_phase p \<noteq> Serving_requests \<longrightarrow> pr_listener p \<noteq> Listening \<or> pr_phase p = Exited 1) \<and>
     (case pr_phase p of
        Exited c \<Rightarrow> c = 0 \<and> list_all replied (pr_jobs p) \<and> pr_log p \<noteq> [] \<and> last (pr_log p) = info ''gateway stopped'' [] \<or>
          c = 1 \<and> pr_log p \<noteq> [] \<and> ln_Level (last (pr_log p)) = ErrorLevel
      | _ \<Rightarrow> list_all (\<lambda>l. ln_Level l = InfoLevel) (pr_log p))"

lemma job_run_config:
  assumes "gateway_boot E w = (Inr s0, w0)" and "(http_system L H (sr_config s0))\<^sup>*\<^sup>* ([], s0) (ts, s)" and "i < length ts"
    and "job_run L H (sr_config s0) (ts ! i) s t' s'"
  shows "(http_system L H (sr_config s0))\<^sup>*\<^sup>* ([], s0) (ts[i := t'], s') \<and> sr_config s' = sr_config s0"
proof -
  have step: "http_system L H (sr_config s0) (ts, s) (ts[i := t'], s')" by (rule sys_step.thread) (rule assms)+
  have "(http_system L H (sr_config s0))\<^sup>*\<^sup>* ([], s0) (ts[i := t'], s')"
    by (rule rtranclp.rtrancl_into_rtrancl [OF assms(2) step])
  moreover from http.sys_inv_reach [OF gateway_boot_ready(1) [OF assms(1)] this] have "sr_config s' = sr_config s0"
    by (simp add: http.sys_inv_def gateway_inv_def)
  ultimately show ?thesis by blast
qed

lemma process_step_inv:
  assumes boot: "gateway_boot E w = (Inr s0, w0)" and step: "process_step L H p p'" and inv: "process_inv L H s0 p"
  shows "process_inv L H s0 p'"
  using step
proof cases
  case listen
  then show ?thesis using inv by (auto simp: process_inv_def listen_begin_def alive_def info_def split: phase.splits)
next
  case (failed e)
  then show ?thesis using inv by (auto simp: process_inv_def listen_failed_def err_line_def alive_def split: phase.splits)
next
  case (accept rq)
  have "http_system L H (sr_config s0) (pr_jobs p, pr_server p) (pr_jobs p @ [Arrived rq], pr_server p)"
    by (rule sys_step.spawn) simp
  with accept inv show ?thesis
    by (auto simp: process_inv_def alive_def intro: rtranclp.rtrancl_into_rtrancl split: phase.splits)
next
  case (work i t' s')
  have "sr_config (pr_server p) = sr_config s0" using inv by (simp add: process_inv_def)
  then have "(http_system L H (sr_config s0))\<^sup>*\<^sup>* ([], s0) ((pr_jobs p)[i := t'], s') \<and> sr_config s' = sr_config s0"
    using job_run_config [OF boot, of L H "pr_jobs p" "pr_server p" i t' s'] work(3,4) inv by (simp add: process_inv_def)
  with work inv show ?thesis by (auto simp: process_inv_def alive_def split: phase.splits)
next
  case (signal t)
  then show ?thesis using inv by (auto simp: process_inv_def on_signal_def)
next
  case (timeout deadline t e)
  then show ?thesis using inv by (auto simp: process_inv_def shutdown_failed_def err_line_def)
next
  case (drained deadline)
  then show ?thesis using inv by (auto simp: process_inv_def shutdown_done_def)
qed

lemma process_reach_inv:
  assumes "start_process H E w = Inr p0" and "(process_step L H)\<^sup>*\<^sup>* p0 p"
  shows "\<exists>s0 w0. gateway_boot E w = (Inr s0, w0) \<and> pr_server p0 = s0 \<and> process_inv L H s0 p"
proof -
  obtain s0 w0 where boot: "gateway_boot E w = (Inr s0, w0)" and p0: "pr_server p0 = s0" "process_inv L H s0 p0"
    using assms(1) by (auto simp: start_process_def process_inv_def split: prod.splits sum.splits)
  have "process_inv L H s0 p" using assms(2)
    by (induction rule: rtranclp_induct) (auto intro: p0(2) process_step_inv [OF boot])
  with boot p0 show ?thesis by blast
qed

text \<open>The steps of requests alone carry a process on.\<close>

lemma work_steps:
  assumes "alive p" and "(thread_step (job_run L H cfg))\<^sup>*\<^sup>* (pr_jobs p, pr_server p) c"
    and "sr_config (pr_server p) = cfg"
  shows "(process_step L H)\<^sup>*\<^sup>* p (p\<lparr>pr_jobs := fst c, pr_server := snd c\<rparr>) \<and> length (fst c) = length (pr_jobs p)"
  using assms(2)
proof (induction rule: rtranclp_induct)
  case base
  then show ?case by simp
next
  case (step c c')
  let ?q = "p\<lparr>pr_jobs := fst c, pr_server := snd c\<rparr>"
  obtain i ts s t' s' where c: "c = (ts, s)" "c' = (ts[i := t'], s')" "i < length ts" "job_run L H cfg (ts ! i) s t' s'"
    by (rule thread_stepE [OF step.hyps(2)])
  have cfg: "sr_config s = cfg" using c(4) by (simp add: job_run_def)
  have "process_step L H ?q (?q\<lparr>pr_jobs := (pr_jobs ?q)[i := t'], pr_server := s'\<rparr>)"
    by (rule process_step.work) (use assms(1) c cfg in \<open>simp_all add: alive_def\<close>)
  then show ?case using step.IH c by (auto intro: rtranclp.rtrancl_into_rtrancl)
qed

section \<open>The worker process\<close>

text \<open>
  The worker waits in a \<^verbatim>\<open>select\<close> for the end of its context or for the ticker. The channel of the ticker holds one tick; one that
  comes while it is full is dropped. When both are ready the language leaves open which is taken.
\<close>

record worker =
  wk_cancelled :: bool
  wk_tick :: bool
  wk_stopped :: bool
  wk_log :: "string list"

definition worker_start :: worker where
  "worker_start = \<lparr>wk_cancelled = False, wk_tick = False, wk_stopped = False, wk_log = [''worker started'']\<rparr>"

datatype pick = Take_done | Take_tick

definition can_take :: "pick \<Rightarrow> worker \<Rightarrow> bool" where
  "can_take c k \<longleftrightarrow> \<not> wk_stopped k \<and> (case c of Take_done \<Rightarrow> wk_cancelled k | Take_tick \<Rightarrow> wk_tick k)"

fun worker_select :: "pick \<Rightarrow> worker \<Rightarrow> worker" where
  "worker_select Take_done k = k\<lparr>wk_log := wk_log k @ [''worker stopped''], wk_stopped := True\<rparr>"
| "worker_select Take_tick k = k\<lparr>wk_tick := False, wk_log := wk_log k @ [''maintenance tick'']\<rparr>"

datatype worker_event = Signal_event | Clock_event | Select_event pick

fun worker_step :: "worker_event \<Rightarrow> worker \<Rightarrow> worker option" where
  "worker_step Signal_event k = Some (k\<lparr>wk_cancelled := True\<rparr>)"
| "worker_step Clock_event k = Some (k\<lparr>wk_tick := True\<rparr>)"
| "worker_step (Select_event c) k = (if can_take c k then Some (worker_select c k) else None)"

fun worker_run :: "worker_event list \<Rightarrow> worker \<Rightarrow> worker option" where
  "worker_run [] k = Some k"
| "worker_run (e # es) k = (case worker_step e k of None \<Rightarrow> None | Some k' \<Rightarrow> worker_run es k')"

definition ticks_in :: "worker_event list \<Rightarrow> nat" where
  "ticks_in es = length (filter (\<lambda>e. e = Clock_event) es)"

text \<open>The log of a worker that has taken \<open>n\<close> ticks.\<close>

definition worker_lines :: "nat \<Rightarrow> bool \<Rightarrow> string list" where
  "worker_lines n stopped = ''worker started'' # replicate n ''maintenance tick'' @ (if stopped then [''worker stopped''] else [])"

lemma worker_run_log:
  "worker_run es k = Some k' \<Longrightarrow> wk_log k = worker_lines n (wk_stopped k) \<Longrightarrow>
   \<exists>m. wk_log k' = worker_lines (n + m) (wk_stopped k') \<and> m + (if wk_tick k' then 1 else 0) \<le> ticks_in es + (if wk_tick k then 1 else 0) \<and>
     (wk_stopped k' \<longrightarrow> wk_stopped k \<or> Signal_event \<in> set es \<or> wk_cancelled k)"
proof (induction es arbitrary: k n)
  case Nil
  then show ?case by (intro exI [of _ 0]) (simp add: ticks_in_def)
next
  case (Cons e es)
  then obtain k1 where k1: "worker_step e k = Some k1" "worker_run es k1 = Some k'" by (auto split: option.splits)
  show ?case
  proof (cases e)
    case (Select_event c)
    show ?thesis
    proof (cases c)
      case Take_tick
      have w: "wk_tick k" "\<not> wk_stopped k" "k1 = worker_select Take_tick k"
        using k1(1) Select_event Take_tick by (auto simp: can_take_def split: if_splits)
      then have "wk_log k1 = worker_lines (Suc n) (wk_stopped k1)" using Cons.prems(2) by (simp add: worker_lines_def replicate_append_same)
      from Cons.IH [OF k1(2) this] obtain m where "wk_log k' = worker_lines (Suc n + m) (wk_stopped k')"
        "m + (if wk_tick k' then 1 else 0) \<le> ticks_in es" "wk_stopped k' \<longrightarrow> Signal_event \<in> set es \<or> wk_cancelled k"
        using w by auto
      then show ?thesis using w Select_event by (intro exI [of _ "Suc m"]) (auto simp: ticks_in_def)
    next
      case Take_done
      have w: "wk_cancelled k" "\<not> wk_stopped k" "k1 = worker_select Take_done k"
        using k1(1) Select_event Take_done by (auto simp: can_take_def split: if_splits)
      then have "wk_log k1 = worker_lines n (wk_stopped k1)" using Cons.prems(2) by (simp add: worker_lines_def)
      from Cons.IH [OF k1(2) this] show ?thesis using w Select_event by (auto simp: ticks_in_def)
    qed
  next
    case Signal_event
    then have "wk_log k1 = worker_lines n (wk_stopped k1)" "wk_tick k1 = wk_tick k" "wk_stopped k1 = wk_stopped k"
      using k1(1) Cons.prems(2) by auto
    with Cons.IH [OF k1(2), of n] show ?thesis using Signal_event by (auto simp: ticks_in_def)
  next
    case Clock_event
    then have "wk_log k1 = worker_lines n (wk_stopped k1)" "wk_tick k1" "wk_stopped k1 = wk_stopped k" "wk_cancelled k1 = wk_cancelled k"
      using k1(1) Cons.prems(2) by auto
    with Cons.IH [OF k1(2), of n] obtain m where "wk_log k' = worker_lines (n + m) (wk_stopped k')"
      "m + (if wk_tick k' then 1 else 0) \<le> ticks_in es + 1" "wk_stopped k' \<longrightarrow> wk_stopped k \<or> Signal_event \<in> set es \<or> wk_cancelled k" by auto
    then show ?thesis using Clock_event by (intro exI [of _ m]) (auto simp: ticks_in_def split: if_splits)
  qed
qed

lemma worker_run_cancelled: "worker_run es k = Some k' \<Longrightarrow> wk_cancelled k' \<longleftrightarrow> wk_cancelled k \<or> Signal_event \<in> set es"
proof (induction es arbitrary: k)
  case (Cons e es)
  then obtain k1 where k1: "worker_step e k = Some k1" "worker_run es k1 = Some k'" by (auto split: option.splits)
  have "wk_cancelled k1 \<longleftrightarrow> wk_cancelled k \<or> e = Signal_event"
  proof (cases e)
    case (Select_event c)
    then show ?thesis using k1(1) by (cases c) (auto split: if_splits)
  qed (use k1(1) in auto)
  with Cons.IH [OF k1(2)] show ?case by auto
qed simp

section \<open>Sample process\<close>

definition demo_process :: process where
  "demo_process = \<lparr>pr_phase = Serving_requests, pr_listener = Unstarted, pr_log = [], pr_jobs = [], pr_server = demo_server\<rparr>"

lemma demo_start: "start_process demo_http (\<lambda>_. '''') demo_world = Inr demo_process"
  by (simp add: start_process_def demo_boot demo_process_def)

text \<open>A process that accepted a request before it got the signal.\<close>

definition demo_stopping :: process where
  "demo_stopping = on_signal 7 ((listen_begin demo_process)\<lparr>pr_jobs := [Arrived demo_ingest]\<rparr>)"

lemma demo_stopping_reach: "(process_step demo_lib demo_http)\<^sup>*\<^sup>* demo_process demo_stopping"
proof -
  have "(process_step demo_lib demo_http)\<^sup>*\<^sup>* demo_process (listen_begin demo_process)"
    by (rule r_into_rtranclp, rule process_step.listen) (simp_all add: alive_def demo_process_def)
  also have "process_step demo_lib demo_http (listen_begin demo_process) ((listen_begin demo_process)\<lparr>pr_jobs := [Arrived demo_ingest]\<rparr>)"
    using process_step.accept [of "listen_begin demo_process" demo_lib demo_http demo_ingest]
    by (simp add: alive_def demo_process_def listen_begin_def)
  also have "process_step demo_lib demo_http ((listen_begin demo_process)\<lparr>pr_jobs := [Arrived demo_ingest]\<rparr>) demo_stopping"
    unfolding demo_stopping_def by (rule process_step.signal) (simp add: demo_process_def listen_begin_def)
  finally show ?thesis by simp
qed

section \<open>Properties\<close>







end
