(* ===== verification/Spec2Isabelle.thy ===== *)
theory Spec2Isabelle
  imports HttpLedger Processes
begin

text \<open>
  A verification development of the event contract and data quality gateway.

  \<^bold>\<open>The program.\<close> Producers register event contracts with versioned schemas
  (\<^verbatim>\<open>src/internal/contract\<close>), kept in a store of the process (\<^verbatim>\<open>src/internal/platform/store\<close>).
  Events are published to the ingestion service (\<^verbatim>\<open>src/internal/ingestion\<close>), which checks idempotency,
  quota, signature and time, looks up the contract, checks the payload against the published schema
  version and the quality rules (\<^verbatim>\<open>src/internal/quality\<close>), and stores a receipt, an attempt, a lineage
  record (\<^verbatim>\<open>src/internal/lineage\<close>) and, for a rejected event, a dead letter
  (\<^verbatim>\<open>src/internal/deadletter\<close>) that an operator may replay. Rule sets are versioned in a catalogue. The
  process \<^verbatim>\<open>src/cmd/gateway\<close> reads its configuration (\<^verbatim>\<open>src/internal/platform/config\<close>) and serves both
  over HTTP (\<^verbatim>\<open>src/internal/platform/httpapi\<close>), counting what it ingests (\<^verbatim>\<open>src/internal/platform/telemetry\<close>).

  \<^bold>\<open>Conventions.\<close> A struct is a record, an enumeration a datatype, an error a value of the type
  \<^verbatim>\<open>error\<close>, and an operation that can fail returns a value of \<^verbatim>\<open>'a result\<close>; a run-time panic is the
  error \<^verbatim>\<open>Panic\<close>. A method with a pointer receiver takes the state and returns it updated. Go maps
  are association lists with distinct keys. Clock readings and identifiers come from a \<^verbatim>\<open>world\<close>, one per
  call, in the order of the code. Orders that Go leaves open (ranging over a map, equal elements in
  \<^verbatim>\<open>sort.Slice\<close>) are arguments, and theorems hold for all of them. Integers are unbounded with the
  64-bit wrap-around written out where a value can reach it. Floating-point values are rationals
  rounded to 53 bits, with infinities, a negative zero and NaN. Hashes, the regular-expression
  engine, Unicode case tables and decimal float conversion are fields of the record \<^verbatim>\<open>golib\<close>, and the
  decoding of JSON bodies, quoting, texts of regular-expression errors and time stamps are fields of \<^verbatim>\<open>httplib\<close>,
  parameters of the definitions that use them; \<^verbatim>\<open>demo_lib\<close> and \<^verbatim>\<open>demo_http\<close> are instances used by the witnesses.

  \<^bold>\<open>The theories.\<close>
  \<^item> \<^verbatim>\<open>Prelude\<close>, \<^verbatim>\<open>GoLib\<close>: maps, orders, sorting, wrap-around; strings, floats, dynamic values, time.
  \<^item> \<^verbatim>\<open>ContractModel\<close>: \<^verbatim>\<open>contract/domain/model.go\<close>. Validation and comparison of schemas against a
    declarative specification; an invariant over all reachable contracts; a version keeps what it was
    published with; every version is compatible with its predecessor.
  \<^item> \<^verbatim>\<open>Paging\<close>: the contract of cursor pagination, a locale \<^verbatim>\<open>cursor_pages\<close> in which following
    the cursors visits every item once. Interpreted for the store and for event search.
  \<^item> \<^verbatim>\<open>ContractStore\<close>, \<^verbatim>\<open>ContractService\<close>: \<^verbatim>\<open>platform/store/memory.go\<close> and
    \<^verbatim>\<open>contract/application/service.go\<close>. The locale \<^verbatim>\<open>contract_repository\<close> is the
    interface \<^verbatim>\<open>Repository\<close>; it is interpreted on the in-memory store, where its refinement to a map
    over keys is proved, and the service is verified over it.
  \<^item> \<^verbatim>\<open>QualityRules\<close>, \<^verbatim>\<open>PolicyCatalog\<close>, \<^verbatim>\<open>TypeCheck\<close>: \<^verbatim>\<open>quality/domain\<close>. A validated rule
    cannot panic; evaluation summaries; the locale \<^verbatim>\<open>rule_catalog\<close> of policy versions and its
    interpretation on the catalogue; the payload check against its specification \<^verbatim>\<open>conforms\<close>.
  \<^item> \<^verbatim>\<open>DeadLetter\<close>: \<^verbatim>\<open>deadletter/domain/model.go\<close> as a step relation with its invariant.
  \<^item> \<^verbatim>\<open>Ingestion\<close>: the model of \<^verbatim>\<open>ingestion/application/service.go\<close>, \<^verbatim>\<open>policy.go\<close> and the
    commands of \<^verbatim>\<open>query.go\<close>. \<^verbatim>\<open>IngestionFacts\<close>: what each operation writes, and the invariant
    \<^verbatim>\<open>sv_inv\<close> kept by all of them. \<^verbatim>\<open>IngestionProps\<close>: idempotency, outcome, quota, replay, roll-back
    over the states that sequences of operations reach.
  \<^item> \<^verbatim>\<open>EventQuery\<close>: the queries of \<^verbatim>\<open>query.go\<close>; complete pagination, tenant boundary, summary counts.
  \<^item> \<^verbatim>\<open>Gateway\<close> and this theory: properties that span the registry and the ingestion service.
  \<^item> \<^verbatim>\<open>GoConv\<close>, \<^verbatim>\<open>Config\<close>: parsing and printing of booleans and durations, and \<^verbatim>\<open>config.go\<close>: bounds
    and defaults of a configuration; a default duration survives being printed and parsed.
  \<^item> \<^verbatim>\<open>Routing\<close>: the route table of \<^verbatim>\<open>server.go\<close> and the choice of a route, sound and complete for the
    declarative meaning of a pattern.
  \<^item> \<^verbatim>\<open>Http\<close>: \<^verbatim>\<open>request.go\<close>, \<^verbatim>\<open>response.go\<close>, \<^verbatim>\<open>telemetry.go\<close>, every handler of \<^verbatim>\<open>server.go\<close> and
    the wiring of \<^verbatim>\<open>cmd/gateway/main.go\<close>. \<^verbatim>\<open>HttpProps\<close>: over every sequence of requests no answer is an internal
    error, the invariants of the services hold, reads change nothing, every response is a well-formed
    envelope; status codes of ingestion and conditional publication; which handlers check the tenant; exact counters.
  \<^item> \<^verbatim>\<open>Interleave\<close>: a system of threads over a shared state, its schedules, and the locale \<^verbatim>\<open>interleaving\<close> (rely and
    guarantee, progress, a bound on steps), extended by \<^verbatim>\<open>tallying\<close>, in which a count kept by the threads and
    one kept in the state move together. \<^verbatim>\<open>IngestThreads\<close> interprets the former for the critical sections of
    \<^verbatim>\<open>Publish\<close> and \<^verbatim>\<open>Replay\<close>, \<^verbatim>\<open>RegistryThreads\<close> for the find and save of the registry: alone, the
    threads are the sequential operations (refinement); interleaved, the invariants hold and all threads finish; and the
    interleavings in which an idempotency key, a letter in replay or an entity tag does not protect are exhibited.
  \<^item> \<^verbatim>\<open>Simulation\<close>, \<^verbatim>\<open>Ledger\<close>: the abstract specification of the ingestion service, an append-only
    ledger of the events it has answered. The maps of the service are views of the ledger; the locale \<^verbatim>\<open>simulation\<close>
    carries the proof from one step to all runs, and is interpreted for the operations one after the other, for interleaved
    critical sections and, in \<^verbatim>\<open>HttpLedger\<close>, for the whole gateway.
  \<^item> \<^verbatim>\<open>HttpThreads\<close>, \<^verbatim>\<open>HttpConcurrency\<close>: every handler of \<^verbatim>\<open>server.go\<close> as a thread whose steps are
    the critical sections it enters, over the state of the gateway. Alone, a request is answered as the sequential handler
    answers it; among any number of other requests, in any order of steps, no answer is an internal error, the invariants
    hold, the counters are exact and every request is answered.
  \<^item> \<^verbatim>\<open>Processes\<close>: the life cycle of \<^verbatim>\<open>cmd/gateway/main.go\<close> (configuration, listener, signals, the
    grace period of a shutdown, exit codes) and the loop of \<^verbatim>\<open>cmd/worker/main.go\<close>, as step relations.

  \<^bold>\<open>Loops and fuel.\<close> Every loop of the modelled code runs over a finite list or consumes its input and is structural
  recursion, recursion with a termination proof or a library function, so no definition that models code takes fuel. Only
  \<^verbatim>\<open>walk_pages\<close>, a client that follows cursors, and \<^verbatim>\<open>run_alone\<close>, a thread run by itself, do; one
  request more than there are items, and, for a thread, seven steps (\<^verbatim>\<open>Publish\<close>), nine (\<^verbatim>\<open>Replay\<close>), or eleven
  and eleven more for every letter of a batch (a request) are enough, which the theorems state.

  \<^bold>\<open>Not modelled.\<close> The JSON text of responses (a body is the envelope before it is encoded) and the reflection-driven
  decoding of requests (a parameter). The server of \<^verbatim>\<open>net/http\<close> between accepting a connection and calling a
  handler, with its time-outs; what \<^verbatim>\<open>Processes\<close> uses of it is its documented life cycle. Slices and maps are
  values, so that a caller who keeps and changes a payload after publishing it is outside the model, and so is a data race on
  a value that leaves a critical section.

  \<^bold>\<open>Next.\<close> Payloads behind an explicit store of references, so that sharing between the caller and the
  receipts is a statement of the model.
\<close>

section \<open>Properties that span components\<close>

text \<open>C1: an accepted event has a contract behind it: with the registry as the lookup of the ingestion
  service, an event that is accepted and not a duplicate names a contract stored under its tenant and
  contract identifier, which the registry built by its own operations, and a published version of that
  contract whose fields its payload satisfies; every enabled rule of the contract passes.\<close>

theorem accepted_event_conforms:
  assumes "registry_reach L st" and "service_reach L secret maxQuota s"
    and "Publish L (Find st) e s w = (Inr r, s', w')" and "rp_Status r = Accepted" and "\<not> rp_Duplicate r"
  shows "\<exists>c v. Find st (ev_TenantID e) (ev_ContractID e) = Inr c \<and> contract_reach L c \<and>
    store_key (c_OrganizationID c) (c_ID c) = store_key (ev_TenantID e) (ev_ContractID e) \<and>
    v \<in> set (c_Versions c) \<and> v_Number v = ev_SchemaVersion e \<and> v_Lifecycle v = Published \<and>
    ValidatePayload L (entries (ev_Payload e)) (s_Fields (v_Schema v)) = [] \<and>
    (\<forall>q\<in>set (rules_of s (ev_ContractID e)). q_Enabled q \<longrightarrow> rule_passes L (entries (ev_Payload e)) q)"
proof -
  obtain e' t w1 where prep: "prepare_event e w = (e', t, w1)" by (metis prod_cases3)
  note f = prepare_event_frame [OF prep]
  have adm: "admissible L (Find st) s e'"
    using Publish_accepted [OF service_reach_inv [OF assms(2)] assms(3,5) prep] assms(4) by (auto split: if_splits)
  from admissible_version [OF this] f obtain c v where c: "Find st (ev_TenantID e) (ev_ContractID e) = Inr c"
    and v: "v \<in> set (c_Versions c)" "v_Number v = ev_SchemaVersion e" "v_Lifecycle v = Published"
      "ValidatePayload L (entries (ev_Payload e)) (s_Fields (v_Schema v)) = []"
    by auto
  have "\<forall>q\<in>set (rules_of s (ev_ContractID e)). q_Enabled q \<longrightarrow> rule_passes L (entries (ev_Payload e)) q"
    using adm f by (simp add: admissible_def list_all_iff)
  with c v registry_lookup [OF assms(1) c] show ?thesis by blast
qed

theorem accepted_event_conforms_witness:
  "\<exists>c v. Find demo_pipeline ''acme'' ''id0'' = Inr c \<and> v \<in> set (c_Versions c) \<and> v_Number v = 1 \<and> v_Lifecycle v = Published"
proof -
  have run: "Publish demo_lib (Find demo_pipeline) demo_order (NewService '''' 5) demo_world =
      (Inr demo_receipt, fst (snd demo_gateway), snd (snd demo_gateway))"
    using demo_gateway_accepted by (simp add: demo_gateway_def prod_eq_iff)
  have o: "ev_TenantID demo_order = ''acme''" "ev_ContractID demo_order = ''id0''" "ev_SchemaVersion demo_order = 1"
    by (simp_all add: demo_order_def demo_event_def)
  have "rp_Status demo_receipt = Accepted" "\<not> rp_Duplicate demo_receipt" by (simp_all add: demo_receipt_def)
  from accepted_event_conforms [OF demo_pipeline_reach service_reach.start run this] o show ?thesis by metis
qed



end
